(* ===== verification/Djq_Prelude.thy ===== *)
theory Djq_Prelude
  imports Main "HOL-Library.Word" "HOL-Library.Multiset" "HOL-Library.Product_Lexorder"
begin

text \<open>
  Shared vocabulary of the development: the types every component uses (identifiers, timestamps),
  the outcome type of a Rust call, Rust's integer casts, SQL's row operations on a table kept as a
  list of rows, and the generic lemmas about them that carry the component proofs.
\<close>

section \<open>Automation collections\<close>

named_theorems row_updates \<open>the column assignments of the UPDATE statements\<close>
named_theorems row_invariant \<open>the parts of the row invariant\<close>
named_theorems store_preserves \<open>preservation of the database invariant by the methods of the store\<close>

section \<open>Types shared by all components\<close>

text \<open>
  A \<open>Uuid\<close> is a 128-bit value.  A \<open>DateTime<Utc>\<close> is the number of microseconds since the epoch,
  the resolution of a Postgres \<open>timestamptz\<close>.
\<close>

type_synonym uuid = "128 word"
type_synonym time = int

definition usecs_per_sec :: int where
  "usecs_per_sec = 1000000"

text \<open>\<open>n * interval '1 second'\<close> in microseconds.\<close>

definition interval_secs :: "int \<Rightarrow> int" where
  "interval_secs n = n * usecs_per_sec"

lemma interval_secs_mono [simp]: "interval_secs a \<le> interval_secs b \<longleftrightarrow> a \<le> b"
  by (simp add: interval_secs_def usecs_per_sec_def)

lemma interval_secs_less [simp]: "interval_secs a < interval_secs b \<longleftrightarrow> a < b"
  by (simp add: interval_secs_def usecs_per_sec_def)

lemma interval_secs_0 [simp]: "interval_secs 0 = 0"
  by (simp add: interval_secs_def)

lemma interval_secs_pos [simp]: "0 < interval_secs n \<longleftrightarrow> 0 < n"
  by (simp add: interval_secs_def usecs_per_sec_def)

lemma interval_secs_nonneg [simp]: "0 \<le> interval_secs n \<longleftrightarrow> 0 \<le> n"
  by (simp add: interval_secs_def usecs_per_sec_def)

section \<open>The outcome of a Rust call\<close>

text \<open>
  A fallible call returns \<open>Ok\<close> or \<open>Err\<close>; a panic unwinds the task and is a third outcome.
\<close>

datatype ('a, 'e) outcome = Ok 'a | Err 'e | Panic

text \<open>The \<open>?\<close> operator.\<close>

fun and_then :: "('a, 'e) outcome \<Rightarrow> ('a \<Rightarrow> ('b, 'e) outcome) \<Rightarrow> ('b, 'e) outcome" where
  "and_then (Ok a) f = f a"
| "and_then (Err e) f = Err e"
| "and_then Panic f = Panic"

fun is_ok :: "('a, 'e) outcome \<Rightarrow> bool" where
  "is_ok (Ok a) = True"
| "is_ok (Err e) = False"
| "is_ok Panic = False"

lemma and_then_Ok_iff [simp]:
  "and_then r f = Ok b \<longleftrightarrow> (\<exists>a. r = Ok a \<and> f a = Ok b)"
  by (cases r) auto

lemma is_ok_iff: "is_ok r \<longleftrightarrow> (\<exists>a. r = Ok a)"
  by (cases r) auto

text \<open>\<open>iter.map(f).collect::<Result<Vec<_>>>()\<close>: the first error stops the collection.\<close>

fun collect_ok :: "('a \<Rightarrow> ('b, 'e) outcome) \<Rightarrow> 'a list \<Rightarrow> ('b list, 'e) outcome" where
  "collect_ok f [] = Ok []"
| "collect_ok f (x # xs) = and_then (f x) (\<lambda>y. and_then (collect_ok f xs) (\<lambda>ys. Ok (y # ys)))"

lemma collect_ok_all:
  "(\<And>x. x \<in> set xs \<Longrightarrow> f x = Ok (g x)) \<Longrightarrow> collect_ok f xs = Ok (map g xs)"
  by (induction xs) auto

section \<open>Rust integer casts\<close>

text \<open>
  \<open>i32\<close>, \<open>i64\<close>, \<open>u32\<close> and \<open>u64\<close> values are integers in their range; an \<open>as\<close> cast keeps the low bits
  of the two's complement representation.
\<close>

definition is_i32 :: "int \<Rightarrow> bool" where
  "is_i32 n \<longleftrightarrow> - (2 ^ 31) \<le> n \<and> n < 2 ^ 31"

definition is_i64 :: "int \<Rightarrow> bool" where
  "is_i64 n \<longleftrightarrow> - (2 ^ 63) \<le> n \<and> n < 2 ^ 63"

definition as_u32 :: "int \<Rightarrow> int" where
  "as_u32 n = uint (word_of_int n :: 32 word)"

definition as_u64 :: "int \<Rightarrow> int" where
  "as_u64 n = uint (word_of_int n :: 64 word)"

definition as_i32 :: "int \<Rightarrow> int" where
  "as_i32 n = sint (word_of_int n :: 32 word)"

lemma as_u32_id: "0 \<le> n \<Longrightarrow> n < 2 ^ 32 \<Longrightarrow> as_u32 n = n"
  by (simp add: as_u32_def unsigned_of_int take_bit_int_eq_self)

lemma as_u64_id: "0 \<le> n \<Longrightarrow> n < 2 ^ 64 \<Longrightarrow> as_u64 n = n"
  by (simp add: as_u64_def unsigned_of_int take_bit_int_eq_self)

lemma as_u64_range: "0 \<le> as_u64 n \<and> as_u64 n < 2 ^ 64"
  using uint_lt2p [of "word_of_int n :: 64 word"] by (simp add: as_u64_def)

section \<open>SQL row operations\<close>

text \<open>
  A table is a list of rows.  \<open>UPDATE t SET f WHERE p\<close>, \<open>DELETE FROM t WHERE p\<close> and
  \<open>SELECT ... WHERE p\<close> with the \<open>ORDER BY\<close> and \<open>LIMIT\<close> clauses.  Rows that compare equal under an
  \<open>ORDER BY\<close> come out in table order; the table order is arbitrary.
\<close>

definition update_where :: "('r \<Rightarrow> bool) \<Rightarrow> ('r \<Rightarrow> 'r) \<Rightarrow> 'r list \<Rightarrow> 'r list" where
  "update_where p f rows = map (\<lambda>r. if p r then f r else r) rows"

definition delete_where :: "('r \<Rightarrow> bool) \<Rightarrow> 'r list \<Rightarrow> 'r list" where
  "delete_where p rows = filter (\<lambda>r. \<not> p r) rows"

definition select_where :: "('r \<Rightarrow> bool) \<Rightarrow> 'r list \<Rightarrow> 'r list" where
  "select_where p rows = filter p rows"

definition order_by :: "('r \<Rightarrow> 'k::linorder) \<Rightarrow> 'r list \<Rightarrow> 'r list" where
  "order_by key rows = sort_key key rows"

definition limit_rows :: "int \<Rightarrow> 'r list \<Rightarrow> 'r list" where
  "limit_rows n rows = take (nat n) rows"

definition offset_rows :: "int \<Rightarrow> 'r list \<Rightarrow> 'r list" where
  "offset_rows n rows = drop (nat n) rows"

text \<open>\<open>fetch_optional\<close>: the first row, if any.\<close>

fun fetch_optional :: "'r list \<Rightarrow> 'r option" where
  "fetch_optional [] = None"
| "fetch_optional (r # rs) = Some r"

text \<open>An ascending \<open>ORDER BY\<close> sorts \<open>NULL\<close> last.\<close>

fun nulls_last :: "int option \<Rightarrow> int \<times> int" where
  "nulls_last (Some t) = (0, t)"
| "nulls_last None = (1, 0)"

fun coalesce :: "'a option \<Rightarrow> 'a \<Rightarrow> 'a" where
  "coalesce (Some a) b = a"
| "coalesce None b = b"

text \<open>\<open>x < y\<close> where \<open>x\<close> is a nullable column: \<open>NULL\<close> compares as not true.\<close>

fun null_less :: "int option \<Rightarrow> int \<Rightarrow> bool" where
  "null_less (Some x) y = (x < y)"
| "null_less None y = False"

lemma null_less_iff: "null_less x y \<longleftrightarrow> (\<exists>t. x = Some t \<and> t < y)"
  by (cases x) auto

lemma coalesce_is: "coalesce x b = (case x of None \<Rightarrow> b | Some a \<Rightarrow> a)"
  by (cases x) auto

lemma update_where_Nil [simp]: "update_where p f [] = []"
  by (simp add: update_where_def)

lemma update_where_Cons [simp]:
  "update_where p f (r # rs) = (if p r then f r else r) # update_where p f rs"
  by (simp add: update_where_def)

lemma delete_where_Nil [simp]: "delete_where p [] = []"
  by (simp add: delete_where_def)

lemma delete_where_Cons [simp]:
  "delete_where p (r # rs) = (if p r then delete_where p rs else r # delete_where p rs)"
  by (simp add: delete_where_def)

lemma select_where_Nil [simp]: "select_where p [] = []"
  by (simp add: select_where_def)

lemma select_where_Cons [simp]:
  "select_where p (r # rs) = (if p r then r # select_where p rs else select_where p rs)"
  by (simp add: select_where_def)

lemma set_update_where:
  "x \<in> set (update_where p f rows) \<longleftrightarrow>
     (\<exists>r \<in> set rows. (p r \<and> x = f r) \<or> (\<not> p r \<and> x = r))"
  by (auto simp: update_where_def)

lemma set_delete_where [simp]: "set (delete_where p rows) = {r \<in> set rows. \<not> p r}"
  by (auto simp: delete_where_def)

lemma set_select_where [simp]: "set (select_where p rows) = {r \<in> set rows. p r}"
  by (auto simp: select_where_def)

lemma set_order_by [simp]: "set (order_by key rows) = set rows"
  by (simp add: order_by_def)

lemma sorted_order_by: "sorted (map key (order_by key rows))"
  by (simp add: order_by_def)

lemma length_order_by [simp]: "length (order_by key rows) = length rows"
  by (simp add: order_by_def)

lemma order_by_Nil_iff [simp]: "order_by key rows = [] \<longleftrightarrow> rows = []"
  by (metis length_order_by length_0_conv)

lemma distinct_map_order_by [simp]:
  "distinct (map g (order_by key rows)) = distinct (map g rows)"
  by (metis distinct_map mset_map mset_sort order_by_def mset_eq_imp_distinct_iff)

lemma set_limit_rows: "set (limit_rows n rows) \<subseteq> set rows"
  by (simp add: limit_rows_def set_take_subset)

lemma in_set_limit_rowsD: "x \<in> set (limit_rows n rows) \<Longrightarrow> x \<in> set rows"
  using set_limit_rows by fast

lemma length_limit_rows: "0 \<le> n \<Longrightarrow> int (length (limit_rows n rows)) \<le> n"
  by (simp add: limit_rows_def)

text \<open>The first row of an ordered selection is a least one.\<close>

lemma fetch_optional_Some_in: "fetch_optional rows = Some r \<Longrightarrow> r \<in> set rows"
  by (cases rows) auto

lemma fetch_optional_None [simp]: "fetch_optional rows = None \<longleftrightarrow> rows = []"
  by (cases rows) auto

lemma fetch_optional_limit_1 [simp]: "fetch_optional (limit_rows 1 rows) = fetch_optional rows"
  by (cases rows) (auto simp: limit_rows_def)

lemma fetch_ordered_least:
  assumes "fetch_optional (order_by key rows) = Some r" and "x \<in> set rows"
  shows "key r \<le> key x"
proof -
  from assms(1) obtain rest where eq: "order_by key rows = r # rest"
    by (cases "order_by key rows") auto
  from sorted_order_by [of key rows] eq have "\<forall>y \<in> set (r # rest). key r \<le> key y"
    by auto
  moreover from assms(2) have "x \<in> set (r # rest)"
    using eq by (metis set_order_by)
  ultimately show ?thesis by blast
qed

text \<open>Rows are identified by a key column: an update through the key.\<close>

lemma map_key_update_where:
  "(\<And>r. r \<in> set rows \<Longrightarrow> p r \<Longrightarrow> k (f r) = k r) \<Longrightarrow> map k (update_where p f rows) = map k rows"
  by (auto simp: update_where_def)

lemma distinct_map_delete_where:
  "distinct (map k rows) \<Longrightarrow> distinct (map k (delete_where p rows))"
  by (simp add: delete_where_def distinct_map_filter)

lemma distinct_key_eq:
  "distinct (map k rows) \<Longrightarrow> r \<in> set rows \<Longrightarrow> s \<in> set rows \<Longrightarrow> k r = k s \<Longrightarrow> r = s"
  by (auto simp: distinct_map dest: inj_onD)

text \<open>Lookup through a key column.\<close>

definition find_by :: "('r \<Rightarrow> 'k) \<Rightarrow> 'k \<Rightarrow> 'r list \<Rightarrow> 'r option" where
  "find_by k x rows = fetch_optional (select_where (\<lambda>r. k r = x) rows)"

lemma find_by_Nil [simp]: "find_by k x [] = None"
  by (simp add: find_by_def)

lemma find_by_Cons [simp]:
  "find_by k x (r # rs) = (if k r = x then Some r else find_by k x rs)"
  by (simp add: find_by_def)

lemma find_by_SomeD: "find_by k x rows = Some r \<Longrightarrow> r \<in> set rows \<and> k r = x"
  by (induction rows) (auto split: if_splits)

lemma find_by_None_iff: "find_by k x rows = None \<longleftrightarrow> x \<notin> k ` set rows"
  by (induction rows) auto

lemma find_by_distinct:
  "distinct (map k rows) \<Longrightarrow> find_by k x rows = Some r \<longleftrightarrow> r \<in> set rows \<and> k r = x"
  by (induction rows) (auto simp: image_iff)

lemma find_by_update_where:
  assumes "\<And>r. r \<in> set rows \<Longrightarrow> k (f r) = k r"
  shows "find_by k x (update_where p f rows) =
    map_option (\<lambda>r. if p r then f r else r) (find_by k x rows)"
  using assms by (induction rows) auto

lemma find_by_append:
  "find_by k x (xs @ ys) = (case find_by k x xs of None \<Rightarrow> find_by k x ys | Some r \<Rightarrow> Some r)"
  by (induction xs) auto

lemma select_by_key_distinct:
  assumes "distinct (map k rows)"
  shows "select_where (\<lambda>r. k r = x \<and> p r) rows =
    (case find_by k x rows of Some r \<Rightarrow> if p r then [r] else [] | None \<Rightarrow> [])"
  using assms
proof (induction rows)
  case Nil
  then show ?case by simp
next
  case (Cons r rows)
  show ?case
  proof (cases "k r = x")
    case True
    with Cons.prems have "find_by k x rows = None"
      by (auto simp: find_by_None_iff)
    with True Cons show ?thesis by simp
  next
    case False
    with Cons show ?thesis by simp
  qed
qed

end
