(* ===== verification/Job_Status.thy ===== *)
theory Job_Status
  imports Djq_Prelude
begin

text \<open>
  The job lifecycle of \<^verbatim>\<open>crates/core/src/status.rs\<close>: the statuses, their text form, the predicates
  on them and the legal-transition table.
\<close>

datatype job_status =
    Queued | Scheduled | Processing | Completed | Failed | Retrying | Cancelled | DeadLettered

fun as_str :: "job_status \<Rightarrow> string" where
  "as_str Queued = ''queued''"
| "as_str Scheduled = ''scheduled''"
| "as_str Processing = ''processing''"
| "as_str Completed = ''completed''"
| "as_str Failed = ''failed''"
| "as_str Retrying = ''retrying''"
| "as_str Cancelled = ''cancelled''"
| "as_str DeadLettered = ''dead_lettered''"

definition is_terminal :: "job_status \<Rightarrow> bool" where
  "is_terminal s \<longleftrightarrow> s = Completed \<or> s = Cancelled \<or> s = DeadLettered"

definition is_leaseable :: "job_status \<Rightarrow> bool" where
  "is_leaseable s \<longleftrightarrow> s = Queued \<or> s = Scheduled \<or> s = Retrying"

definition is_cancellable :: "job_status \<Rightarrow> bool" where
  "is_cancellable s \<longleftrightarrow> s = Queued \<or> s = Scheduled \<or> s = Retrying \<or> s = Processing"

fun can_transition_to :: "job_status \<Rightarrow> job_status \<Rightarrow> bool" where
  "can_transition_to Queued Processing = True"
| "can_transition_to Queued Scheduled = True"
| "can_transition_to Queued Cancelled = True"
| "can_transition_to Scheduled Queued = True"
| "can_transition_to Scheduled Processing = True"
| "can_transition_to Scheduled Cancelled = True"
| "can_transition_to Processing Completed = True"
| "can_transition_to Processing Failed = True"
| "can_transition_to Processing Retrying = True"
| "can_transition_to Processing Queued = True"
| "can_transition_to Processing Cancelled = True"
| "can_transition_to Retrying Processing = True"
| "can_transition_to Retrying Queued = True"
| "can_transition_to Retrying Cancelled = True"
| "can_transition_to Retrying DeadLettered = True"
| "can_transition_to Failed DeadLettered = True"
| "can_transition_to Failed Retrying = True"
| "can_transition_to _ _ = False"

datatype parse_status_error = ParseStatusError string

definition from_str :: "string \<Rightarrow> (job_status, parse_status_error) outcome" where
  "from_str s =
    (if s = ''queued'' then Ok Queued
     else if s = ''scheduled'' then Ok Scheduled
     else if s = ''processing'' then Ok Processing
     else if s = ''completed'' then Ok Completed
     else if s = ''failed'' then Ok Failed
     else if s = ''retrying'' then Ok Retrying
     else if s = ''cancelled'' then Ok Cancelled
     else if s = ''dead_lettered'' then Ok DeadLettered
     else Err (ParseStatusError s))"

text \<open>\<open>impl Display for ParseStatusError\<close>.\<close>

fun display_parse_status_error :: "parse_status_error \<Rightarrow> string" where
  "display_parse_status_error (ParseStatusError s) = ''unknown job status: '' @ s"

section \<open>The statuses as a finite type\<close>

instantiation job_status :: enum
begin

definition enum_job_status :: "job_status list" where
  "enum_job_status =
    [Queued, Scheduled, Processing, Completed, Failed, Retrying, Cancelled, DeadLettered]"

definition enum_all_job_status :: "(job_status \<Rightarrow> bool) \<Rightarrow> bool" where
  "enum_all_job_status P \<longleftrightarrow> list_all P enum_class.enum"

definition enum_ex_job_status :: "(job_status \<Rightarrow> bool) \<Rightarrow> bool" where
  "enum_ex_job_status P \<longleftrightarrow> list_ex P enum_class.enum"

instance
proof
  have all: "s \<in> set (enum_class.enum :: job_status list)" for s :: job_status
    by (cases s) (simp_all add: enum_job_status_def)
  then show univ: "(UNIV :: job_status set) = set enum_class.enum"
    by auto
  show "distinct (enum_class.enum :: job_status list)"
    by (simp add: enum_job_status_def)
  show "enum_class.enum_all P = Ball UNIV P" for P :: "job_status \<Rightarrow> bool"
    by (simp add: enum_all_job_status_def univ list_all_iff)
  show "enum_class.enum_ex P = Bex UNIV P" for P :: "job_status \<Rightarrow> bool"
    by (simp add: enum_ex_job_status_def univ list_ex_iff)
qed

end

section \<open>Text form\<close>

lemma as_str_inj [simp]: "as_str s = as_str t \<longleftrightarrow> s = t"
  by (cases s; cases t) simp_all

lemma from_str_as_str [simp]: "from_str (as_str s) = Ok s"
  by (cases s) (simp_all add: from_str_def)

lemma from_str_total: "(\<exists>s. from_str x = Ok s) \<or> from_str x = Err (ParseStatusError x)"
  by (simp add: from_str_def)

lemma from_str_OkD: "from_str x = Ok s \<Longrightarrow> x = as_str s"
  by (auto simp: from_str_def split: if_splits)

text \<open>
  Parsing and printing a status are mutually inverse: \<open>from_str\<close> accepts exactly the eight texts
  that \<open>as_str\<close> prints, returns the status they were printed from, and reports every other text back
  in its error.
\<close>

theorem status_text_roundtrip:
  "(from_str x = Ok s \<longleftrightarrow> x = as_str s) \<and>
   (x \<notin> range as_str \<longleftrightarrow> from_str x = Err (ParseStatusError x))"
proof (intro conjI)
  show "from_str x = Ok s \<longleftrightarrow> x = as_str s"
    using from_str_OkD from_str_as_str by blast
  show "x \<notin> range as_str \<longleftrightarrow> from_str x = Err (ParseStatusError x)"
  proof
    assume "x \<notin> range as_str"
    then have "\<And>t. from_str x \<noteq> Ok t"
      using from_str_OkD by blast
    then show "from_str x = Err (ParseStatusError x)"
      using from_str_total [of x] by blast
  next
    assume "from_str x = Err (ParseStatusError x)"
    then show "x \<notin> range as_str"
      by auto
  qed
qed

section \<open>The transition table\<close>

lemma ex_status: "(\<exists>t :: job_status. P t) \<longleftrightarrow>
    P Queued \<or> P Scheduled \<or> P Processing \<or> P Completed \<or> P Failed \<or> P Retrying \<or>
    P Cancelled \<or> P DeadLettered"
  by (metis job_status.exhaust)

lemma no_successor_iff_terminal: "(\<exists>t. can_transition_to s t) \<longleftrightarrow> \<not> is_terminal s"
  by (cases s) (simp_all add: ex_status is_terminal_def)

text \<open>
  The predicates agree with the transition table: a status is terminal exactly when the table has
  no edge out of it, leaseable exactly when it has an edge to \<open>Processing\<close>, and cancellable exactly
  when it has an edge to \<open>Cancelled\<close>.  No status steps to itself.
\<close>

theorem status_predicates_match_table:
  "(is_terminal s \<longleftrightarrow> (\<nexists>t. can_transition_to s t)) \<and>
   (is_leaseable s \<longleftrightarrow> can_transition_to s Processing) \<and>
   (is_cancellable s \<longleftrightarrow> can_transition_to s Cancelled) \<and>
   \<not> can_transition_to s s"
  by (cases s)
    (simp_all add: no_successor_iff_terminal is_terminal_def is_leaseable_def is_cancellable_def)

text \<open>Paths along the table.\<close>

abbreviation legal_path :: "job_status \<Rightarrow> job_status \<Rightarrow> bool" where
  "legal_path \<equiv> can_transition_to\<^sup>*\<^sup>*"

lemma legal_stepI: "can_transition_to s t \<Longrightarrow> legal_path t u \<Longrightarrow> legal_path s u"
  by (rule converse_rtranclp_into_rtranclp)

lemma processing_to_completed: "legal_path Processing Completed"
  by (rule r_into_rtranclp) simp

lemma waiting_to_processing: "is_leaseable s \<Longrightarrow> legal_path s Processing"
  by (auto simp: is_leaseable_def intro: r_into_rtranclp)

lemma into_Completed: "can_transition_to s Completed \<longleftrightarrow> s = Processing"
  by (cases s) simp_all

lemma terminal_no_path: "legal_path s t \<Longrightarrow> is_terminal s \<Longrightarrow> t = s"
  by (induction rule: converse_rtranclp_induct) (use no_successor_iff_terminal in blast)+

lemma completed_via_processing:
  "legal_path s Completed \<Longrightarrow> s = Completed \<or> legal_path s Processing"
  by (erule rtranclp.cases) (auto simp: into_Completed)

text \<open>
  No job is stuck in the table: every status that is not terminal has a legal path to
  \<open>Completed\<close>.  A terminal status has a path to nothing but itself, and every path to \<open>Completed\<close>
  from another status goes through \<open>Processing\<close>.
\<close>

theorem status_machine_progress:
  "(\<not> is_terminal s \<longrightarrow> legal_path s Completed) \<and>
   (is_terminal s \<longrightarrow> (\<forall>t. legal_path s t \<longrightarrow> t = s)) \<and>
   (legal_path s Completed \<longrightarrow> s \<noteq> Completed \<longrightarrow> legal_path s Processing)"
proof (intro conjI impI allI)
  assume "\<not> is_terminal s"
  then consider "is_leaseable s" | "s = Processing" | "s = Failed"
    by (cases s) (auto simp: is_terminal_def is_leaseable_def)
  then show "legal_path s Completed"
  proof cases
    case 1
    then show ?thesis
      using processing_to_completed by (metis waiting_to_processing rtranclp_trans)
  next
    case 2
    then show ?thesis using processing_to_completed by simp
  next
    case 3
    have "legal_path Failed Retrying" by (rule r_into_rtranclp) simp
    moreover have "legal_path Retrying Processing"
      by (rule waiting_to_processing) (simp add: is_leaseable_def)
    ultimately show ?thesis
      using 3 processing_to_completed by (metis rtranclp_trans)
  qed
next
  fix t
  assume "is_terminal s" and "legal_path s t"
  then show "t = s" by (blast dest: terminal_no_path)
next
  assume "legal_path s Completed" and "s \<noteq> Completed"
  then show "legal_path s Processing" by (blast dest: completed_via_processing)
qed

theorem status_machine_progress_witness:
  "legal_path Failed Completed \<and> \<not> legal_path Cancelled Queued \<and> legal_path Failed Processing"
  using status_machine_progress [of Failed] status_machine_progress [of Cancelled]
  by (auto simp: is_terminal_def)

end
