(* ===== verification/Queue_Error.thy ===== *)
theory Queue_Error
  imports Job_Status
begin

text \<open>
  The domain errors of \<^verbatim>\<open>crates/core/src/error.rs\<close>: the variants of \<open>QueueError\<close>, their coarse category
  and their \<open>Display\<close> text.  The text of a \<open>serde_json\<close> error and the rendering of a \<open>Uuid\<close> come from
  other crates: the first is the argument of its constructor, the second a parameter.
\<close>

datatype queue_error =
    JobNotFound uuid
  | QueueNotFound string
  | DuplicateIdempotencyKey string uuid
  | IllegalTransition job_status job_status
  | InvalidOperation string job_status
  | Validation string
  | Storage string
  | Serialization string

datatype error_category = BadRequest | NotFound | Conflict | Internal

fun category :: "queue_error \<Rightarrow> error_category" where
  "category (JobNotFound _) = NotFound"
| "category (QueueNotFound _) = NotFound"
| "category (DuplicateIdempotencyKey _ _) = Conflict"
| "category (IllegalTransition _ _) = Conflict"
| "category (InvalidOperation _ _) = Conflict"
| "category (Validation _) = BadRequest"
| "category (Serialization _) = BadRequest"
| "category (Storage _) = Internal"

fun display_error :: "(uuid \<Rightarrow> string) \<Rightarrow> queue_error \<Rightarrow> string" where
  "display_error show_uuid (JobNotFound i) = ''job not found: '' @ show_uuid i"
| "display_error show_uuid (QueueNotFound q) = ''queue not found: '' @ q"
| "display_error show_uuid (DuplicateIdempotencyKey q i) =
     ''duplicate idempotency key for queue '' @ q"
| "display_error show_uuid (IllegalTransition f t) =
     ''illegal state transition from '' @ as_str f @ '' to '' @ as_str t"
| "display_error show_uuid (InvalidOperation op s) =
     ''operation '' @ [CHR 0x27] @ op @ [CHR 0x27] @ '' not permitted while job is '' @ as_str s"
| "display_error show_uuid (Validation m) = ''validation error: '' @ m"
| "display_error show_uuid (Storage m) = ''storage error: '' @ m"
| "display_error show_uuid (Serialization m) = ''serialization error: '' @ m"

lemma category_Internal_iff: "category e = Internal \<longleftrightarrow> (\<exists>m. e = Storage m)"
  by (cases e) simp_all

lemma category_NotFound_iff:
  "category e = NotFound \<longleftrightarrow> (\<exists>i. e = JobNotFound i) \<or> (\<exists>q. e = QueueNotFound q)"
  by (cases e) simp_all

end
