(* ===== verification/Rust_String.thy ===== *)
theory Rust_String
  imports Djq_Prelude "HOL-Library.Sublist"
begin

text \<open>
  Rust's \<open>str\<close> as its UTF-8 bytes: \<open>len\<close> counts bytes, \<open>trim\<close> removes Unicode white space at both ends.
\<close>

definition str_len :: "string \<Rightarrow> int" where
  "str_len s = int (length s)"

text \<open>The characters with the Unicode property White\_Space, as UTF-8.\<close>

definition white_space :: "string list" where
  "white_space =
    [[CHR 0x09], [CHR 0x0A], [CHR 0x0B], [CHR 0x0C], [CHR 0x0D], [CHR 0x20],
     [CHR 0xC2, CHR 0x85], [CHR 0xC2, CHR 0xA0], [CHR 0xE1, CHR 0x9A, CHR 0x80]] @
    map (\<lambda>c. [CHR 0xE2, CHR 0x80, c])
      [CHR 0x80, CHR 0x81, CHR 0x82, CHR 0x83, CHR 0x84, CHR 0x85, CHR 0x86, CHR 0x87,
       CHR 0x88, CHR 0x89, CHR 0x8A, CHR 0xA8, CHR 0xA9, CHR 0xAF] @
    [[CHR 0xE2, CHR 0x81, CHR 0x9F], [CHR 0xE3, CHR 0x80, CHR 0x80]]"

text \<open>Drop every leading occurrence of one of the byte sequences \<open>ws\<close>.\<close>

function drop_prefixes :: "string list \<Rightarrow> string \<Rightarrow> string" where
  "drop_prefixes ws s =
    (case find (\<lambda>w. w \<noteq> [] \<and> prefix w s) ws of
       None \<Rightarrow> s
     | Some w \<Rightarrow> drop_prefixes ws (drop (length w) s))"
  by pat_completeness auto
termination
proof (relation "measure (\<lambda>(ws, s). length s)")
  fix ws :: "string list" and s w :: string
  assume "find (\<lambda>w. w \<noteq> [] \<and> prefix w s) ws = Some w"
  then have "w \<noteq> []" "prefix w s"
    by (auto simp: find_Some_iff)
  then have "0 < length w" "0 < length s"
    using prefix_length_le [of w s] by auto
  then show "((ws, drop (length w) s), (ws, s)) \<in> measure (\<lambda>(ws, s). length s)"
    by simp
qed simp

declare drop_prefixes.simps [simp del]

definition trim_start :: "string \<Rightarrow> string" where
  "trim_start s = drop_prefixes white_space s"

definition trim_end :: "string \<Rightarrow> string" where
  "trim_end s = rev (drop_prefixes (map rev white_space) (rev s))"

definition trim :: "string \<Rightarrow> string" where
  "trim s = trim_end (trim_start s)"

lemma drop_prefixes_suffix: "suffix (drop_prefixes ws s) s"
proof (induction ws s rule: drop_prefixes.induct)
  case (1 ws s)
  show ?case
  proof (cases "find (\<lambda>w. w \<noteq> [] \<and> prefix w s) ws")
    case None
    then show ?thesis by (simp add: drop_prefixes.simps [of ws s])
  next
    case (Some w)
    with "1.IH" have "suffix (drop_prefixes ws (drop (length w) s)) (drop (length w) s)"
      by simp
    then have "suffix (drop_prefixes ws (drop (length w) s)) s"
      by (meson suffix_drop suffix_order.trans)
    with Some show ?thesis by (simp add: drop_prefixes.simps [of ws s])
  qed
qed

lemma length_drop_prefixes: "length (drop_prefixes ws s) \<le> length s"
  using drop_prefixes_suffix by (rule suffix_length_le)

lemma length_trim: "length (trim s) \<le> length s"
proof -
  have "length (trim s) \<le> length (trim_start s)"
    using length_drop_prefixes [of "map rev white_space" "rev (trim_start s)"]
    by (simp add: trim_def trim_end_def)
  also have "\<dots> \<le> length s"
    by (simp add: trim_start_def length_drop_prefixes)
  finally show ?thesis .
qed

lemma trim_Nil [simp]: "trim [] = []"
  using length_trim [of "[]"] by simp

lemma drop_prefixes_done:
  "w \<in> set ws \<Longrightarrow> w \<noteq> [] \<Longrightarrow> \<not> prefix w (drop_prefixes ws s)"
proof (induction ws s rule: drop_prefixes.induct)
  case (1 ws s)
  show ?case
  proof (cases "find (\<lambda>w. w \<noteq> [] \<and> prefix w s) ws")
    case None
    then have "drop_prefixes ws s = s" by (simp add: drop_prefixes.simps [of ws s])
    moreover from None "1.prems" have "\<not> prefix w s" by (auto simp: find_None_iff)
    ultimately show ?thesis by simp
  next
    case (Some v)
    with "1" show ?thesis by (simp add: drop_prefixes.simps [of ws s])
  qed
qed

text \<open>No white space is left at the end of a trimmed text.\<close>

lemma trim_end_done: "w \<in> set white_space \<Longrightarrow> w \<noteq> [] \<Longrightarrow> \<not> suffix w (trim s)"
  using drop_prefixes_done [of "rev w" "map rev white_space" "rev (trim_start s)"]
  by (simp add: trim_def trim_end_def suffix_to_prefix)

text \<open>A byte that is part of no white space character survives.\<close>

lemma drop_prefixes_keeps:
  assumes "c \<in> set s" and "\<And>w. w \<in> set ws \<Longrightarrow> c \<notin> set w"
  shows "c \<in> set (drop_prefixes ws s)"
  using assms
proof (induction ws s rule: drop_prefixes.induct)
  case (1 ws s)
  show ?case
  proof (cases "find (\<lambda>w. w \<noteq> [] \<and> prefix w s) ws")
    case None
    with "1.prems" show ?thesis by (simp add: drop_prefixes.simps [of ws s])
  next
    case (Some w)
    then have w: "w \<in> set ws" "prefix w s"
      by (auto simp: find_Some_iff)
    then obtain t where "s = w @ t" by (auto simp: prefix_def)
    with w "1.prems" have "c \<in> set (drop (length w) s)" by auto
    with "1.IH" [OF Some] "1.prems"(2) have "c \<in> set (drop_prefixes ws (drop (length w) s))"
      by blast
    with Some show ?thesis by (simp add: drop_prefixes.simps [of ws s])
  qed
qed

definition white_bytes :: "char list" where
  "white_bytes = concat white_space"

lemma trim_keeps:
  assumes "c \<in> set s" and "c \<notin> set white_bytes"
  shows "c \<in> set (trim s)"
proof -
  have nw: "c \<notin> set w" if "w \<in> set white_space" for w
    using assms(2) that by (auto simp: white_bytes_def)
  then have "c \<in> set (trim_start s)"
    unfolding trim_start_def by (rule drop_prefixes_keeps [OF assms(1)])
  then have "c \<in> set (rev (trim_start s))" by simp
  then have "c \<in> set (drop_prefixes (map rev white_space) (rev (trim_start s)))"
    by (rule drop_prefixes_keeps) (use nw in auto)
  then show ?thesis by (simp add: trim_def trim_end_def)
qed

lemma trim_nonempty: "\<exists>c \<in> set s. c \<notin> set white_bytes \<Longrightarrow> trim s \<noteq> []"
  using trim_keeps by fastforce

end
