(* ===== verification/Job_Model.thy ===== *)
theory Job_Model
  imports Queue_Error Rust_String
begin

text \<open>
  The domain types of \<^verbatim>\<open>crates/core/src/model.rs\<close> and the validation of a submission.  A JSON value is
  a type parameter \<open>'j\<close>: the queue stores and returns payloads, results and metadata without looking
  into them.  Every field carries a short prefix of its struct's name, since several structs share
  field names.
\<close>

section \<open>Structs\<close>

record queue =
  q_name :: string
  q_paused :: bool
  q_max_concurrency :: "int option"
  q_created_at :: time

record 'j job =
  j_id :: uuid
  j_queue :: string
  j_job_type :: string
  j_payload :: 'j
  j_status :: job_status
  j_priority :: int
  j_idempotency_key :: "string option"
  j_max_attempts :: int
  j_attempts :: int
  j_run_at :: time
  j_timeout_secs :: int
  j_backoff_base_secs :: int
  j_backoff_max_secs :: int
  j_dead_letter :: bool
  j_locked_by :: "uuid option"
  j_locked_at :: "time option"
  j_lease_expires_at :: "time option"
  j_last_error :: "string option"
  j_result :: "'j option"
  j_metadata :: 'j
  j_correlation_id :: "string option"
  j_created_at :: time
  j_updated_at :: time
  j_completed_at :: "time option"

record 'j new_job =
  n_queue :: string
  n_job_type :: string
  n_payload :: 'j
  n_priority :: int
  n_idempotency_key :: "string option"
  n_max_attempts :: "int option"
  n_delay_secs :: "int option"
  n_run_at :: "time option"
  n_timeout_secs :: "int option"
  n_backoff_base_secs :: "int option"
  n_backoff_max_secs :: "int option"
  n_dead_letter :: "bool option"
  n_metadata :: 'j
  n_correlation_id :: "string option"

record 'j normalized_job =
  z_queue :: string
  z_job_type :: string
  z_payload :: 'j
  z_priority :: int
  z_idempotency_key :: "string option"
  z_max_attempts :: int
  z_run_at :: time
  z_status :: job_status
  z_timeout_secs :: int
  z_backoff_base_secs :: int
  z_backoff_max_secs :: int
  z_dead_letter :: bool
  z_metadata :: 'j
  z_correlation_id :: "string option"

record job_attempt =
  a_id :: int
  a_job_id :: uuid
  a_attempt :: int
  a_worker_id :: "uuid option"
  a_started_at :: time
  a_finished_at :: "time option"
  a_status :: string
  a_error :: "string option"

record worker =
  w_id :: uuid
  w_hostname :: string
  w_queues :: "string list"
  w_concurrency :: int
  w_registered_at :: time
  w_last_heartbeat :: time

record 'j dead_letter_job =
  dl_id :: uuid
  dl_queue :: string
  dl_job_type :: string
  dl_payload :: 'j
  dl_attempts :: int
  dl_last_error :: "string option"
  dl_dead_lettered_at :: time
  dl_original_created_at :: "time option"

record queue_stats =
  st_queue :: string
  st_paused :: bool
  st_queued :: int
  st_scheduled :: int
  st_processing :: int
  st_completed :: int
  st_failed :: int
  st_retrying :: int
  st_cancelled :: int
  st_dead_lettered :: int

record job_filter =
  jf_queue :: "string option"
  jf_status :: "job_status option"
  jf_job_type :: "string option"
  jf_limit :: "int option"
  jf_offset :: "int option"

datatype 'j execution_outcome = Success "'j option" | Failure string | Timeout

text \<open>\<open>Submission\<close> of \<^verbatim>\<open>crates/core/src/store.rs\<close>.\<close>

record 'j submission =
  sub_job :: "'j job"
  sub_created :: bool

section \<open>Validation and defaults\<close>

fun unwrap_or :: "'a option \<Rightarrow> 'a \<Rightarrow> 'a" where
  "unwrap_or (Some a) b = a"
| "unwrap_or None b = b"

text \<open>
  \<open>now + chrono::Duration::seconds(d)\<close> is \<^verbatim>\<open>chrono\<close>'s: the parameter \<open>add_secs now d\<close>, where \<open>None\<close> is its
  documented panic on a sum outside the representable range.
\<close>

type_synonym chrono_add = "time \<Rightarrow> int \<Rightarrow> time option"

definition resolve_run_at ::
  "chrono_add \<Rightarrow> time option \<Rightarrow> int option \<Rightarrow> time \<Rightarrow> (time, queue_error) outcome" where
  "resolve_run_at add_secs run_at delay_secs now =
    (case (run_at, delay_secs) of
       (Some t, _) \<Rightarrow> Ok t
     | (None, Some d) \<Rightarrow>
         if d > 0 then (case add_secs now d of Some t \<Rightarrow> Ok t | None \<Rightarrow> Panic) else Ok now
     | (None, None) \<Rightarrow> Ok now)"

definition normalized ::
  "chrono_add \<Rightarrow> 'j new_job \<Rightarrow> time \<Rightarrow> ('j normalized_job, queue_error) outcome" where
  "normalized add_secs n now =
    (if trim (n_queue n) = [] then Err (Validation ''queue must not be empty'')
     else if trim (n_job_type n) = [] then Err (Validation ''job_type must not be empty'')
     else if str_len (n_queue n) > 128 then Err (Validation ''queue name too long (max 128)'')
     else if (case n_idempotency_key n of Some key \<Rightarrow> str_len key > 255 | None \<Rightarrow> False)
       then Err (Validation ''idempotency_key too long (max 255)'')
     else
       let max_attempts = unwrap_or (n_max_attempts n) 5
       in if \<not> (1 \<le> max_attempts \<and> max_attempts \<le> 100)
          then Err (Validation ''max_attempts must be between 1 and 100'')
          else
            let timeout_secs = unwrap_or (n_timeout_secs n) 300
            in if \<not> (1 \<le> timeout_secs \<and> timeout_secs \<le> 86400)
               then Err (Validation ''timeout_secs must be between 1 and 86400'')
               else
                 let backoff_base_secs = max (unwrap_or (n_backoff_base_secs n) 2) 1;
                     backoff_max_secs = max (unwrap_or (n_backoff_max_secs n) 300) backoff_base_secs
                 in and_then (resolve_run_at add_secs (n_run_at n) (n_delay_secs n) now) (\<lambda>run_at.
                    let status = (if run_at > now then Scheduled else Queued)
                    in Ok \<lparr>z_queue = n_queue n,
                           z_job_type = n_job_type n,
                           z_payload = n_payload n,
                           z_priority = n_priority n,
                           z_idempotency_key = n_idempotency_key n,
                           z_max_attempts = max_attempts,
                           z_run_at = run_at,
                           z_status = status,
                           z_timeout_secs = timeout_secs,
                           z_backoff_base_secs = backoff_base_secs,
                           z_backoff_max_secs = backoff_max_secs,
                           z_dead_letter = unwrap_or (n_dead_letter n) True,
                           z_metadata = n_metadata n,
                           z_correlation_id = n_correlation_id n\<rparr>))"

text \<open>\<open>JobFilter::bounded\<close>.\<close>

definition bounded :: "job_filter \<Rightarrow> int \<times> int" where
  "bounded f =
    (max 1 (min 200 (unwrap_or (jf_limit f) 50)), max (unwrap_or (jf_offset f) 0) 0)"

section \<open>What validation accepts and what it returns\<close>

text \<open>The documented limits of a submission request.\<close>

definition valid_request :: "'j new_job \<Rightarrow> bool" where
  "valid_request n \<longleftrightarrow>
    trim (n_queue n) \<noteq> [] \<and> trim (n_job_type n) \<noteq> [] \<and> str_len (n_queue n) \<le> 128 \<and>
    (case n_idempotency_key n of Some key \<Rightarrow> str_len key \<le> 255 | None \<Rightarrow> True) \<and>
    unwrap_or (n_max_attempts n) 5 \<in> {1..100} \<and>
    unwrap_or (n_timeout_secs n) 300 \<in> {1..86400}"

text \<open>What the store relies on in a normalized job.\<close>

definition normalized_ok :: "'j normalized_job \<Rightarrow> bool" where
  "normalized_ok z \<longleftrightarrow>
    z_status z \<in> {Queued, Scheduled} \<and>
    1 \<le> z_max_attempts z \<and> z_max_attempts z \<le> 100 \<and>
    1 \<le> z_timeout_secs z \<and> z_timeout_secs z \<le> 86400 \<and>
    1 \<le> z_backoff_base_secs z \<and> z_backoff_base_secs z \<le> z_backoff_max_secs z \<and>
    is_i32 (z_backoff_max_secs z)"

text \<open>The \<open>i32\<close> fields of a request are in the range of their type.\<close>

definition new_job_typed :: "'j new_job \<Rightarrow> bool" where
  "new_job_typed n \<longleftrightarrow>
    is_i32 (n_priority n) \<and> is_i32 (unwrap_or (n_max_attempts n) 0) \<and>
    is_i32 (unwrap_or (n_timeout_secs n) 0) \<and> is_i32 (unwrap_or (n_backoff_base_secs n) 0) \<and>
    is_i32 (unwrap_or (n_backoff_max_secs n) 0)"

text \<open>The scheduling request does not run out of \<^verbatim>\<open>chrono\<close>'s range.\<close>

definition schedulable :: "chrono_add \<Rightarrow> 'j new_job \<Rightarrow> time \<Rightarrow> bool" where
  "schedulable add_secs n now \<longleftrightarrow>
    n_run_at n \<noteq> None \<or>
    (case n_delay_secs n of None \<Rightarrow> True | Some d \<Rightarrow> d \<le> 0 \<or> add_secs now d \<noteq> None)"

text \<open>When a request asks to run.\<close>

definition requested_run_at :: "'j new_job \<Rightarrow> time \<Rightarrow> time" where
  "requested_run_at n now =
    (case n_run_at n of Some t \<Rightarrow> t
     | None \<Rightarrow> now + interval_secs (max 0 (unwrap_or (n_delay_secs n) 0)))"

text \<open>The documented behaviour of \<^verbatim>\<open>chrono\<close>'s addition: where it does not panic it is exact.\<close>

definition chrono_exact :: "chrono_add \<Rightarrow> bool" where
  "chrono_exact add_secs \<longleftrightarrow> (\<forall>t d t'. add_secs t d = Some t' \<longrightarrow> t' = t + interval_secs d)"

lemma chrono_exactD: "chrono_exact add \<Longrightarrow> add t d = Some t' \<Longrightarrow> t' = t + interval_secs d"
  by (simp add: chrono_exact_def)

lemma normalized_valid:
  assumes "valid_request n"
  shows "normalized add n now =
    and_then (resolve_run_at add (n_run_at n) (n_delay_secs n) now) (\<lambda>run_at.
      Ok \<lparr>z_queue = n_queue n,
          z_job_type = n_job_type n,
          z_payload = n_payload n,
          z_priority = n_priority n,
          z_idempotency_key = n_idempotency_key n,
          z_max_attempts = unwrap_or (n_max_attempts n) 5,
          z_run_at = run_at,
          z_status = (if run_at > now then Scheduled else Queued),
          z_timeout_secs = unwrap_or (n_timeout_secs n) 300,
          z_backoff_base_secs = max (unwrap_or (n_backoff_base_secs n) 2) 1,
          z_backoff_max_secs = max (unwrap_or (n_backoff_max_secs n) 300)
            (max (unwrap_or (n_backoff_base_secs n) 2) 1),
          z_dead_letter = unwrap_or (n_dead_letter n) True,
          z_metadata = n_metadata n,
          z_correlation_id = n_correlation_id n\<rparr>)"
  using assms
  by (auto simp: valid_request_def normalized_def Let_def split: option.splits)

lemma normalized_invalid:
  assumes "\<not> valid_request n"
  shows "\<exists>m. normalized add n now = Err (Validation m)"
  using assms
  by (auto simp: valid_request_def normalized_def Let_def split: option.splits)

lemma normalized_OkD:
  assumes "normalized add n now = Ok z"
  shows "valid_request n"
  using assms normalized_invalid [of n add now] by auto

lemma max_i32: "is_i32 a \<Longrightarrow> is_i32 b \<Longrightarrow> is_i32 (max a b)"
  by (simp add: max_def)

lemma unwrap_or_i32: "is_i32 (unwrap_or x 0) \<Longrightarrow> is_i32 d \<Longrightarrow> is_i32 (unwrap_or x d)"
  by (cases x) simp_all

lemma backoff_max_i32:
  assumes "new_job_typed n"
  shows "is_i32 (max (unwrap_or (n_backoff_max_secs n) 300)
    (max (unwrap_or (n_backoff_base_secs n) 2) 1))"
proof -
  have "is_i32 (unwrap_or (n_backoff_max_secs n) 300)"
    by (rule unwrap_or_i32) (use assms in \<open>simp_all add: new_job_typed_def is_i32_def\<close>)
  moreover have "is_i32 (unwrap_or (n_backoff_base_secs n) 2)"
    by (rule unwrap_or_i32) (use assms in \<open>simp_all add: new_job_typed_def is_i32_def\<close>)
  moreover have "is_i32 1" by (simp add: is_i32_def)
  ultimately show ?thesis by (simp only: max_i32)
qed

lemma normalized_Ok_wf:
  assumes "normalized add n now = Ok z" and "new_job_typed n"
  shows "normalized_ok z"
proof -
  note valid = normalized_OkD [OF assms(1)]
  from assms(1) obtain t where "z_status z = (if t > now then Scheduled else Queued)"
    and eqs: "z_max_attempts z = unwrap_or (n_max_attempts n) 5"
      "z_timeout_secs z = unwrap_or (n_timeout_secs n) 300"
      "z_backoff_base_secs z = max (unwrap_or (n_backoff_base_secs n) 2) 1"
      "z_backoff_max_secs z = max (unwrap_or (n_backoff_max_secs n) 300)
        (max (unwrap_or (n_backoff_base_secs n) 2) 1)"
    by (auto simp: normalized_valid [OF valid])
  then have "z_status z \<in> {Queued, Scheduled}" by simp
  with valid backoff_max_i32 [OF assms(2)] show ?thesis
    by (simp add: normalized_ok_def eqs valid_request_def)
qed

lemma resolve_run_at_Ok:
  assumes "chrono_exact add"
  shows "resolve_run_at add (n_run_at n) (n_delay_secs n) now =
    (if schedulable add n now then Ok (requested_run_at n now) else Panic)"
  using assms
  by (auto simp: resolve_run_at_def schedulable_def requested_run_at_def max_def
      split: option.splits dest: chrono_exactD)

text \<open>What validation returns for an acceptable request.\<close>

definition normal_form_of :: "'j new_job \<Rightarrow> time \<Rightarrow> 'j normalized_job \<Rightarrow> bool" where
  "normal_form_of n now z \<longleftrightarrow>
    z_queue z = n_queue n \<and> z_job_type z = n_job_type n \<and> z_payload z = n_payload n \<and>
    z_priority z = n_priority n \<and> z_idempotency_key z = n_idempotency_key n \<and>
    z_metadata z = n_metadata n \<and> z_correlation_id z = n_correlation_id n \<and>
    z_run_at z = requested_run_at n now \<and>
    z_status z = (if now < requested_run_at n now then Scheduled else Queued)"

lemma normalized_accepts:
  assumes "chrono_exact add" and "new_job_typed n" and "valid_request n" and "schedulable add n now"
  obtains z where "normalized add n now = Ok z" and "normalized_ok z" and "normal_form_of n now z"
proof -
  obtain z where z: "normalized add n now = Ok z" and "normal_form_of n now z"
    using assms(3,4) by (simp add: normalized_valid resolve_run_at_Ok [OF assms(1)] normal_form_of_def)
  with normalized_Ok_wf [OF z assms(2)] show ?thesis using that by blast
qed


text \<open>A concrete request, a minute from now, and an addition with \<^verbatim>\<open>chrono\<close>'s bound on seconds.\<close>

definition sample_add :: chrono_add where
  "sample_add t d = (if \<bar>d\<bar> \<le> 9223372036854775 then Some (t + interval_secs d) else None)"

definition sample_request :: "unit new_job" where
  "sample_request =
    \<lparr>n_queue = ''emails'', n_job_type = ''send'', n_payload = (), n_priority = 0,
     n_idempotency_key = Some ''order-42'', n_max_attempts = None, n_delay_secs = Some 60,
     n_run_at = None, n_timeout_secs = None, n_backoff_base_secs = None,
     n_backoff_max_secs = None, n_dead_letter = None, n_metadata = (), n_correlation_id = None\<rparr>"

lemma sample_add_exact: "chrono_exact sample_add"
  by (simp add: chrono_exact_def sample_add_def)

lemma sample_request_typed: "new_job_typed sample_request"
  by (simp add: new_job_typed_def sample_request_def is_i32_def)

lemma sample_request_valid: "valid_request sample_request"
proof -
  have "trim ''emails'' \<noteq> []" "trim ''send'' \<noteq> []"
    by (rule trim_nonempty, simp add: white_bytes_def white_space_def)+
  then show ?thesis
    by (simp add: valid_request_def sample_request_def str_len_def)
qed


text \<open>
  A request panics the task exactly when it passes every check, gives no start time and asks for a
  positive delay that leaves \<^verbatim>\<open>chrono\<close>'s range: \<open>delay_secs\<close> has no upper limit.
\<close>

theorem normalized_panics_iff:
  "normalized add n now = Panic \<longleftrightarrow>
    valid_request n \<and> n_run_at n = None \<and>
    (\<exists>d. n_delay_secs n = Some d \<and> 0 < d \<and> add now d = None)"
proof (cases "valid_request n")
  case True
  then show ?thesis
    by (auto simp: normalized_valid resolve_run_at_def split: option.splits)
next
  case False
  then show ?thesis
    using normalized_invalid [of n add now] by auto
qed

end
