(* ===== verification/Store_Row.thy ===== *)
theory Store_Row
  imports Job_Model Complex_Main
begin

text \<open>
  The rows of the five tables (\<^verbatim>\<open>crates/storage/src/row.rs\<close> and \<^verbatim>\<open>migrations/0001_init.sql\<close>) and the
  database as a record of tables.  \<open>JobRow\<close> keeps the status as text and \<open>into_job\<close> parses it; the other
  row structs have the fields of the domain structs, which their \<open>From\<close> conversions copy one by one.
\<close>

record 'j job_row =
  r_id :: uuid
  r_queue :: string
  r_job_type :: string
  r_payload :: 'j
  r_status :: string
  r_priority :: int
  r_idempotency_key :: "string option"
  r_max_attempts :: int
  r_attempts :: int
  r_run_at :: time
  r_timeout_secs :: int
  r_backoff_base_secs :: int
  r_backoff_max_secs :: int
  r_dead_letter :: bool
  r_locked_by :: "uuid option"
  r_locked_at :: "time option"
  r_lease_expires_at :: "time option"
  r_last_error :: "string option"
  r_result :: "'j option"
  r_metadata :: 'j
  r_correlation_id :: "string option"
  r_created_at :: time
  r_updated_at :: time
  r_completed_at :: "time option"

type_synonym queue_row = queue
type_synonym attempt_row = job_attempt
type_synonym worker_row = worker
type_synonym 'j dead_letter_row = "'j dead_letter_job"

definition into_job :: "'j job_row \<Rightarrow> ('j job, queue_error) outcome" where
  "into_job r =
    (case from_str (r_status r) of
       Err e \<Rightarrow> Err (Storage (''invalid status in db: '' @ display_parse_status_error e))
     | Panic \<Rightarrow> Panic
     | Ok status \<Rightarrow>
         Ok \<lparr>j_id = r_id r,
             j_queue = r_queue r,
             j_job_type = r_job_type r,
             j_payload = r_payload r,
             j_status = status,
             j_priority = r_priority r,
             j_idempotency_key = r_idempotency_key r,
             j_max_attempts = r_max_attempts r,
             j_attempts = r_attempts r,
             j_run_at = r_run_at r,
             j_timeout_secs = r_timeout_secs r,
             j_backoff_base_secs = r_backoff_base_secs r,
             j_backoff_max_secs = r_backoff_max_secs r,
             j_dead_letter = r_dead_letter r,
             j_locked_by = r_locked_by r,
             j_locked_at = r_locked_at r,
             j_lease_expires_at = r_lease_expires_at r,
             j_last_error = r_last_error r,
             j_result = r_result r,
             j_metadata = r_metadata r,
             j_correlation_id = r_correlation_id r,
             j_created_at = r_created_at r,
             j_updated_at = r_updated_at r,
             j_completed_at = r_completed_at r\<rparr>)"

section \<open>The database\<close>

text \<open>\<open>attempt_seq\<close> is the next value of the \<open>BIGSERIAL\<close> behind \<open>job_attempts.id\<close>.\<close>

record 'j db =
  queues :: "queue_row list"
  jobs :: "'j job_row list"
  job_attempts :: "attempt_row list"
  workers :: "worker_row list"
  dead_letter_jobs :: "'j dead_letter_row list"
  attempt_seq :: int

definition empty_db :: "'j db" where
  "empty_db =
    \<lparr>queues = [], jobs = [], job_attempts = [], workers = [], dead_letter_jobs = [],
     attempt_seq = 1\<rparr>"

text \<open>The errors of a statement that reaches the server, and how the store reports them.\<close>

datatype sqlx_error =
    RowNotFound | UniqueViolation | ForeignKeyViolation | CheckViolation | NegativeLimit

text \<open>
  What a call sees of the server: the clock \<open>now()\<close>, the value of \<open>gen_random_uuid()\<close>, the rows that
  concurrent transactions have locked, the texts of database errors, and the collation, given by the
  position of each text (every linear order on texts embeds into the rationals).
\<close>

record pg_env =
  pe_now :: time
  pe_uuid :: uuid
  pe_locked :: "uuid list"
  pe_emsg :: "sqlx_error \<Rightarrow> string"
  pe_collate :: "string \<Rightarrow> rat"

definition storage_err :: "pg_env \<Rightarrow> sqlx_error \<Rightarrow> queue_error" where
  "storage_err env e = Storage (pe_emsg env e)"

definition is_unique_violation :: "sqlx_error \<Rightarrow> bool" where
  "is_unique_violation e \<longleftrightarrow> e = UniqueViolation"

section \<open>Statuses of rows\<close>

definition status_in :: "'j job_row \<Rightarrow> job_status list \<Rightarrow> bool" where
  "status_in r ss \<longleftrightarrow> r_status r \<in> set (map as_str ss)"

abbreviation has_status :: "'j job_row \<Rightarrow> job_status \<Rightarrow> bool" where
  "has_status r s \<equiv> r_status r = as_str s"

lemma status_in_Nil [simp]: "status_in r [] \<longleftrightarrow> False"
  by (simp add: status_in_def)

lemma status_in_Cons [simp]: "status_in r (s # ss) \<longleftrightarrow> has_status r s \<or> status_in r ss"
  by (auto simp: status_in_def)

lemma as_str_all: "(\<exists>s. x = as_str s) \<longleftrightarrow> x \<in> set (map as_str enum_class.enum)"
  by (auto simp: enum_UNIV)

lemmas as_str_literals = as_str.simps

declare as_str.simps [simp del]

lemma into_job_Ok_iff:
  "into_job r = Ok j \<Longrightarrow> has_status r (j_status j) \<and> j_id j = r_id r"
  by (auto simp: into_job_def split: outcome.splits dest: from_str_OkD)

lemma into_job_no_panic [simp]: "into_job r \<noteq> Panic"
  using from_str_total [of "r_status r"] by (auto simp: into_job_def split: outcome.splits)

text \<open>The job a row with a known status denotes.\<close>

definition job_of :: "'j job_row \<Rightarrow> 'j job" where
  "job_of r = (case into_job r of Ok j \<Rightarrow> j | _ \<Rightarrow> undefined)"

lemma into_job_has_status:
  "has_status r s \<Longrightarrow> into_job r = Ok (job_of r) \<and> j_status (job_of r) = s"
  by (simp add: job_of_def into_job_def)

text \<open>The fields of the job are the columns of the row.\<close>

lemma job_of_fields:
  assumes "has_status r s"
  shows "j_id (job_of r) = r_id r" "j_queue (job_of r) = r_queue r"
    "j_job_type (job_of r) = r_job_type r" "j_payload (job_of r) = r_payload r"
    "j_status (job_of r) = s" "j_priority (job_of r) = r_priority r"
    "j_idempotency_key (job_of r) = r_idempotency_key r"
    "j_max_attempts (job_of r) = r_max_attempts r" "j_attempts (job_of r) = r_attempts r"
    "j_run_at (job_of r) = r_run_at r" "j_timeout_secs (job_of r) = r_timeout_secs r"
    "j_backoff_base_secs (job_of r) = r_backoff_base_secs r"
    "j_backoff_max_secs (job_of r) = r_backoff_max_secs r"
    "j_dead_letter (job_of r) = r_dead_letter r" "j_locked_by (job_of r) = r_locked_by r"
    "j_locked_at (job_of r) = r_locked_at r"
    "j_lease_expires_at (job_of r) = r_lease_expires_at r"
    "j_last_error (job_of r) = r_last_error r" "j_result (job_of r) = r_result r"
    "j_metadata (job_of r) = r_metadata r" "j_correlation_id (job_of r) = r_correlation_id r"
    "j_created_at (job_of r) = r_created_at r" "j_updated_at (job_of r) = r_updated_at r"
    "j_completed_at (job_of r) = r_completed_at r"
  using assms by (simp_all add: job_of_def into_job_def)

end
