(* ===== verification/Float64.thy ===== *)
theory Float64
  imports Djq_Prelude "HOL-Library.Log_Nat" Complex_Main
begin

text \<open>
  Rust's \<open>f64\<close> and \<open>std::time::Duration\<close> as the backoff arithmetic uses them.  A finite \<open>f64\<close> is the
  rational number it denotes and every operation rounds its exact result to 53 significant bits,
  ties to even.  The exponent range is not bounded, so a value that overflows to infinity in Rust is
  a large number here; NaN and the infinities themselves are not represented.
\<close>

section \<open>Rounding\<close>

definition round_half_even :: "rat \<Rightarrow> int" where
  "round_half_even x =
    (let f = \<lfloor>x\<rfloor>; d = x - of_int f
     in if d < 1 / 2 then f else if d > 1 / 2 then f + 1 else if even f then f else f + 1)"

text \<open>The binary exponent: the largest \<open>e\<close> with \<open>2\<^sup>e \<le> x\<close>, for a positive \<open>x\<close>.\<close>

definition f64_exp :: "rat \<Rightarrow> int" where
  "f64_exp x =
    (let (a, b) = quotient_of x; e = bitlen a - bitlen b
     in if 2 powi e \<le> x then e else e - 1)"

definition f64_round :: "rat \<Rightarrow> rat" where
  "f64_round x =
    (if x = 0 then 0
     else let q = 2 powi (f64_exp \<bar>x\<bar> - 52) in of_int (round_half_even (x / q)) * q)"

definition f64_add :: "rat \<Rightarrow> rat \<Rightarrow> rat" where
  "f64_add x y = f64_round (x + y)"

definition f64_sub :: "rat \<Rightarrow> rat \<Rightarrow> rat" where
  "f64_sub x y = f64_round (x - y)"

definition f64_mul :: "rat \<Rightarrow> rat \<Rightarrow> rat" where
  "f64_mul x y = f64_round (x * y)"

definition f64_div :: "rat \<Rightarrow> rat \<Rightarrow> rat" where
  "f64_div x y = f64_round (x / y)"

text \<open>\<open>f64::powi\<close> for an exponent that is not negative: repeated squaring.\<close>

function powi_loop :: "rat \<Rightarrow> rat \<Rightarrow> nat \<Rightarrow> rat" where
  "powi_loop r a b =
    (let r' = (if odd b then f64_mul r a else r)
     in if b div 2 = 0 then r' else powi_loop r' (f64_mul a a) (b div 2))"
  by pat_completeness auto
termination
  by (relation "measure (\<lambda>(r, a, b). b)") auto

declare powi_loop.simps [simp del]

definition f64_powi :: "rat \<Rightarrow> nat \<Rightarrow> rat" where
  "f64_powi a n = powi_loop 1 a n"

section \<open>Rounding is exact on dyadic numbers with 53 significant bits\<close>

lemma round_half_even_of_int [simp]: "round_half_even (of_int n) = n"
  by (simp add: round_half_even_def)

lemma round_half_even_mono:
  assumes "x \<le> y"
  shows "round_half_even x \<le> round_half_even y"
proof (cases "\<lfloor>x\<rfloor> = \<lfloor>y\<rfloor>")
  case True
  with assms show ?thesis
    by (auto simp: round_half_even_def Let_def)
next
  case False
  with assms have "\<lfloor>x\<rfloor> < \<lfloor>y\<rfloor>"
    by (meson floor_mono order_less_le)
  moreover have "round_half_even x \<le> \<lfloor>x\<rfloor> + 1" "\<lfloor>y\<rfloor> \<le> round_half_even y"
    by (auto simp: round_half_even_def Let_def)
  ultimately show ?thesis by simp
qed

lemma two_powi_le_bitlen:
  assumes "0 < a"
  shows "(2::rat) powi (bitlen a - 1) \<le> of_int a"
proof -
  have n: "0 \<le> bitlen a - 1"
    using assms bitlen_eq_zero_iff [of a] bitlen_nonneg [of a] by linarith
  have "2 ^ nat (bitlen a - 1) \<le> a"
    using assms bitlen_bounds [of a] by simp
  then have "(of_int (2 ^ nat (bitlen a - 1)) :: rat) \<le> of_int a"
    by (simp only: of_int_le_iff)
  with n show ?thesis by (simp add: power_int_def)
qed

lemma bitlen_less_two_powi:
  assumes "0 < b"
  shows "(of_int b :: rat) < 2 powi bitlen b"
proof -
  have "b < 2 ^ nat (bitlen b)"
    using assms bitlen_bounds [of b] by simp
  then have "(of_int b :: rat) < of_int (2 ^ nat (bitlen b))"
    by (simp only: of_int_less_iff)
  then show ?thesis by (simp add: power_int_def bitlen_nonneg)
qed

lemma f64_exp_le:
  assumes "0 < x"
  shows "2 powi (f64_exp x) \<le> x"
proof -
  obtain a b where ab: "quotient_of x = (a, b)" by fastforce
  then have b: "0 < b" and x: "x = of_int a / of_int b"
    by (simp_all add: quotient_of_denom_pos quotient_of_div)
  with assms have a: "0 < a"
    by (simp add: zero_less_divide_iff)
  have "2 powi (bitlen a - bitlen b - 1) = (2::rat) powi (bitlen a - 1) / 2 powi bitlen b"
    by (simp flip: power_int_diff add: algebra_simps)
  also have "\<dots> \<le> of_int a / of_int b"
    using two_powi_le_bitlen [OF a] bitlen_less_two_powi [OF b] b a
    by (intro frac_le) auto
  finally have "2 powi (bitlen a - bitlen b - 1) \<le> x"
    using x by simp
  then show ?thesis
    by (simp add: f64_exp_def ab Let_def)
qed

lemma powi_less_cancel: "(2::rat) powi m < 2 powi n \<Longrightarrow> m < n"
  by (metis linorder_not_less one_le_numeral power_int_increasing)

lemma f64_round_dyadic:
  fixes m k :: int
  assumes "\<bar>m\<bar> < 2 ^ 53"
  shows "f64_round (of_int m * 2 powi k) = of_int m * 2 powi k"
proof (cases "m = 0")
  case True
  then show ?thesis by (simp add: f64_round_def)
next
  case False
  define x :: rat where "x = of_int m * 2 powi k"
  define e where "e = f64_exp \<bar>x\<bar>"
  have x0: "x \<noteq> 0" using False by (simp add: x_def)
  have absx: "\<bar>x\<bar> = of_int \<bar>m\<bar> * 2 powi k"
    by (simp add: x_def abs_mult)
  have "2 powi e \<le> \<bar>x\<bar>" using x0 by (simp add: e_def f64_exp_le)
  also have "\<bar>x\<bar> < 2 powi 53 * 2 powi k"
  proof -
    have "(of_int \<bar>m\<bar> :: rat) < of_int (2 ^ 53)"
      using assms by (simp only: of_int_less_iff)
    then show ?thesis unfolding absx
      by (intro mult_strict_right_mono) simp_all
  qed
  also have "\<dots> = 2 powi (53 + k)"
    by (simp add: power_int_add)
  finally have le: "e - 52 \<le> k"
    by (auto dest: powi_less_cancel)
  define d where "d = nat (k - (e - 52))"
  have "x / 2 powi (e - 52) = of_int m * (2 powi k / 2 powi (e - 52))"
    by (simp add: x_def)
  also have "\<dots> = of_int m * 2 powi (k - (e - 52))"
    by (simp add: power_int_diff)
  also have "\<dots> = of_int (m * 2 ^ d)"
    using le by (simp add: d_def power_int_def)
  finally have q: "x / 2 powi (e - 52) = of_int (m * 2 ^ d)" .
  have "f64_round x = of_int (round_half_even (x / 2 powi (e - 52))) * 2 powi (e - 52)"
    using x0 by (simp add: f64_round_def e_def Let_def)
  also have "\<dots> = (x / 2 powi (e - 52)) * 2 powi (e - 52)"
    unfolding q round_half_even_of_int ..
  also have "\<dots> = x" by simp
  finally show ?thesis by (simp add: x_def)
qed

lemma f64_round_int: "\<bar>m\<bar> < 2 ^ 53 \<Longrightarrow> f64_round (of_int m) = of_int m"
  using f64_round_dyadic [of m 0] by simp

lemma f64_mul_int_pow2:
  assumes "\<bar>m\<bar> < 2 ^ 53"
  shows "f64_mul (of_int m) (2 ^ n) = of_int m * 2 ^ n"
  using f64_round_dyadic [OF assms, of "int n"] by (simp add: f64_mul_def)

lemma f64_mul_pow2: "f64_mul (2 ^ m) (2 ^ n) = 2 ^ (m + n)"
  using f64_round_dyadic [of 1 "int (m + n)"]
  by (simp add: f64_mul_def power_add power_int_add)

lemma powi_loop_pow2: "powi_loop (2 ^ r) (2 ^ a) n = 2 ^ (r + a * n)"
proof (induction n arbitrary: r a rule: less_induct)
  case (less n)
  show ?case
  proof (cases "n div 2 = 0")
    case True
    then have "n = 0 \<or> n = 1" by auto
    then show ?thesis
      by (auto simp: powi_loop.simps [of _ _ n] f64_mul_pow2)
  next
    case False
    then have lt: "n div 2 < n" by simp
    define r' where "r' = (if odd n then r + a else r)"
    have "powi_loop (2 ^ r) (2 ^ a) n = powi_loop (2 ^ r') (2 ^ (a + a)) (n div 2)"
      using False by (simp add: powi_loop.simps [of _ _ n] f64_mul_pow2 r'_def)
    also have "\<dots> = 2 ^ (r' + (a + a) * (n div 2))"
      by (rule less.IH [OF lt])
    also have "r' + (a + a) * (n div 2) = r + a * n"
    proof -
      have "n = 2 * (n div 2) + (if odd n then 1 else 0)"
        by (metis add.right_neutral div_mod_decomp_int even_two_times_div_two mult.commute
            odd_two_times_div_two_succ)
      then have "a * n = a * (2 * (n div 2) + (if odd n then 1 else 0))"
        by simp
      then show ?thesis by (simp add: r'_def algebra_simps)
    qed
    finally show ?thesis .
  qed
qed

lemma f64_powi_two: "f64_powi 2 n = 2 ^ n"
  using powi_loop_pow2 [of 0 1 n] by (simp add: f64_powi_def)

section \<open>Duration\<close>

text \<open>\<open>std::time::Duration\<close>: whole seconds and the nanoseconds below one second.\<close>

record duration =
  d_secs :: int
  d_nanos :: int

definition from_secs :: "int \<Rightarrow> duration" where
  "from_secs s = \<lparr>d_secs = s, d_nanos = 0\<rparr>"

definition as_secs_f64 :: "duration \<Rightarrow> rat" where
  "as_secs_f64 d =
    f64_add (f64_round (of_int (d_secs d))) (f64_div (of_int (d_nanos d)) 1000000000)"

text \<open>
  \<open>Duration::from_secs_f64\<close> rounds to the nearest nanosecond, ties to even, and panics on a negative
  argument and on one that does not fit 64 bits of seconds.
\<close>

definition from_secs_f64 :: "rat \<Rightarrow> (duration, 'e) outcome" where
  "from_secs_f64 x =
    (let n = round_half_even (x * 1000000000)
     in if x < 0 \<or> 2 ^ 64 \<le> n div 1000000000 then Panic
        else Ok \<lparr>d_secs = n div 1000000000, d_nanos = n mod 1000000000\<rparr>)"

text \<open>\<open>d.as_secs_f64().ceil() as i64\<close>: the cast saturates.\<close>

definition ceil_secs :: "duration \<Rightarrow> int" where
  "ceil_secs d = max (- (2 ^ 63)) (min (2 ^ 63 - 1) \<lceil>as_secs_f64 d\<rceil>)"

lemma d_secs_from_secs [simp]: "d_secs (from_secs s) = s"
  by (simp add: from_secs_def)

lemma from_secs_inj [simp]: "from_secs a = from_secs b \<longleftrightarrow> a = b"
  by (simp add: from_secs_def)

lemma as_secs_f64_from_secs:
  assumes "\<bar>s\<bar> < 2 ^ 53"
  shows "as_secs_f64 (from_secs s) = of_int s"
  using f64_round_int [OF assms] f64_round_int [of 0]
  by (simp add: as_secs_f64_def from_secs_def f64_add_def f64_div_def)

lemma from_secs_f64_int:
  assumes "0 \<le> s" and "s < 2 ^ 64"
  shows "from_secs_f64 (of_int s) = Ok (from_secs s)"
proof -
  have "(of_int s :: rat) * 1000000000 = of_int (s * 1000000000)" by simp
  then have "round_half_even (of_int s * 1000000000) = s * 1000000000"
    by (simp only: round_half_even_of_int)
  with assms show ?thesis
    by (simp add: from_secs_f64_def from_secs_def)
qed

lemma ceil_secs_from_secs:
  assumes "\<bar>s\<bar> < 2 ^ 53"
  shows "ceil_secs (from_secs s) = s"
  using assms by (simp add: ceil_secs_def as_secs_f64_from_secs)

text \<open>The order of two durations, and that a conversion from seconds keeps it.\<close>

definition duration_le :: "duration \<Rightarrow> duration \<Rightarrow> bool" where
  "duration_le d e \<longleftrightarrow>
    d_secs d * 1000000000 + d_nanos d \<le> d_secs e * 1000000000 + d_nanos e"

lemma from_secs_f64_Ok_iff:
  "from_secs_f64 x = Ok d \<longleftrightarrow>
    (let n = round_half_even (x * 1000000000)
     in 0 \<le> x \<and> n div 1000000000 < 2 ^ 64 \<and>
        d = \<lparr>d_secs = n div 1000000000, d_nanos = n mod 1000000000\<rparr>)"
  by (auto simp: from_secs_f64_def Let_def)

lemma from_secs_f64_mono:
  assumes "from_secs_f64 x = Ok d" and "from_secs_f64 y = Ok e" and "x \<le> y"
  shows "duration_le d e"
  using assms round_half_even_mono [of "x * 1000000000" "y * 1000000000"]
  by (simp add: from_secs_f64_Ok_iff duration_le_def Let_def)

lemma from_secs_f64_returns:
  assumes "0 \<le> x" and "x \<le> of_int s" and "0 \<le> s" and "s < 2 ^ 64"
  shows "\<exists>d. from_secs_f64 x = Ok d"
proof -
  have "round_half_even (x * 1000000000) \<le> round_half_even (of_int (s * 1000000000))"
    using assms(2) by (intro round_half_even_mono) simp
  then have "round_half_even (x * 1000000000) \<le> s * 1000000000"
    by (simp only: round_half_even_of_int)
  then have "round_half_even (x * 1000000000) div 1000000000 \<le> s"
    by (metis nonzero_mult_div_cancel_right zdiv_mono1 zero_less_numeral zero_neq_numeral)
  with assms show ?thesis
    by (simp add: from_secs_f64_def Let_def)
qed

end
