(* ===== verification/Backoff.thy ===== *)
theory Backoff
  imports Float64
begin

text \<open>
  The retry-backoff arithmetic of \<^verbatim>\<open>crates/core/src/backoff.rs\<close>, and that for the policies the queue
  uses (whole seconds, factor two) the \<open>f64\<close> computation is exact.
\<close>

record backoff_policy =
  bp_base :: duration
  bp_factor :: rat
  bp_max :: duration
  bp_jitter :: rat

definition default_policy :: backoff_policy where
  "default_policy =
    \<lparr>bp_base = from_secs 2, bp_factor = 2, bp_max = from_secs 300, bp_jitter = 0\<rparr>"

definition exponential :: "int \<Rightarrow> int \<Rightarrow> backoff_policy" where
  "exponential base_secs max_secs =
    \<lparr>bp_base = from_secs (max base_secs 1),
     bp_factor = 2,
     bp_max = from_secs (max max_secs (max base_secs 1)),
     bp_jitter = 0\<rparr>"

definition delay_for_attempt :: "backoff_policy \<Rightarrow> int \<Rightarrow> (duration, 'e) outcome" where
  "delay_for_attempt p attempt =
    (let attempt = max attempt 1;
         exp = min (attempt - 1) 32;
         raw = f64_mul (as_secs_f64 (bp_base p)) (f64_powi (bp_factor p) (nat exp));
         capped = min raw (as_secs_f64 (bp_max p))
     in from_secs_f64 (max capped 0))"

definition delay_with_jitter ::
  "backoff_policy \<Rightarrow> int \<Rightarrow> rat \<Rightarrow> (duration, 'e) outcome" where
  "delay_with_jitter p attempt rand_unit =
    and_then (delay_for_attempt p attempt) (\<lambda>base.
      if bp_jitter p \<le> 0 then Ok base
      else
        let span = f64_mul (as_secs_f64 base) (bp_jitter p);
            offset = f64_mul (f64_sub (f64_mul (min (max rand_unit 0) 1) 2) 1) span;
            secs = min (max (f64_add (as_secs_f64 base) offset) 0) (as_secs_f64 (bp_max p))
        in from_secs_f64 secs)"

section \<open>The reference formula\<close>

text \<open>\<open>min(base * 2^(attempt - 1), max)\<close> over the integers, without the guard on the exponent.\<close>

definition backoff_secs :: "int \<Rightarrow> int \<Rightarrow> int \<Rightarrow> int" where
  "backoff_secs b m a = min (b * 2 ^ nat (a - 1)) m"

lemma backoff_secs_bounds:
  assumes "1 \<le> b" and "b \<le> m"
  shows "b \<le> backoff_secs b m a \<and> backoff_secs b m a \<le> m"
  using assms by (simp add: backoff_secs_def)

lemma backoff_secs_mono:
  assumes "1 \<le> b" and "a \<le> a'"
  shows "backoff_secs b m a \<le> backoff_secs b m a'"
proof -
  have "(2::int) ^ nat (a - 1) \<le> 2 ^ nat (a' - 1)"
    using assms(2) by (intro power_increasing) auto
  then have "b * 2 ^ nat (a - 1) \<le> b * 2 ^ nat (a' - 1)"
    using assms(1) by (intro mult_left_mono) auto
  then show ?thesis
    by (simp add: backoff_secs_def min.coboundedI1)
qed

text \<open>The guard on the exponent does not show below a ceiling of 32 bits.\<close>

lemma backoff_secs_guard:
  assumes "1 \<le> b" and "m \<le> 2 ^ 32"
  shows "min (b * 2 ^ nat (min (a - 1) 32)) m = backoff_secs b m a"
proof (cases "a - 1 \<le> 32")
  case True
  then show ?thesis by (simp add: backoff_secs_def)
next
  case False
  have "(2::int) ^ 32 \<le> 2 ^ nat (a - 1)"
    using False by (intro power_increasing) auto
  moreover have "(2::int) ^ nat (a - 1) \<le> b * 2 ^ nat (a - 1)"
    using assms(1) mult_right_mono [of 1 b "2 ^ nat (a - 1)"] by simp
  ultimately have "m \<le> b * 2 ^ nat (a - 1)"
    using assms(2) by linarith
  moreover have "m \<le> b * 2 ^ 32"
    using assms by simp
  moreover have "min (a - 1) 32 = 32" using False by simp
  ultimately show ?thesis
    by (simp add: backoff_secs_def)
qed

section \<open>The floating-point computation is exact\<close>

lemma delay_for_attempt_exact:
  assumes "0 \<le> b" "b < 2 ^ 53" "0 \<le> m" "m < 2 ^ 53"
  shows "delay_for_attempt (exponential b m) a =
    Ok (from_secs (min (max b 1 * 2 ^ nat (min (max a 1 - 1) 32)) (max m (max b 1))))"
proof -
  define b' where "b' = max b 1"
  define m' where "m' = max m b'"
  define k where "k = nat (min (max a 1 - 1) 32)"
  have b': "1 \<le> b'" "b' < 2 ^ 53" and m': "b' \<le> m'" "m' < 2 ^ 53"
    using assms by (auto simp: b'_def m'_def)
  have raw: "f64_mul (as_secs_f64 (from_secs b')) (f64_powi 2 k) = of_int (b' * 2 ^ k)"
    using b' by (simp add: as_secs_f64_from_secs f64_powi_two f64_mul_int_pow2)
  have cap: "as_secs_f64 (from_secs m') = of_int m'"
    using b' m' by (simp add: as_secs_f64_from_secs)
  have "delay_for_attempt (exponential b m) a =
      from_secs_f64 (max (min (of_int (b' * 2 ^ k)) (of_int m')) 0)"
    unfolding delay_for_attempt_def exponential_def Let_def
      b'_def [symmetric] m'_def [symmetric] k_def [symmetric]
    by (simp only: backoff_policy.simps raw cap)
  also have "max (min (of_int (b' * 2 ^ k)) (of_int m')) 0 = (of_int (min (b' * 2 ^ k) m') :: rat)"
    using b' m' by (simp add: of_int_min)
  also have "from_secs_f64 \<dots> = Ok (from_secs (min (b' * 2 ^ k) m'))"
    using b' m' by (intro from_secs_f64_int) auto
  finally show ?thesis
    by (simp only: b'_def m'_def k_def)
qed

lemma i32_below_53: "is_i32 n \<Longrightarrow> n < 2 ^ 53"
  by (simp add: is_i32_def)

lemma i32_below_32: "is_i32 n \<Longrightarrow> n \<le> 2 ^ 32"
  by (simp add: is_i32_def)

lemma delay_for_attempt_i32:
  assumes "is_i32 b" "is_i32 m" "1 \<le> b" "b \<le> m" "1 \<le> a"
  shows "delay_for_attempt (exponential b m) a = Ok (from_secs (backoff_secs b m a))"
proof -
  have norm: "max b 1 = b" "max m b = m" "max a 1 = a"
    using assms by simp_all
  have "0 \<le> b" "0 \<le> m" using assms by simp_all
  note exact = delay_for_attempt_exact [OF this(1) i32_below_53 [OF assms(1)]
      this(2) i32_below_53 [OF assms(2)], of a, unfolded norm]
  show ?thesis
    by (simp only: exact backoff_secs_guard [OF assms(3) i32_below_32 [OF assms(2)]])
qed

text \<open>
  For the policies the queue builds (\<open>i32\<close> base and ceiling of whole seconds, base at least one
  second and not above the ceiling) the \<open>f64\<close> computation returns, without panicking, exactly
  \<open>min(base * 2^(attempt-1), max)\<close> seconds.  The guard on the exponent never shows, and the delay lies
  between the base and the ceiling.
\<close>

theorem backoff_delay_exact:
  assumes "is_i32 b" and "is_i32 m" and "1 \<le> b" and "b \<le> m" and "1 \<le> a"
  shows "delay_for_attempt (exponential b m) a = Ok (from_secs (min (b * 2 ^ nat (a - 1)) m)) \<and>
    b \<le> min (b * 2 ^ nat (a - 1)) m \<and> min (b * 2 ^ nat (a - 1)) m \<le> m"
  using delay_for_attempt_i32 [OF assms] backoff_secs_bounds [OF assms(3,4), of a]
  by (simp add: backoff_secs_def)

theorem backoff_delay_exact_witness:
  "delay_for_attempt (exponential 2 300) 4 = (Ok (from_secs 16) :: (duration, unit) outcome)"
  using backoff_delay_exact [of 2 300 4] by (simp add: is_i32_def)

lemma exact_delay_le_max:
  assumes "0 \<le> b" "b < 2 ^ 53" "0 \<le> m" "m < 2 ^ 53"
  obtains n where "delay_for_attempt (exponential b m) a = Ok (from_secs n)"
    and "1 \<le> n" and "n \<le> max m (max b 1)"
proof -
  let ?n = "min (max b 1 * 2 ^ nat (min (max a 1 - 1) 32)) (max m (max b 1))"
  have "1 * 1 \<le> max b 1 * 2 ^ nat (min (max a 1 - 1) 32)"
    by (rule mult_mono) simp_all
  then have "1 \<le> ?n"
    by (simp add: min.bounded_iff le_max_iff_disj)
  moreover have "?n \<le> max m (max b 1)"
    by (rule min.cobounded2)
  ultimately show thesis
    using delay_for_attempt_exact [OF assms] by (intro that)
qed

text \<open>
  A later attempt never waits less: for every policy of whole seconds that \<open>f64\<close> can represent,
  the delay returned is monotone in the attempt number.
\<close>

theorem backoff_delay_monotone:
  assumes "0 \<le> b" "b < 2 ^ 53" "0 \<le> m" "m < 2 ^ 53" and "a \<le> a'"
  shows "\<exists>n n'. delay_for_attempt (exponential b m) a = (Ok (from_secs n) :: (duration, 'e) outcome) \<and>
    delay_for_attempt (exponential b m) a' = (Ok (from_secs n') :: (duration, 'e) outcome) \<and>
    1 \<le> n \<and> n \<le> n'"
proof -
  have "(2::int) ^ nat (min (max a 1 - 1) 32) \<le> 2 ^ nat (min (max a' 1 - 1) 32)"
    using assms(5) by (intro power_increasing) auto
  then have le: "max b 1 * 2 ^ nat (min (max a 1 - 1) 32) \<le>
      max b 1 * 2 ^ nat (min (max a' 1 - 1) 32)"
    by (intro mult_left_mono) auto
  obtain n where n:
      "delay_for_attempt (exponential b m) a = (Ok (from_secs n) :: (duration, 'e) outcome)" "1 \<le> n"
    using assms(1-4) by (rule exact_delay_le_max)
  have "n = min (max b 1 * 2 ^ nat (min (max a 1 - 1) 32)) (max m (max b 1))"
    using n(1) by (simp only: delay_for_attempt_exact [OF assms(1-4)] outcome.inject from_secs_inj)
  with le have "n \<le> min (max b 1 * 2 ^ nat (min (max a' 1 - 1) 32)) (max m (max b 1))"
    by (metis min.mono order_refl)
  with n delay_for_attempt_exact [OF assms(1-4), of a'] show ?thesis
    by blast
qed

theorem backoff_delay_monotone_witness:
  "\<exists>n n'. delay_for_attempt (exponential 2 300) 3 = (Ok (from_secs n) :: (duration, unit) outcome) \<and>
    delay_for_attempt (exponential 2 300) 9 = (Ok (from_secs n') :: (duration, unit) outcome) \<and>
    1 \<le> n \<and> n \<le> n'"
  by (rule backoff_delay_monotone) simp_all

text \<open>
  Jitter never breaks the ceiling: for every jitter fraction and every random value the jittered
  delay of an exponential policy is returned without a panic and is at most the policy's maximum, and
  with no jitter it is the plain delay.
\<close>

theorem jittered_delay_bounded:
  assumes "0 \<le> b" "b < 2 ^ 53" "0 \<le> m" "m < 2 ^ 53"
  shows "\<exists>d. delay_with_jitter ((exponential b m)\<lparr>bp_jitter := j\<rparr>) a r =
      (Ok d :: (duration, 'e) outcome) \<and>
    duration_le d (bp_max (exponential b m)) \<and>
    (j \<le> 0 \<longrightarrow> delay_for_attempt (exponential b m) a = (Ok d :: (duration, 'e) outcome))"
proof -
  define m' where "m' = max m (max b 1)"
  have m': "0 \<le> m'" "m' < 2 ^ 53" using assms by (auto simp: m'_def)
  have pmax: "bp_max (exponential b m) = from_secs m'"
    by (simp add: exponential_def m'_def)
  have same: "delay_for_attempt ((exponential b m)\<lparr>bp_jitter := j\<rparr>) a =
      (delay_for_attempt (exponential b m) a :: (duration, 'e) outcome)"
    by (simp add: delay_for_attempt_def)
  obtain n where n:
      "delay_for_attempt (exponential b m) a = (Ok (from_secs n) :: (duration, 'e) outcome)" "1 \<le> n" "n \<le> m'"
    using assms unfolding m'_def by (rule exact_delay_le_max)
  show ?thesis
  proof (cases "j \<le> 0")
    case True
    moreover have "duration_le (from_secs n) (from_secs m')"
      using n by (simp add: duration_le_def from_secs_def)
    ultimately show ?thesis
      using n by (simp add: delay_with_jitter_def same pmax)
  next
    case False
    define secs where "secs = min (max (f64_add (as_secs_f64 (from_secs n))
      (f64_mul (f64_sub (f64_mul (min (max r 0) 1) 2) 1) (f64_mul (as_secs_f64 (from_secs n)) j))) 0)
      (as_secs_f64 (from_secs m'))"
    have m'_f64: "as_secs_f64 (from_secs m') = of_int m'"
      using m' by (simp add: as_secs_f64_from_secs)
    have secs: "0 \<le> secs" "secs \<le> of_int m'"
      using m' by (auto simp: secs_def m'_f64)
    then obtain d :: duration where d: "from_secs_f64 secs = (Ok d :: (duration, 'e) outcome)"
      using m' from_secs_f64_returns [of secs m'] by fastforce
    have "duration_le d (from_secs m')"
      using from_secs_f64_mono [OF d _ secs(2)] m' by (simp add: from_secs_f64_int)
    moreover have "delay_with_jitter ((exponential b m)\<lparr>bp_jitter := j\<rparr>) a r =
        (Ok d :: (duration, 'e) outcome)"
      using False d n(1) pmax by (simp add: delay_with_jitter_def same secs_def)
    ultimately show ?thesis using False pmax by auto
  qed
qed

theorem jittered_delay_bounded_witness:
  "\<exists>d. delay_with_jitter ((exponential 10 1000)\<lparr>bp_jitter := 1 / 2\<rparr>) 1 (1 / 4) =
      (Ok d :: (duration, unit) outcome) \<and>
    duration_le d (from_secs 1000)"
  using jittered_delay_bounded [of 10 1000 "1 / 2" 1 "1 / 4", where ?'e = unit]
  by (auto simp: exponential_def)

end
