(* ===== verification/Pg_Store.thy ===== *)
theory Pg_Store
  imports Store_Row Backoff
begin

text \<open>
  \<open>PgStore\<close> of \<^verbatim>\<open>crates/storage/src/lib.rs\<close>: one definition per method, built from the row updates its
  SQL statements make.  A method takes the server environment of its call, its arguments and the
  database, and returns its result with the new database.  A transaction commits on the path that
  calls \<open>commit\<close> and leaves the database unchanged on every other.
\<close>

section \<open>Column updates of the statements\<close>

text \<open>\<open>locked_by = NULL, locked_at = NULL, lease_expires_at = NULL\<close>.\<close>

definition clear_lock :: "'j job_row \<Rightarrow> 'j job_row" where
  "clear_lock r = r\<lparr>r_locked_by := None, r_locked_at := None, r_lease_expires_at := None\<rparr>"

definition cancel_set :: "time \<Rightarrow> 'j job_row \<Rightarrow> 'j job_row" where
  "cancel_set now r = (clear_lock r)\<lparr>r_status := as_str Cancelled, r_updated_at := now\<rparr>"

definition retry_set :: "time \<Rightarrow> 'j job_row \<Rightarrow> 'j job_row" where
  "retry_set now r =
    (clear_lock r)\<lparr>r_status := as_str Queued, r_run_at := now, r_attempts := 0,
      r_last_error := None, r_updated_at := now\<rparr>"

definition lease_set :: "time \<Rightarrow> uuid \<Rightarrow> int \<Rightarrow> 'j job_row \<Rightarrow> 'j job_row" where
  "lease_set now w lease_secs r =
    r\<lparr>r_status := as_str Processing, r_locked_by := Some w, r_locked_at := Some now,
      r_lease_expires_at := Some (now + interval_secs lease_secs),
      r_attempts := r_attempts r + 1, r_updated_at := now\<rparr>"

definition complete_set :: "time \<Rightarrow> 'j option \<Rightarrow> 'j job_row \<Rightarrow> 'j job_row" where
  "complete_set now res r =
    (clear_lock r)\<lparr>r_status := as_str Completed, r_result := res, r_completed_at := Some now,
      r_last_error := None, r_updated_at := now\<rparr>"

definition dead_letter_set :: "time \<Rightarrow> string \<Rightarrow> 'j job_row \<Rightarrow> 'j job_row" where
  "dead_letter_set now err r =
    (clear_lock r)\<lparr>r_status := as_str DeadLettered, r_last_error := Some err, r_updated_at := now\<rparr>"

definition failed_set :: "time \<Rightarrow> string \<Rightarrow> 'j job_row \<Rightarrow> 'j job_row" where
  "failed_set now err r =
    (clear_lock r)\<lparr>r_status := as_str Failed, r_last_error := Some err, r_updated_at := now\<rparr>"

definition retrying_set :: "time \<Rightarrow> string \<Rightarrow> int \<Rightarrow> 'j job_row \<Rightarrow> 'j job_row" where
  "retrying_set now err delay_secs r =
    (clear_lock r)\<lparr>r_status := as_str Retrying, r_last_error := Some err,
      r_run_at := now + interval_secs delay_secs, r_updated_at := now\<rparr>"

definition renew_set :: "time \<Rightarrow> int \<Rightarrow> 'j job_row \<Rightarrow> 'j job_row" where
  "renew_set now lease_secs r =
    r\<lparr>r_lease_expires_at := Some (now + interval_secs lease_secs), r_updated_at := now\<rparr>"

text \<open>
  The reaper's backoff, computed by the server: \<open>LEAST(backoff_max_secs, backoff_base_secs *
  power(2, GREATEST(attempts - 1, 0)))\<close>.  The columns are 32-bit integers, so every product is an
  integer below \<open>2\<^sup>3\<^sup>1\<close> times a power of two and \<open>float8\<close> holds it exactly.
\<close>

definition sql_backoff_secs :: "'j job_row \<Rightarrow> int" where
  "sql_backoff_secs r =
    min (r_backoff_max_secs r) (r_backoff_base_secs r * 2 ^ nat (max (r_attempts r - 1) 0))"

definition lease_expired_text :: string where
  "lease_expired_text = ''lease expired''"

definition expired_retry_set :: "time \<Rightarrow> 'j job_row \<Rightarrow> 'j job_row" where
  "expired_retry_set now r =
    (clear_lock r)\<lparr>r_status := as_str Retrying,
      r_last_error := Some (coalesce (r_last_error r) lease_expired_text),
      r_run_at := now + interval_secs (sql_backoff_secs r), r_updated_at := now\<rparr>"

definition expired_dead_letter_set :: "time \<Rightarrow> 'j job_row \<Rightarrow> 'j job_row" where
  "expired_dead_letter_set now r =
    (clear_lock r)\<lparr>r_status := as_str DeadLettered,
      r_last_error := Some (coalesce (r_last_error r) lease_expired_text), r_updated_at := now\<rparr>"

definition expired_failed_set :: "time \<Rightarrow> 'j job_row \<Rightarrow> 'j job_row" where
  "expired_failed_set now r =
    (clear_lock r)\<lparr>r_status := as_str Failed,
      r_last_error := Some (coalesce (r_last_error r) lease_expired_text), r_updated_at := now\<rparr>"

text \<open>Attempt rows: \<open>'running'\<close> until a \<open>complete\<close>, a \<open>fail\<close> or the reaper closes them.\<close>

definition is_running :: "attempt_row \<Rightarrow> bool" where
  "is_running a \<longleftrightarrow> a_status a = ''running''"

definition running_of :: "uuid \<Rightarrow> attempt_row \<Rightarrow> bool" where
  "running_of i a \<longleftrightarrow> a_job_id a = i \<and> is_running a"

definition succeed_attempt :: "time \<Rightarrow> attempt_row \<Rightarrow> attempt_row" where
  "succeed_attempt now a = a\<lparr>a_status := ''succeeded'', a_finished_at := Some now\<rparr>"

definition fail_attempt :: "time \<Rightarrow> string \<Rightarrow> string \<Rightarrow> attempt_row \<Rightarrow> attempt_row" where
  "fail_attempt now attempt_status err a =
    a\<lparr>a_status := attempt_status, a_finished_at := Some now, a_error := Some err\<rparr>"

definition expire_attempt :: "time \<Rightarrow> attempt_row \<Rightarrow> attempt_row" where
  "expire_attempt now a =
    a\<lparr>a_status := ''timeout'', a_finished_at := Some now,
      a_error := Some (coalesce (a_error a) lease_expired_text)\<rparr>"

text \<open>\<open>INSERT INTO dead_letter_jobs ... ON CONFLICT (id) DO NOTHING\<close>.\<close>

definition insert_dead_letter ::
  "'j dead_letter_row \<Rightarrow> 'j dead_letter_row list \<Rightarrow> 'j dead_letter_row list" where
  "insert_dead_letter d rows =
    (if dl_id d \<in> set (map dl_id rows) then rows else rows @ [d])"

definition dead_letter_of :: "time \<Rightarrow> string option \<Rightarrow> 'j job_row \<Rightarrow> 'j dead_letter_row" where
  "dead_letter_of now err r =
    \<lparr>dl_id = r_id r, dl_queue = r_queue r, dl_job_type = r_job_type r, dl_payload = r_payload r,
     dl_attempts = r_attempts r, dl_last_error = err, dl_dead_lettered_at = now,
     dl_original_created_at = Some (r_created_at r)\<rparr>"

section \<open>Queues\<close>

definition fetch_job :: "uuid \<Rightarrow> 'j db \<Rightarrow> ('j job option, queue_error) outcome" where
  "fetch_job i db =
    (case find_by r_id i (jobs db) of
       None \<Rightarrow> Ok None
     | Some r \<Rightarrow> and_then (into_job r) (\<lambda>j. Ok (Some j)))"

definition insert_queue :: "time \<Rightarrow> string \<Rightarrow> 'j db \<Rightarrow> 'j db" where
  "insert_queue now name db =
    (if name \<in> set (map q_name (queues db)) then db
     else db\<lparr>queues := queues db @
       [\<lparr>q_name = name, q_paused = False, q_max_concurrency = None, q_created_at = now\<rparr>]\<rparr>)"

definition ensure_queue ::
  "pg_env \<Rightarrow> string \<Rightarrow> 'j db \<Rightarrow> (queue, queue_error) outcome \<times> 'j db" where
  "ensure_queue env name db =
    (let db' = insert_queue (pe_now env) name db
     in case find_by q_name name (queues db') of
          Some q \<Rightarrow> (Ok q, db')
        | None \<Rightarrow> (Err (storage_err env RowNotFound), db'))"

definition get_queue :: "string \<Rightarrow> 'j db \<Rightarrow> (queue option, queue_error) outcome" where
  "get_queue name db = Ok (find_by q_name name (queues db))"

definition list_queues :: "pg_env \<Rightarrow> 'j db \<Rightarrow> (queue list, queue_error) outcome" where
  "list_queues env db = Ok (order_by (\<lambda>q. pe_collate env (q_name q)) (queues db))"

definition set_queue_paused ::
  "string \<Rightarrow> bool \<Rightarrow> 'j db \<Rightarrow> (queue, queue_error) outcome \<times> 'j db" where
  "set_queue_paused name paused db =
    (let p = (\<lambda>q. q_name q = name); f = (\<lambda>q. q\<lparr>q_paused := paused\<rparr>)
     in case fetch_optional (map f (select_where p (queues db))) of
          Some q \<Rightarrow> (Ok q, db\<lparr>queues := update_where p f (queues db)\<rparr>)
        | None \<Rightarrow> (Err (QueueNotFound name), db\<lparr>queues := update_where p f (queues db)\<rparr>))"

text \<open>\<open>SELECT status, COUNT(*) ... GROUP BY status\<close>.\<close>

definition status_counts :: "string \<Rightarrow> 'j db \<Rightarrow> (string \<times> int) list" where
  "status_counts name db =
    (let sts = map r_status (select_where (\<lambda>r. r_queue r = name) (jobs db))
     in map (\<lambda>s. (s, int (count_list sts s))) (remdups sts))"

definition set_count :: "queue_stats \<Rightarrow> string \<times> int \<Rightarrow> queue_stats" where
  "set_count stats sc =
    (let (s, n) = sc
     in if s = ''queued'' then stats\<lparr>st_queued := n\<rparr>
        else if s = ''scheduled'' then stats\<lparr>st_scheduled := n\<rparr>
        else if s = ''processing'' then stats\<lparr>st_processing := n\<rparr>
        else if s = ''completed'' then stats\<lparr>st_completed := n\<rparr>
        else if s = ''failed'' then stats\<lparr>st_failed := n\<rparr>
        else if s = ''retrying'' then stats\<lparr>st_retrying := n\<rparr>
        else if s = ''cancelled'' then stats\<lparr>st_cancelled := n\<rparr>
        else if s = ''dead_lettered'' then stats\<lparr>st_dead_lettered := n\<rparr>
        else stats)"

definition queue_stats_of :: "string \<Rightarrow> 'j db \<Rightarrow> (queue_stats, queue_error) outcome" where
  "queue_stats_of name db =
    and_then (get_queue name db) (\<lambda>q.
      case q of
        None \<Rightarrow> Err (QueueNotFound name)
      | Some queue \<Rightarrow>
          Ok (foldl set_count
            \<lparr>st_queue = name, st_paused = q_paused queue, st_queued = 0, st_scheduled = 0,
             st_processing = 0, st_completed = 0, st_failed = 0, st_retrying = 0,
             st_cancelled = 0, st_dead_lettered = 0\<rparr>
            (status_counts name db)))"

section \<open>Submission and inspection\<close>

definition key_matches :: "string \<Rightarrow> string \<Rightarrow> 'j job_row \<Rightarrow> bool" where
  "key_matches queue key r \<longleftrightarrow> r_queue r = queue \<and> r_idempotency_key r = Some key"

definition select_by_key :: "string \<Rightarrow> string \<Rightarrow> 'j db \<Rightarrow> 'j job_row option" where
  "select_by_key queue key db = fetch_optional (select_where (key_matches queue key) (jobs db))"

text \<open>The row an \<open>INSERT INTO jobs\<close> creates: the bound columns and the defaults of the others.\<close>

definition new_row :: "time \<Rightarrow> uuid \<Rightarrow> 'j normalized_job \<Rightarrow> 'j job_row" where
  "new_row now i z =
    \<lparr>r_id = i, r_queue = z_queue z, r_job_type = z_job_type z, r_payload = z_payload z,
     r_status = as_str (z_status z), r_priority = z_priority z,
     r_idempotency_key = z_idempotency_key z, r_max_attempts = z_max_attempts z, r_attempts = 0,
     r_run_at = z_run_at z, r_timeout_secs = z_timeout_secs z,
     r_backoff_base_secs = z_backoff_base_secs z, r_backoff_max_secs = z_backoff_max_secs z,
     r_dead_letter = z_dead_letter z, r_locked_by = None, r_locked_at = None,
     r_lease_expires_at = None, r_last_error = None, r_result = None,
     r_metadata = z_metadata z, r_correlation_id = z_correlation_id z, r_created_at = now,
     r_updated_at = now, r_completed_at = None\<rparr>"

text \<open>The \<open>CHECK\<close> constraints of the table \<open>jobs\<close>.\<close>

definition row_checks :: "'j job_row \<Rightarrow> bool" where
  "row_checks r \<longleftrightarrow>
    status_in r [Queued, Scheduled, Processing, Completed, Failed, Retrying, Cancelled,
      DeadLettered] \<and>
    1 \<le> r_max_attempts r \<and> 1 \<le> r_timeout_secs r \<and> 1 \<le> r_backoff_base_secs r \<and>
    1 \<le> r_backoff_max_secs r"

text \<open>The primary key and the partial unique index \<open>jobs_idem_uniq\<close>.\<close>

definition unique_conflict :: "'j job_row \<Rightarrow> 'j job_row list \<Rightarrow> bool" where
  "unique_conflict r rows \<longleftrightarrow>
    r_id r \<in> set (map r_id rows) \<or>
    (case r_idempotency_key r of
       None \<Rightarrow> False
     | Some key \<Rightarrow> list_ex (key_matches (r_queue r) key) rows)"

definition insert_job ::
  "time \<Rightarrow> uuid \<Rightarrow> 'j normalized_job \<Rightarrow> 'j db \<Rightarrow> ('j job_row, sqlx_error) outcome \<times> 'j db" where
  "insert_job now i z db =
    (let r = new_row now i z
     in if \<not> row_checks r then (Err CheckViolation, db)
        else if unique_conflict r (jobs db) then (Err UniqueViolation, db)
        else if r_queue r \<notin> set (map q_name (queues db)) then (Err ForeignKeyViolation, db)
        else (Ok r, db\<lparr>jobs := jobs db @ [r]\<rparr>))"

definition submission_of :: "'j job_row \<Rightarrow> bool \<Rightarrow> ('j submission, queue_error) outcome" where
  "submission_of r created =
    and_then (into_job r) (\<lambda>j. Ok \<lparr>sub_job = j, sub_created = created\<rparr>)"

text \<open>The match on the result of the insert; a lost idempotency race reads the other writer's row.\<close>

definition submit_result ::
  "pg_env \<Rightarrow> 'j normalized_job \<Rightarrow> ('j job_row, sqlx_error) outcome \<Rightarrow> 'j db \<Rightarrow>
   ('j submission, queue_error) outcome" where
  "submit_result env z res db =
    (case res of
       Ok r \<Rightarrow> submission_of r True
     | Err e \<Rightarrow>
         if is_unique_violation e then
           (case z_idempotency_key z of
              None \<Rightarrow> Err (storage_err env e)
            | Some key \<Rightarrow>
                (case select_by_key (z_queue z) key db of
                   None \<Rightarrow> Err (storage_err env RowNotFound)
                 | Some existing \<Rightarrow> submission_of existing False))
         else Err (storage_err env e)
     | Panic \<Rightarrow> Panic)"

definition submit ::
  "pg_env \<Rightarrow> 'j normalized_job \<Rightarrow> 'j db \<Rightarrow> ('j submission, queue_error) outcome \<times> 'j db" where
  "submit env z db =
    (case ensure_queue env (z_queue z) db of
       (Err e, db1) \<Rightarrow> (Err e, db1)
     | (Panic, db1) \<Rightarrow> (Panic, db1)
     | (Ok _, db1) \<Rightarrow>
         (case (case z_idempotency_key z of
                  None \<Rightarrow> None
                | Some key \<Rightarrow> select_by_key (z_queue z) key db1) of
            Some existing \<Rightarrow> (submission_of existing False, db1)
          | None \<Rightarrow>
              (let (res, db2) = insert_job (pe_now env) (pe_uuid env) z db1
               in (submit_result env z res db2, db2))))"

definition get_job :: "uuid \<Rightarrow> 'j db \<Rightarrow> ('j job option, queue_error) outcome" where
  "get_job i db = fetch_job i db"

fun null_or_eq :: "'a option \<Rightarrow> 'a \<Rightarrow> bool" where
  "null_or_eq None x = True"
| "null_or_eq (Some y) x = (x = y)"

definition list_jobs ::
  "pg_env \<Rightarrow> string option \<Rightarrow> string option \<Rightarrow> string option \<Rightarrow> int \<Rightarrow> int \<Rightarrow> 'j db \<Rightarrow>
   ('j job list, queue_error) outcome" where
  "list_jobs env queue status job_type limit offset db =
    (if limit < 0 \<or> offset < 0 then Err (storage_err env NegativeLimit)
     else collect_ok into_job
       (limit_rows limit (offset_rows offset
         (order_by (\<lambda>r. - r_created_at r)
           (select_where (\<lambda>r. null_or_eq queue (r_queue r) \<and> null_or_eq status (r_status r) \<and>
              null_or_eq job_type (r_job_type r)) (jobs db))))))"

definition list_attempts :: "uuid \<Rightarrow> 'j db \<Rightarrow> (job_attempt list, queue_error) outcome" where
  "list_attempts i db =
    Ok (order_by (\<lambda>a. (- a_attempt a, - a_id a))
      (select_where (\<lambda>a. a_job_id a = i) (job_attempts db)))"

definition list_dead_letter ::
  "pg_env \<Rightarrow> string option \<Rightarrow> int \<Rightarrow> 'j db \<Rightarrow> ('j dead_letter_job list, queue_error) outcome" where
  "list_dead_letter env queue limit db =
    (if limit < 0 then Err (storage_err env NegativeLimit)
     else Ok (limit_rows limit
       (order_by (\<lambda>d. - dl_dead_lettered_at d)
         (select_where (\<lambda>d. null_or_eq queue (dl_queue d)) (dead_letter_jobs db)))))"

section \<open>Operator actions\<close>

text \<open>Why a conditional update matched no row.\<close>

definition explain_unmatched ::
  "string \<Rightarrow> uuid \<Rightarrow> 'j db \<Rightarrow> ('a, queue_error) outcome" where
  "explain_unmatched op i db =
    and_then (fetch_job i db) (\<lambda>found.
      case found of
        Some j \<Rightarrow> Err (InvalidOperation op (j_status j))
      | None \<Rightarrow> Err (JobNotFound i))"

definition cancel_matches :: "uuid \<Rightarrow> 'j job_row \<Rightarrow> bool" where
  "cancel_matches i r \<longleftrightarrow> r_id r = i \<and> status_in r [Queued, Scheduled, Retrying, Processing]"

definition cancel_job ::
  "pg_env \<Rightarrow> uuid \<Rightarrow> 'j db \<Rightarrow> ('j job, queue_error) outcome \<times> 'j db" where
  "cancel_job env i db =
    (let f = cancel_set (pe_now env);
         db' = db\<lparr>jobs := update_where (cancel_matches i) f (jobs db)\<rparr>
     in case fetch_optional (map f (select_where (cancel_matches i) (jobs db))) of
          Some r \<Rightarrow> (into_job r, db')
        | None \<Rightarrow> (explain_unmatched ''cancel'' i db', db'))"

definition retry_matches :: "uuid \<Rightarrow> 'j job_row \<Rightarrow> bool" where
  "retry_matches i r \<longleftrightarrow> r_id r = i \<and> status_in r [Failed, DeadLettered]"

definition delete_dead_letter :: "uuid \<Rightarrow> 'j db \<Rightarrow> 'j db" where
  "delete_dead_letter i db =
    db\<lparr>dead_letter_jobs := delete_where (\<lambda>d. dl_id d = i) (dead_letter_jobs db)\<rparr>"

definition retry_job ::
  "pg_env \<Rightarrow> uuid \<Rightarrow> 'j db \<Rightarrow> ('j job, queue_error) outcome \<times> 'j db" where
  "retry_job env i db =
    (let f = retry_set (pe_now env);
         db' = db\<lparr>jobs := update_where (retry_matches i) f (jobs db)\<rparr>
     in case fetch_optional (map f (select_where (retry_matches i) (jobs db))) of
          Some r \<Rightarrow> (into_job r, delete_dead_letter i db')
        | None \<Rightarrow> (explain_unmatched ''retry'' i db', db'))"

definition purge_matches :: "time \<Rightarrow> 'j job_row \<Rightarrow> bool" where
  "purge_matches older_than r \<longleftrightarrow> status_in r [Completed, Cancelled] \<and> r_updated_at r < older_than"

text \<open>Deleting a job deletes its attempts (\<open>ON DELETE CASCADE\<close>).\<close>

definition purge_finished :: "time \<Rightarrow> 'j db \<Rightarrow> (int, queue_error) outcome \<times> 'j db" where
  "purge_finished older_than db =
    (let gone = select_where (purge_matches older_than) (jobs db)
     in (Ok (int (length gone)),
         db\<lparr>jobs := delete_where (purge_matches older_than) (jobs db),
            job_attempts :=
              delete_where (\<lambda>a. a_job_id a \<in> set (map r_id gone)) (job_attempts db)\<rparr>))"

section \<open>The leasing protocol\<close>

definition queue_open :: "string \<Rightarrow> 'j db \<Rightarrow> bool" where
  "queue_open name db \<longleftrightarrow> list_ex (\<lambda>q. q_name q = name \<and> \<not> q_paused q) (queues db)"

definition lease_eligible ::
  "pg_env \<Rightarrow> string list \<Rightarrow> 'j db \<Rightarrow> 'j job_row \<Rightarrow> bool" where
  "lease_eligible env qs db r \<longleftrightarrow>
    r_queue r \<in> set qs \<and> queue_open (r_queue r) db \<and>
    status_in r [Queued, Scheduled, Retrying] \<and> r_run_at r \<le> pe_now env \<and>
    r_id r \<notin> set (pe_locked env)"

text \<open>\<open>ORDER BY priority DESC, run_at ASC, created_at ASC\<close>.\<close>

definition lease_key :: "'j job_row \<Rightarrow> int \<times> int \<times> int" where
  "lease_key r = (- r_priority r, r_run_at r, r_created_at r)"

definition lease_candidate :: "pg_env \<Rightarrow> string list \<Rightarrow> 'j db \<Rightarrow> 'j job_row option" where
  "lease_candidate env qs db =
    fetch_optional (limit_rows 1
      (order_by lease_key (select_where (lease_eligible env qs db) (jobs db))))"

definition running_attempt :: "time \<Rightarrow> uuid \<Rightarrow> 'j job \<Rightarrow> int \<Rightarrow> attempt_row" where
  "running_attempt now w j seq =
    \<lparr>a_id = seq, a_job_id = j_id j, a_attempt = j_attempts j, a_worker_id = Some w,
     a_started_at = now, a_finished_at = None, a_status = ''running'', a_error = None\<rparr>"

definition lease_next ::
  "pg_env \<Rightarrow> uuid \<Rightarrow> string list \<Rightarrow> int \<Rightarrow> 'j db \<Rightarrow>
   ('j job option, queue_error) outcome \<times> 'j db" where
  "lease_next env w qs lease_secs db =
    (case lease_candidate env qs db of
       None \<Rightarrow> (Ok None, db)
     | Some c \<Rightarrow>
         (let f = lease_set (pe_now env) w lease_secs; p = (\<lambda>r. r_id r = r_id c)
          in case fetch_optional (map f (select_where p (jobs db))) of
               None \<Rightarrow> (Ok None, db)
             | Some r \<Rightarrow>
                 (case into_job r of
                    Err e \<Rightarrow> (Err e, db)
                  | Panic \<Rightarrow> (Panic, db)
                  | Ok j \<Rightarrow>
                      (Ok (Some j),
                       db\<lparr>jobs := update_where p f (jobs db),
                          job_attempts := job_attempts db @
                            [running_attempt (pe_now env) w j (attempt_seq db)],
                          attempt_seq := attempt_seq db + 1\<rparr>))))"

text \<open>The lease-bound updates match the row only while \<open>w\<close> holds its lease.\<close>

definition held_by :: "uuid \<Rightarrow> uuid \<Rightarrow> 'j job_row \<Rightarrow> bool" where
  "held_by i w r \<longleftrightarrow> r_id r = i \<and> r_locked_by r = Some w \<and> has_status r Processing"

definition lease_lost_error ::
  "uuid \<Rightarrow> uuid \<Rightarrow> string \<Rightarrow> 'j db \<Rightarrow> ('j job, queue_error) outcome" where
  "lease_lost_error i w op db =
    and_then (fetch_job i db) (\<lambda>found.
      case found of
        Some j \<Rightarrow> Err (InvalidOperation op (j_status j))
      | None \<Rightarrow> Err (JobNotFound i))"

definition complete_job ::
  "pg_env \<Rightarrow> uuid \<Rightarrow> uuid \<Rightarrow> 'j option \<Rightarrow> 'j db \<Rightarrow> ('j job, queue_error) outcome \<times> 'j db" where
  "complete_job env i w res db =
    (let f = complete_set (pe_now env) res
     in case fetch_optional (map f (select_where (held_by i w) (jobs db))) of
          None \<Rightarrow> (lease_lost_error i w ''complete'' db, db)
        | Some r \<Rightarrow>
            (case into_job r of
               Err e \<Rightarrow> (Err e, db)
             | Panic \<Rightarrow> (Panic, db)
             | Ok j \<Rightarrow>
                 (Ok j,
                  db\<lparr>jobs := update_where (held_by i w) f (jobs db),
                     job_attempts := update_where (running_of i)
                       (succeed_attempt (pe_now env)) (job_attempts db)\<rparr>)))"

text \<open>The branch of \<open>fail_job\<close> on whether attempts are exhausted: the new job and dead-letter tables.\<close>

definition fail_transition ::
  "time \<Rightarrow> string \<Rightarrow> 'j job_row \<Rightarrow> 'j db \<Rightarrow> ('j db, queue_error) outcome" where
  "fail_transition now err r db =
    (let p = (\<lambda>x. r_id x = r_id r)
     in if r_attempts r \<ge> r_max_attempts r then
          if r_dead_letter r then
            Ok (db\<lparr>dead_letter_jobs :=
                     insert_dead_letter (dead_letter_of now (Some err) r) (dead_letter_jobs db),
                   jobs := update_where p (dead_letter_set now err) (jobs db)\<rparr>)
          else Ok (db\<lparr>jobs := update_where p (failed_set now err) (jobs db)\<rparr>)
        else
          let policy = exponential (as_u64 (max (r_backoff_base_secs r) 1))
                (as_u64 (max (r_backoff_max_secs r) 1))
          in and_then (delay_for_attempt policy (as_u32 (r_attempts r))) (\<lambda>delay.
               Ok (db\<lparr>jobs := update_where p (retrying_set now err (ceil_secs delay)) (jobs db)\<rparr>)))"

definition fail_job ::
  "pg_env \<Rightarrow> uuid \<Rightarrow> uuid \<Rightarrow> string \<Rightarrow> bool \<Rightarrow> 'j db \<Rightarrow>
   ('j job, queue_error) outcome \<times> 'j db" where
  "fail_job env i w err timed_out db =
    (case find_by r_id i (jobs db) of
       None \<Rightarrow> (Err (JobNotFound i), db)
     | Some r \<Rightarrow>
         (case into_job r of
            Err e \<Rightarrow> (Err e, db)
          | Panic \<Rightarrow> (Panic, db)
          | Ok current \<Rightarrow>
              if j_status current \<noteq> Processing \<or> j_locked_by current \<noteq> Some w
              then (Err (InvalidOperation ''fail'' (j_status current)), db)
              else
                (case fail_transition (pe_now env) err r db of
                   Err e \<Rightarrow> (Err e, db)
                 | Panic \<Rightarrow> (Panic, db)
                 | Ok db1 \<Rightarrow>
                     (let attempt_status = (if timed_out then ''timeout'' else ''failed'');
                          db2 = db1\<lparr>job_attempts := update_where (running_of i)
                            (fail_attempt (pe_now env) attempt_status err) (job_attempts db1)\<rparr>
                      in (and_then (fetch_job i db2) (\<lambda>found.
                            case found of Some j \<Rightarrow> Ok j | None \<Rightarrow> Err (JobNotFound i)), db2)))))"

definition renew_lease ::
  "pg_env \<Rightarrow> uuid \<Rightarrow> uuid \<Rightarrow> int \<Rightarrow> 'j db \<Rightarrow> (unit, queue_error) outcome \<times> 'j db" where
  "renew_lease env i w lease_secs db =
    (if select_where (held_by i w) (jobs db) = []
     then (Err (InvalidOperation ''renew_lease'' Processing), db)
     else (Ok (), db\<lparr>jobs :=
       update_where (held_by i w) (renew_set (pe_now env) lease_secs) (jobs db)\<rparr>))"

section \<open>The reaper\<close>

definition expired :: "pg_env \<Rightarrow> 'j job_row \<Rightarrow> bool" where
  "expired env r \<longleftrightarrow>
    has_status r Processing \<and> null_less (r_lease_expires_at r) (pe_now env) \<and>
    r_id r \<notin> set (pe_locked env)"

text \<open>
  The ids a statement of the reaper picks: the rows in class \<open>c\<close> (retryable, exhausted with or without
  the dead-letter flag) whose lease expired, oldest expiry first, at most \<open>limit\<close> of them.
\<close>

definition expired_ids ::
  "pg_env \<Rightarrow> ('j job_row \<Rightarrow> bool) \<Rightarrow> int \<Rightarrow> 'j db \<Rightarrow> uuid list" where
  "expired_ids env c limit db =
    map r_id (limit_rows limit
      (order_by (\<lambda>r. nulls_last (r_lease_expires_at r))
        (select_where (\<lambda>r. expired env r \<and> c r) (jobs db))))"

definition retryable :: "'j job_row \<Rightarrow> bool" where
  "retryable r \<longleftrightarrow> r_attempts r < r_max_attempts r"

definition exhausted_dead_letter :: "'j job_row \<Rightarrow> bool" where
  "exhausted_dead_letter r \<longleftrightarrow> r_attempts r \<ge> r_max_attempts r \<and> r_dead_letter r"

definition exhausted_failed :: "'j job_row \<Rightarrow> bool" where
  "exhausted_failed r \<longleftrightarrow> r_attempts r \<ge> r_max_attempts r \<and> \<not> r_dead_letter r"

definition with_id_in :: "uuid list \<Rightarrow> 'j job_row \<Rightarrow> bool" where
  "with_id_in ids r \<longleftrightarrow> r_id r \<in> set ids"

definition recover_retry :: "pg_env \<Rightarrow> int \<Rightarrow> 'j db \<Rightarrow> uuid list \<times> 'j db" where
  "recover_retry env limit db =
    (let ids = expired_ids env retryable limit db
     in (map r_id (select_where (with_id_in ids) (jobs db)),
         db\<lparr>jobs := update_where (with_id_in ids) (expired_retry_set (pe_now env)) (jobs db)\<rparr>))"

definition recover_dead_letter :: "pg_env \<Rightarrow> int \<Rightarrow> 'j db \<Rightarrow> uuid list \<times> 'j db" where
  "recover_dead_letter env limit db =
    (let ids = expired_ids env exhausted_dead_letter limit db;
         gone = select_where (with_id_in ids) (jobs db)
     in (map r_id gone,
         db\<lparr>dead_letter_jobs :=
              foldl (\<lambda>rows r. insert_dead_letter
                  (dead_letter_of (pe_now env)
                    (Some (coalesce (r_last_error r) lease_expired_text)) r) rows)
                (dead_letter_jobs db) gone,
            jobs := update_where (with_id_in ids) (expired_dead_letter_set (pe_now env))
              (jobs db)\<rparr>))"

definition recover_failed :: "pg_env \<Rightarrow> int \<Rightarrow> 'j db \<Rightarrow> uuid list \<times> 'j db" where
  "recover_failed env limit db =
    (let ids = expired_ids env exhausted_failed limit db
     in (map r_id (select_where (with_id_in ids) (jobs db)),
         db\<lparr>jobs := update_where (with_id_in ids) (expired_failed_set (pe_now env)) (jobs db)\<rparr>))"

definition close_attempts :: "pg_env \<Rightarrow> uuid list \<Rightarrow> 'j db \<Rightarrow> 'j db" where
  "close_attempts env ids db =
    (if ids = [] then db
     else db\<lparr>job_attempts := update_where (\<lambda>a. is_running a \<and> a_job_id a \<in> set ids)
       (expire_attempt (pe_now env)) (job_attempts db)\<rparr>)"

definition recover_expired_leases ::
  "pg_env \<Rightarrow> int \<Rightarrow> 'j db \<Rightarrow> (uuid list, queue_error) outcome \<times> 'j db" where
  "recover_expired_leases env limit db =
    (if limit < 0 then (Err (storage_err env NegativeLimit), db)
     else
       (let (ids1, db1) = recover_retry env limit db;
            (ids2, db2) = recover_dead_letter env limit db1;
            (ids3, db3) = recover_failed env limit db2;
            recovered = ids1 @ ids2 @ ids3
        in (Ok recovered, close_attempts env recovered db3)))"

section \<open>The worker registry\<close>

definition register_worker ::
  "pg_env \<Rightarrow> worker \<Rightarrow> 'j db \<Rightarrow> (unit, queue_error) outcome \<times> 'j db" where
  "register_worker env wk db =
    (if w_id wk \<in> set (map w_id (workers db))
     then (Ok (), db\<lparr>workers := update_where (\<lambda>x. w_id x = w_id wk)
       (\<lambda>x. x\<lparr>w_hostname := w_hostname wk, w_queues := w_queues wk,
              w_concurrency := w_concurrency wk, w_last_heartbeat := pe_now env\<rparr>) (workers db)\<rparr>)
     else (Ok (), db\<lparr>workers := workers db @
       [\<lparr>w_id = w_id wk, w_hostname = w_hostname wk, w_queues = w_queues wk,
         w_concurrency = w_concurrency wk, w_registered_at = pe_now env,
         w_last_heartbeat = pe_now env\<rparr>]\<rparr>))"

definition heartbeat ::
  "pg_env \<Rightarrow> uuid \<Rightarrow> 'j db \<Rightarrow> (bool, queue_error) outcome \<times> 'j db" where
  "heartbeat env w db =
    (Ok (select_where (\<lambda>x. w_id x = w) (workers db) \<noteq> []),
     db\<lparr>workers := update_where (\<lambda>x. w_id x = w) (\<lambda>x. x\<lparr>w_last_heartbeat := pe_now env\<rparr>)
       (workers db)\<rparr>)"

definition deregister_worker :: "uuid \<Rightarrow> 'j db \<Rightarrow> (unit, queue_error) outcome \<times> 'j db" where
  "deregister_worker w db =
    (Ok (), db\<lparr>workers := delete_where (\<lambda>x. w_id x = w) (workers db)\<rparr>)"

definition list_active_workers ::
  "pg_env \<Rightarrow> int \<Rightarrow> 'j db \<Rightarrow> (worker list, queue_error) outcome" where
  "list_active_workers env within_secs db =
    Ok (order_by w_registered_at
      (select_where (\<lambda>x. w_last_heartbeat x > pe_now env - interval_secs within_secs)
        (workers db)))"

definition prune_dead_workers ::
  "pg_env \<Rightarrow> int \<Rightarrow> 'j db \<Rightarrow> (int, queue_error) outcome \<times> 'j db" where
  "prune_dead_workers env older_secs db =
    (let p = (\<lambda>x. w_last_heartbeat x < pe_now env - interval_secs older_secs)
     in (Ok (int (length (select_where p (workers db)))),
         db\<lparr>workers := delete_where p (workers db)\<rparr>))"

end
