(* ===== verification/Pg_Invariant.thy ===== *)
theory Pg_Invariant
  imports Pg_Store
begin

text \<open>
  The well-formedness of the database: what the schema's constraints enforce (keys, foreign keys,
  checks) and what the statements keep beyond it (the lease columns agree with the status, the attempt
  counter stays within its limit, a completion time marks exactly the completed jobs).  Every column
  update keeps the row invariant under the guard of its statement.
\<close>

section \<open>Rows\<close>

definition lease_consistent :: "'j job_row \<Rightarrow> bool" where
  "lease_consistent r \<longleftrightarrow>
    (has_status r Processing \<longleftrightarrow> r_locked_by r \<noteq> None) \<and>
    (has_status r Processing \<longleftrightarrow> r_locked_at r \<noteq> None) \<and>
    (has_status r Processing \<longleftrightarrow> r_lease_expires_at r \<noteq> None)"

definition attempts_bounded :: "'j job_row \<Rightarrow> bool" where
  "attempts_bounded r \<longleftrightarrow>
    0 \<le> r_attempts r \<and> r_attempts r \<le> r_max_attempts r \<and> r_max_attempts r \<le> 100 \<and>
    (status_in r [Queued, Scheduled, Retrying] \<longrightarrow> r_attempts r < r_max_attempts r) \<and>
    (has_status r Processing \<longrightarrow> 1 \<le> r_attempts r)"

definition completion_recorded :: "'j job_row \<Rightarrow> bool" where
  "completion_recorded r \<longleftrightarrow>
    (has_status r Completed \<longleftrightarrow> r_completed_at r \<noteq> None) \<and>
    (r_result r \<noteq> None \<longrightarrow> has_status r Completed)"

definition limits_kept :: "'j job_row \<Rightarrow> bool" where
  "limits_kept r \<longleftrightarrow>
    row_checks r \<and> r_timeout_secs r \<le> 86400 \<and>
    r_backoff_base_secs r \<le> r_backoff_max_secs r \<and> is_i32 (r_backoff_max_secs r)"

definition row_ok :: "'j job_row \<Rightarrow> bool" where
  "row_ok r \<longleftrightarrow>
    limits_kept r \<and> lease_consistent r \<and> attempts_bounded r \<and> completion_recorded r"

declare row_ok_def [row_invariant] limits_kept_def [row_invariant] row_checks_def [row_invariant]
  lease_consistent_def [row_invariant] attempts_bounded_def [row_invariant]
  completion_recorded_def [row_invariant]

declare clear_lock_def [row_updates] cancel_set_def [row_updates] retry_set_def [row_updates]
  lease_set_def [row_updates] complete_set_def [row_updates] dead_letter_set_def [row_updates]
  failed_set_def [row_updates] retrying_set_def [row_updates] renew_set_def [row_updates]
  expired_retry_set_def [row_updates] expired_dead_letter_set_def [row_updates]
  expired_failed_set_def [row_updates]

lemma row_ok_has_status:
  assumes "row_ok r"
  shows "\<exists>s. has_status r s"
proof -
  have "row_checks r" using assms by (simp add: row_ok_def limits_kept_def)
  then have "r_status r \<in> range as_str" unfolding row_checks_def status_in_def by auto
  then show ?thesis by blast
qed

lemma row_ok_into_job: "row_ok r \<Longrightarrow> into_job r = Ok (job_of r)"
  using row_ok_has_status into_job_has_status by blast

text \<open>The row invariant with the status given.\<close>

lemma status_in_known: "has_status r s \<Longrightarrow> status_in r ss \<longleftrightarrow> s \<in> set ss"
  by (auto simp: status_in_def)

lemma row_ok_iff:
  assumes "has_status r s"
  shows "row_ok r \<longleftrightarrow>
    1 \<le> r_max_attempts r \<and> r_max_attempts r \<le> 100 \<and>
    1 \<le> r_timeout_secs r \<and> r_timeout_secs r \<le> 86400 \<and>
    1 \<le> r_backoff_base_secs r \<and> r_backoff_base_secs r \<le> r_backoff_max_secs r \<and>
    is_i32 (r_backoff_max_secs r) \<and>
    (s = Processing \<longleftrightarrow> r_locked_by r \<noteq> None) \<and>
    (s = Processing \<longleftrightarrow> r_locked_at r \<noteq> None) \<and>
    (s = Processing \<longleftrightarrow> r_lease_expires_at r \<noteq> None) \<and>
    0 \<le> r_attempts r \<and> r_attempts r \<le> r_max_attempts r \<and>
    (is_leaseable s \<longrightarrow> r_attempts r < r_max_attempts r) \<and>
    (s = Processing \<longrightarrow> 1 \<le> r_attempts r) \<and>
    (s = Completed \<longleftrightarrow> r_completed_at r \<noteq> None) \<and>
    (r_result r \<noteq> None \<longrightarrow> s = Completed)"
proof -
  have every: "s \<in> set [Queued, Scheduled, Processing, Completed, Failed, Retrying, Cancelled,
      DeadLettered]"
    by (cases s) simp_all
  have lease: "s \<in> set [Queued, Scheduled, Retrying] \<longleftrightarrow> is_leaseable s"
    by (simp add: is_leaseable_def)
  show ?thesis
    unfolding row_ok_def limits_kept_def row_checks_def lease_consistent_def
      attempts_bounded_def completion_recorded_def status_in_known [OF assms] lease
    unfolding assms as_str_inj
    using every by auto
qed

lemma row_ok_new_row: "normalized_ok z \<Longrightarrow> row_ok (new_row now i z)"
  by (subst row_ok_iff [of _ "z_status z"]) (auto simp: new_row_def normalized_ok_def)

text \<open>Each column update under the guard of its statement.\<close>

lemma row_ok_lease:
  assumes "row_ok r" and "status_in r [Queued, Scheduled, Retrying]"
  shows "row_ok (lease_set now w secs r)"
proof -
  from assms(2) obtain s where s: "has_status r s" "is_leaseable s"
    by (auto simp: is_leaseable_def)
  with assms(1) show ?thesis
    by (subst row_ok_iff [of _ Processing]) (auto simp: row_ok_iff [OF s(1)] lease_set_def is_leaseable_def)
qed

lemma row_ok_cancel:
  assumes "row_ok r" and "status_in r [Queued, Scheduled, Retrying, Processing]"
  shows "row_ok (cancel_set now r)"
proof -
  from assms(2) obtain s where s: "has_status r s" "s \<noteq> Completed" by auto
  with assms(1) show ?thesis
    by (subst row_ok_iff [of _ Cancelled])
      (auto simp: row_ok_iff [OF s(1)] cancel_set_def clear_lock_def is_leaseable_def)
qed

lemma row_ok_retry:
  assumes "row_ok r" and "status_in r [Failed, DeadLettered]"
  shows "row_ok (retry_set now r)"
proof -
  from assms(2) obtain s where s: "has_status r s" "s \<noteq> Completed" by auto
  with assms(1) show ?thesis
    by (subst row_ok_iff [of _ Queued])
      (auto simp: row_ok_iff [OF s(1)] retry_set_def clear_lock_def is_leaseable_def)
qed

lemma row_ok_complete:
  assumes "row_ok r" and "has_status r Processing"
  shows "row_ok (complete_set now res r)"
  using assms
  by (subst row_ok_iff [of _ Completed])
    (auto simp: row_ok_iff [OF assms(2)] complete_set_def clear_lock_def is_leaseable_def)

lemma row_ok_renew:
  assumes "row_ok r" and "has_status r Processing"
  shows "row_ok (renew_set now secs r)"
  using assms
  by (subst row_ok_iff [of _ Processing]) (auto simp: row_ok_iff [OF assms(2)] renew_set_def)

text \<open>The outcomes of a failed attempt clear the lock and keep the counters.\<close>

definition ends_attempt :: "job_status \<Rightarrow> 'j job_row \<Rightarrow> 'j job_row \<Rightarrow> bool" where
  "ends_attempt s r r' \<longleftrightarrow>
    has_status r' s \<and> r_locked_by r' = None \<and> r_locked_at r' = None \<and>
    r_lease_expires_at r' = None \<and> r_attempts r' = r_attempts r \<and>
    r_max_attempts r' = r_max_attempts r \<and> r_timeout_secs r' = r_timeout_secs r \<and>
    r_backoff_base_secs r' = r_backoff_base_secs r \<and>
    r_backoff_max_secs r' = r_backoff_max_secs r \<and> r_completed_at r' = r_completed_at r \<and>
    r_result r' = r_result r"

lemma ends_attempt_set [simp]:
  "ends_attempt DeadLettered r (dead_letter_set now e r)"
  "ends_attempt Failed r (failed_set now e r)"
  "ends_attempt Retrying r (retrying_set now e d r)"
  "ends_attempt Retrying r (expired_retry_set now r)"
  "ends_attempt DeadLettered r (expired_dead_letter_set now r)"
  "ends_attempt Failed r (expired_failed_set now r)"
  by (simp_all add: ends_attempt_def row_updates)

lemma row_ok_ends_attempt:
  assumes "ends_attempt s r r'" and "row_ok r" and "has_status r Processing"
    and "s \<in> {DeadLettered, Failed} \<or> s = Retrying \<and> r_attempts r < r_max_attempts r"
  shows "row_ok r'"
proof -
  have "has_status r' s" using assms(1) by (simp add: ends_attempt_def)
  then show ?thesis
    using assms by (auto simp: row_ok_iff [of r' s] row_ok_iff [of r Processing] ends_attempt_def
        is_leaseable_def)
qed

text \<open>No column update touches the identity of the job.\<close>

definition same_identity :: "'j job_row \<Rightarrow> 'j job_row \<Rightarrow> bool" where
  "same_identity r r' \<longleftrightarrow>
    r_id r' = r_id r \<and> r_queue r' = r_queue r \<and> r_idempotency_key r' = r_idempotency_key r"

lemma same_identity_set [simp]:
  "same_identity r (cancel_set now r)" "same_identity r (retry_set now r)"
  "same_identity r (lease_set now w s r)" "same_identity r (complete_set now res r)"
  "same_identity r (dead_letter_set now e r)" "same_identity r (failed_set now e r)"
  "same_identity r (retrying_set now e d r)" "same_identity r (renew_set now s r)"
  "same_identity r (expired_retry_set now r)" "same_identity r (expired_dead_letter_set now r)"
  "same_identity r (expired_failed_set now r)"
  by (simp_all add: same_identity_def row_updates)

lemma same_identity_refl [simp]: "same_identity r r"
  by (simp add: same_identity_def)

lemma same_identityD:
  "same_identity r r' \<Longrightarrow> r_id r' = r_id r"
  "same_identity r r' \<Longrightarrow> r_queue r' = r_queue r"
  "same_identity r r' \<Longrightarrow> r_idempotency_key r' = r_idempotency_key r"
  by (simp_all add: same_identity_def)

section \<open>The database\<close>

definition keys_unique :: "'j job_row list \<Rightarrow> bool" where
  "keys_unique rows \<longleftrightarrow>
    (\<forall>r \<in> set rows. \<forall>s \<in> set rows.
      r_idempotency_key r \<noteq> None \<and> r_idempotency_key r = r_idempotency_key s \<and>
      r_queue r = r_queue s \<longrightarrow> r_id r = r_id s)"

lemma keys_uniqueD:
  "keys_unique rows \<Longrightarrow> r \<in> set rows \<Longrightarrow> s \<in> set rows \<Longrightarrow> r_idempotency_key r \<noteq> None \<Longrightarrow>
   r_idempotency_key r = r_idempotency_key s \<Longrightarrow> r_queue r = r_queue s \<Longrightarrow> r_id r = r_id s"
  unfolding keys_unique_def by blast

definition jobs_ok :: "queue_row list \<Rightarrow> 'j job_row list \<Rightarrow> bool" where
  "jobs_ok qs rows \<longleftrightarrow>
    distinct (map r_id rows) \<and> keys_unique rows \<and>
    (\<forall>r \<in> set rows. row_ok r \<and> r_queue r \<in> q_name ` set qs)"

definition attempt_rows_ok :: "int \<Rightarrow> 'j job_row list \<Rightarrow> attempt_row list \<Rightarrow> bool" where
  "attempt_rows_ok seq rows atts \<longleftrightarrow>
    distinct (map a_id atts) \<and>
    (\<forall>a \<in> set atts. a_id a < seq \<and> a_job_id a \<in> r_id ` set rows)"

definition db_ok :: "'j db \<Rightarrow> bool" where
  "db_ok db \<longleftrightarrow>
    distinct (map q_name (queues db)) \<and> distinct (map w_id (workers db)) \<and>
    distinct (map dl_id (dead_letter_jobs db)) \<and>
    jobs_ok (queues db) (jobs db) \<and>
    attempt_rows_ok (attempt_seq db) (jobs db) (job_attempts db)"

lemma db_ok_jobs: "db_ok db \<Longrightarrow> jobs_ok (queues db) (jobs db)"
  by (simp add: db_ok_def)

lemma jobs_ok_distinct: "jobs_ok qs rows \<Longrightarrow> distinct (map r_id rows)"
  by (simp add: jobs_ok_def)

lemma jobs_ok_row: "jobs_ok qs rows \<Longrightarrow> r \<in> set rows \<Longrightarrow> row_ok r"
  by (simp add: jobs_ok_def)

lemma db_ok_distinct: "db_ok db \<Longrightarrow> distinct (map r_id (jobs db))"
  by (simp add: db_ok_def jobs_ok_def)

lemma db_ok_row: "db_ok db \<Longrightarrow> r \<in> set (jobs db) \<Longrightarrow> row_ok r"
  by (simp add: db_ok_def jobs_ok_def)

lemma db_ok_into_job: "db_ok db \<Longrightarrow> r \<in> set (jobs db) \<Longrightarrow> into_job r = Ok (job_of r)"
  by (simp add: db_ok_row row_ok_into_job)

lemma db_ok_find:
  "db_ok db \<Longrightarrow> find_by r_id i (jobs db) = Some r \<longleftrightarrow> r \<in> set (jobs db) \<and> r_id r = i"
  by (simp add: find_by_distinct db_ok_distinct)

lemma db_ok_same_id:
  "db_ok db \<Longrightarrow> r \<in> set (jobs db) \<Longrightarrow> s \<in> set (jobs db) \<Longrightarrow> r_id r = r_id s \<Longrightarrow> r = s"
  by (metis db_ok_distinct distinct_key_eq)

lemma db_ok_empty: "db_ok empty_db"
  by (simp add: db_ok_def empty_db_def jobs_ok_def attempt_rows_ok_def keys_unique_def)

text \<open>An \<open>UPDATE jobs\<close> whose assignments keep the row invariant keeps the database invariant.\<close>

lemma ids_update_where:
  assumes "\<And>r. r \<in> set rows \<Longrightarrow> p r \<Longrightarrow> same_identity r (f r)"
  shows "map r_id (update_where p f rows) = map r_id rows"
  using assms by (intro map_key_update_where) (auto dest: same_identityD)

lemma id_image_update_where:
  assumes "\<And>r. r \<in> set rows \<Longrightarrow> p r \<Longrightarrow> same_identity r (f r)"
  shows "r_id ` set (update_where p f rows) = r_id ` set rows"
  by (metis assms ids_update_where list.set_map)

lemma keys_unique_update_where:
  assumes "keys_unique rows" and "\<And>r. r \<in> set rows \<Longrightarrow> p r \<Longrightarrow> same_identity r (f r)"
  shows "keys_unique (update_where p f rows)"
proof -
  have step: "\<exists>r \<in> set rows. same_identity r x" if "x \<in> set (update_where p f rows)" for x
    using that assms(2) same_identity_refl unfolding set_update_where by metis
  show ?thesis
    unfolding keys_unique_def
  proof (intro ballI impI)
    fix x y
    assume "x \<in> set (update_where p f rows)" "y \<in> set (update_where p f rows)"
      and eq: "r_idempotency_key x \<noteq> None \<and> r_idempotency_key x = r_idempotency_key y \<and>
        r_queue x = r_queue y"
    then obtain r s where "r \<in> set rows" "same_identity r x" "s \<in> set rows" "same_identity s y"
      using step by blast
    then show "r_id x = r_id y"
      using eq keys_uniqueD [OF assms(1), of r s] by (auto simp add: same_identity_def)
  qed
qed

lemma jobs_ok_update_where:
  assumes "jobs_ok qs rows"
    and "\<And>r. r \<in> set rows \<Longrightarrow> p r \<Longrightarrow> same_identity r (f r)"
    and "\<And>r. r \<in> set rows \<Longrightarrow> p r \<Longrightarrow> row_ok r \<Longrightarrow> row_ok (f r)"
  shows "jobs_ok qs (update_where p f rows)"
proof -
  have "row_ok x \<and> r_queue x \<in> q_name ` set qs" if "x \<in> set (update_where p f rows)" for x
  proof -
    from that obtain r where r: "r \<in> set rows" "p r \<and> x = f r \<or> \<not> p r \<and> x = r"
      unfolding set_update_where by blast
    moreover from r(1) assms(1) have "row_ok r" "r_queue r \<in> q_name ` set qs"
      by (simp_all add: jobs_ok_def)
    ultimately show ?thesis
      using assms(2,3) [OF r(1)] by (auto simp: same_identity_def)
  qed
  moreover have "map r_id (update_where p f rows) = map r_id rows"
    using assms(2) by (rule ids_update_where)
  moreover have "keys_unique (update_where p f rows)"
    using assms(1,2) by (simp add: jobs_ok_def keys_unique_update_where)
  ultimately show ?thesis
    using assms(1) by (simp add: jobs_ok_def)
qed

lemma db_ok_update_jobs:
  assumes "db_ok db"
    and "\<And>r. r \<in> set (jobs db) \<Longrightarrow> p r \<Longrightarrow> same_identity r (f r)"
    and "\<And>r. r \<in> set (jobs db) \<Longrightarrow> p r \<Longrightarrow> row_ok r \<Longrightarrow> row_ok (f r)"
  shows "db_ok (db\<lparr>jobs := update_where p f (jobs db)\<rparr>)"
  using assms
  by (simp add: db_ok_def jobs_ok_update_where attempt_rows_ok_def id_image_update_where)

text \<open>The other tables are independent of the jobs.\<close>

lemma db_ok_update_attempts:
  assumes "db_ok db" and "\<And>a. a_id (f a) = a_id a" and "\<And>a. a_job_id (f a) = a_job_id a"
  shows "db_ok (db\<lparr>job_attempts := update_where p f (job_attempts db)\<rparr>)"
  using assms
  by (auto simp: db_ok_def attempt_rows_ok_def set_update_where
      map_key_update_where [of "job_attempts db" p a_id f])

lemma db_ok_dead_letters:
  assumes "db_ok db" and "distinct (map dl_id ds)"
  shows "db_ok (db\<lparr>dead_letter_jobs := ds\<rparr>)"
  using assms by (simp add: db_ok_def)

lemma db_ok_workers:
  assumes "db_ok db" and "distinct (map w_id ws)"
  shows "db_ok (db\<lparr>workers := ws\<rparr>)"
  using assms by (simp add: db_ok_def)

lemma distinct_insert_dead_letter:
  "distinct (map dl_id ds) \<Longrightarrow> distinct (map dl_id (insert_dead_letter d ds))"
  by (auto simp: insert_dead_letter_def)

lemma distinct_foldl_insert_dead_letter:
  "distinct (map dl_id ds) \<Longrightarrow>
   distinct (map dl_id (foldl (\<lambda>rows r. insert_dead_letter (g r) rows) ds rs))"
  by (induction rs arbitrary: ds) (simp_all add: distinct_insert_dead_letter)

lemma attempt_update_keeps [simp]:
  "a_id (succeed_attempt now a) = a_id a" "a_job_id (succeed_attempt now a) = a_job_id a"
  "a_id (fail_attempt now s e a) = a_id a" "a_job_id (fail_attempt now s e a) = a_job_id a"
  "a_id (expire_attempt now a) = a_id a" "a_job_id (expire_attempt now a) = a_job_id a"
  by (simp_all add: succeed_attempt_def fail_attempt_def expire_attempt_def)

end
