(* ===== verification/Pg_Ops.thy ===== *)
theory Pg_Ops
  imports Pg_Invariant
begin

text \<open>
  The behaviour of each \<open>PgStore\<close> method on a well-formed database, on every branch: the row found by
  its id decides the result and the change, and the invariant is kept.
\<close>

section \<open>Updates through the primary key\<close>

definition update_job :: "uuid \<Rightarrow> ('j job_row \<Rightarrow> 'j job_row) \<Rightarrow> 'j db \<Rightarrow> 'j db" where
  "update_job i f db = db\<lparr>jobs := update_where (\<lambda>x. r_id x = i) f (jobs db)\<rparr>"

abbreviation row_of :: "uuid \<Rightarrow> 'j db \<Rightarrow> 'j job_row option" where
  "row_of i db \<equiv> find_by r_id i (jobs db)"

abbreviation status_of :: "'j job_row \<Rightarrow> job_status" where
  "status_of r \<equiv> j_status (job_of r)"

lemma update_where_none:
  "(\<And>r. r \<in> set rows \<Longrightarrow> \<not> p r) \<Longrightarrow> update_where p f rows = rows"
  by (induction rows) auto

lemma update_where_cong:
  "(\<And>r. r \<in> set rows \<Longrightarrow> p r = q r) \<Longrightarrow> update_where p f rows = update_where q f rows"
  by (induction rows) auto

lemma row_of_in: "row_of i db = Some r \<Longrightarrow> r \<in> set (jobs db) \<and> r_id r = i"
  by (rule find_by_SomeD)

lemma status_of_row: "row_ok r \<Longrightarrow> has_status r (status_of r)"
  using row_ok_has_status into_job_has_status by metis

lemma status_in_status_of: "row_ok r \<Longrightarrow> status_in r ss \<longleftrightarrow> status_of r \<in> set ss"
  by (simp add: status_in_known status_of_row)

lemma has_status_iff: "row_ok r \<Longrightarrow> has_status r s \<longleftrightarrow> status_of r = s"
  using status_of_row by fastforce

lemma select_row:
  assumes "db_ok db"
  shows "select_where (\<lambda>x. r_id x = i \<and> q x) (jobs db) =
    (case row_of i db of Some r \<Rightarrow> if q r then [r] else [] | None \<Rightarrow> [])"
  by (rule select_by_key_distinct) (rule db_ok_distinct [OF assms])

lemma update_row:
  assumes "db_ok db"
  shows "db\<lparr>jobs := update_where (\<lambda>x. r_id x = i \<and> q x) f (jobs db)\<rparr> =
    (case row_of i db of
       Some r \<Rightarrow> if q r then update_job i f db else db
     | None \<Rightarrow> db)"
proof (cases "row_of i db")
  case None
  then have "\<not> (r_id r = i \<and> q r)" if "r \<in> set (jobs db)" for r
    using that by (auto simp: find_by_None_iff)
  then have "update_where (\<lambda>x. r_id x = i \<and> q x) f (jobs db) = jobs db"
    by (rule update_where_none)
  with None show ?thesis by simp
next
  case (Some r)
  then have only: "x = r" if "x \<in> set (jobs db)" "r_id x = i" for x
    using that assms by (metis db_ok_same_id row_of_in)
  show ?thesis
  proof (cases "q r")
    case True
    then have "update_where (\<lambda>x. r_id x = i \<and> q x) f (jobs db) =
        update_where (\<lambda>x. r_id x = i) f (jobs db)"
      using only by (intro update_where_cong) auto
    with Some True show ?thesis by (simp add: update_job_def)
  next
    case False
    then have "update_where (\<lambda>x. r_id x = i \<and> q x) f (jobs db) = jobs db"
      using only by (intro update_where_none) auto
    with Some False show ?thesis by simp
  qed
qed

lemma fetch_job_eq:
  assumes "db_ok db"
  shows "fetch_job i db = Ok (map_option job_of (row_of i db))"
proof (cases "row_of i db")
  case None
  then show ?thesis by (simp add: fetch_job_def)
next
  case (Some r)
  then have "into_job r = Ok (job_of r)"
    using assms row_of_in db_ok_into_job by blast
  with Some show ?thesis by (simp add: fetch_job_def)
qed

lemma row_of_update_job:
  assumes "\<And>r. same_identity r (f r)"
  shows "row_of j (update_job i f db) = (if j = i then map_option f (row_of i db) else row_of j db)"
proof -
  have "row_of j (update_job i f db) = map_option (\<lambda>r. if r_id r = i then f r else r) (row_of j db)"
    unfolding update_job_def
    using find_by_update_where [of "jobs db" r_id f j "\<lambda>x. r_id x = i"] assms
    by (simp add: same_identityD)
  then show ?thesis
    by (auto simp: map_option_case split: option.splits dest: row_of_in)
qed

lemma db_ok_update_job:
  assumes "db_ok db" and "\<And>r. same_identity r (f r)"
    and "\<And>r. row_of i db = Some r \<Longrightarrow> row_ok r \<Longrightarrow> row_ok (f r)"
  shows "db_ok (update_job i f db)"
  unfolding update_job_def
proof (rule db_ok_update_jobs [OF assms(1)])
  fix r assume "r \<in> set (jobs db)" and "r_id r = i"
  then have "row_of i db = Some r" by (simp add: db_ok_find [OF assms(1)])
  then show "row_ok r \<Longrightarrow> row_ok (f r)" by (rule assms(3))
qed (rule assms(2))

lemma update_job_tables [simp]:
  "queues (update_job i f db) = queues db" "workers (update_job i f db) = workers db"
  "job_attempts (update_job i f db) = job_attempts db"
  "dead_letter_jobs (update_job i f db) = dead_letter_jobs db"
  "attempt_seq (update_job i f db) = attempt_seq db"
  by (simp_all add: update_job_def)

lemma row_of_other_tables [simp]:
  "row_of i (db\<lparr>job_attempts := x\<rparr>) = row_of i db"
  "row_of i (db\<lparr>dead_letter_jobs := y\<rparr>) = row_of i db"
  "row_of i (db\<lparr>workers := z\<rparr>) = row_of i db"
  "row_of i (db\<lparr>queues := q\<rparr>) = row_of i db"
  "row_of i (db\<lparr>attempt_seq := n\<rparr>) = row_of i db"
  by simp_all

section \<open>Operator actions\<close>

lemma explain_unmatched_eq:
  assumes "db_ok db"
  shows "explain_unmatched op i db =
    (case row_of i db of
       None \<Rightarrow> Err (JobNotFound i)
     | Some r \<Rightarrow> Err (InvalidOperation op (status_of r)))"
  by (simp add: explain_unmatched_def fetch_job_eq [OF assms] split: option.splits)

lemma lease_lost_error_eq:
  assumes "db_ok db"
  shows "lease_lost_error i w op db =
    (case row_of i db of
       None \<Rightarrow> Err (JobNotFound i)
     | Some r \<Rightarrow> Err (InvalidOperation op (status_of r)))"
  by (simp add: lease_lost_error_def fetch_job_eq [OF assms] split: option.splits)

lemma cancel_status_in:
  "row_ok r \<Longrightarrow> status_in r [Queued, Scheduled, Retrying, Processing] \<longleftrightarrow> is_cancellable (status_of r)"
  by (simp only: status_in_status_of) (auto simp: is_cancellable_def)

lemma cancel_job_eq:
  assumes "db_ok db"
  shows "cancel_job env i db =
    (case row_of i db of
       None \<Rightarrow> (Err (JobNotFound i), db)
     | Some r \<Rightarrow>
         if is_cancellable (status_of r)
         then (Ok (job_of (cancel_set (pe_now env) r)), update_job i (cancel_set (pe_now env)) db)
         else (Err (InvalidOperation ''cancel'' (status_of r)), db))"
proof (cases "row_of i db")
  case None
  then show ?thesis
    by (simp add: cancel_job_def cancel_matches_def [abs_def] select_row [OF assms]
        update_row [OF assms] explain_unmatched_eq [OF assms])
next
  case (Some r)
  then have ok: "row_ok r" using assms row_of_in db_ok_row by blast
  show ?thesis
  proof (cases "is_cancellable (status_of r)")
    case True
    with ok have "status_in r [Queued, Scheduled, Retrying, Processing]"
      by (simp only: cancel_status_in)
    with ok have "row_ok (cancel_set (pe_now env) r)"
      by (rule row_ok_cancel)
    with Some True ok show ?thesis
      by (simp add: cancel_job_def cancel_matches_def [abs_def] select_row [OF assms]
          update_row [OF assms] cancel_status_in row_ok_into_job Let_def del: status_in_Cons)
  next
    case False
    with Some ok show ?thesis
      by (simp add: cancel_job_def cancel_matches_def [abs_def] select_row [OF assms]
          update_row [OF assms] explain_unmatched_eq [OF assms] cancel_status_in del: status_in_Cons)
  qed
qed

lemma db_ok_cancel_job [store_preserves]:
  assumes "db_ok db"
  shows "db_ok (snd (cancel_job env i db))"
proof -
  have "db_ok (update_job i (cancel_set (pe_now env)) db)"
    if r: "row_of i db = Some r" "is_cancellable (status_of r)" for r
  proof (rule db_ok_update_job [OF assms])
    fix r' assume "row_of i db = Some r'" and ok: "row_ok r'"
    with r have "status_in r' [Queued, Scheduled, Retrying, Processing]"
      by (simp only: cancel_status_in option.inject)
    with ok show "row_ok (cancel_set (pe_now env) r')" by (rule row_ok_cancel)
  qed simp
  then show ?thesis
    using assms by (auto simp: cancel_job_eq split: option.splits)
qed

lemma retry_status_in:
  "row_ok r \<Longrightarrow> status_in r [Failed, DeadLettered] \<longleftrightarrow> status_of r \<in> {Failed, DeadLettered}"
  by (simp only: status_in_status_of) auto

lemma retry_job_eq:
  assumes "db_ok db"
  shows "retry_job env i db =
    (case row_of i db of
       None \<Rightarrow> (Err (JobNotFound i), db)
     | Some r \<Rightarrow>
         if status_of r \<in> {Failed, DeadLettered}
         then (Ok (job_of (retry_set (pe_now env) r)),
               delete_dead_letter i (update_job i (retry_set (pe_now env)) db))
         else (Err (InvalidOperation ''retry'' (status_of r)), db))"
proof (cases "row_of i db")
  case None
  then show ?thesis
    by (simp add: retry_job_def retry_matches_def [abs_def] select_row [OF assms]
        update_row [OF assms] explain_unmatched_eq [OF assms])
next
  case (Some r)
  then have ok: "row_ok r" using assms row_of_in db_ok_row by blast
  show ?thesis
  proof (cases "status_of r \<in> {Failed, DeadLettered}")
    case True
    with ok have "status_in r [Failed, DeadLettered]"
      by (simp only: retry_status_in)
    with ok have "row_ok (retry_set (pe_now env) r)"
      by (rule row_ok_retry)
    with Some True ok show ?thesis
      by (simp add: retry_job_def retry_matches_def [abs_def] select_row [OF assms]
          update_row [OF assms] retry_status_in row_ok_into_job Let_def del: status_in_Cons)
  next
    case False
    with Some ok show ?thesis
      by (simp add: retry_job_def retry_matches_def [abs_def] select_row [OF assms]
          update_row [OF assms] explain_unmatched_eq [OF assms] retry_status_in del: status_in_Cons)
  qed
qed

lemma db_ok_delete_dead_letter: "db_ok db \<Longrightarrow> db_ok (delete_dead_letter i db)"
  unfolding delete_dead_letter_def
  by (rule db_ok_dead_letters) (simp_all add: db_ok_def distinct_map_delete_where)

lemma db_ok_retry_set:
  assumes "db_ok db" and "row_of i db = Some r" and "status_of r \<in> {Failed, DeadLettered}"
  shows "db_ok (update_job i (retry_set now) db)"
proof (rule db_ok_update_job [OF assms(1)])
  fix r' assume "row_of i db = Some r'" and ok: "row_ok r'"
  with assms have "status_in r' [Failed, DeadLettered]"
    by (simp only: retry_status_in option.inject)
  with ok show "row_ok (retry_set now r')" by (rule row_ok_retry)
qed simp

lemma db_ok_retry_job [store_preserves]:
  assumes "db_ok db"
  shows "db_ok (snd (retry_job env i db))"
  using assms
  by (auto simp: retry_job_eq intro: db_ok_retry_set db_ok_delete_dead_letter split: option.splits)

section \<open>Purging\<close>

lemma db_ok_purge_finished [store_preserves]:
  assumes "db_ok db"
  shows "db_ok (snd (purge_finished t db))"
proof -
  let ?jobs = "delete_where (purge_matches t) (jobs db)"
  let ?gone = "r_id ` set (select_where (purge_matches t) (jobs db))"
  have jobs: "jobs_ok (queues db) ?jobs"
    using assms by (auto simp: db_ok_def jobs_ok_def keys_unique_def distinct_map_delete_where)
  have "a_job_id a \<in> r_id ` set ?jobs"
    if "a \<in> set (job_attempts db)" "a_job_id a \<notin> ?gone" for a
  proof -
    from that(1) assms obtain r where r: "r \<in> set (jobs db)" "r_id r = a_job_id a"
      by (auto simp: db_ok_def attempt_rows_ok_def)
    with that(2) have "\<not> purge_matches t r" by (metis (mono_tags) image_eqI mem_Collect_eq set_select_where)
    with r show ?thesis by (auto intro!: image_eqI [of _ r_id r])
  qed
  with assms jobs show ?thesis
    by (auto simp: purge_finished_def db_ok_def attempt_rows_ok_def distinct_map_delete_where Let_def)
qed

lemma find_by_delete_where:
  assumes "distinct (map k rows)"
  shows "find_by k x (delete_where p rows) =
    (case find_by k x rows of Some r \<Rightarrow> if p r then None else Some r | None \<Rightarrow> None)"
proof (cases "find_by k x rows")
  case None
  then have "find_by k x (delete_where p rows) = None"
    by (auto simp: find_by_None_iff)
  with None show ?thesis by simp
next
  case (Some r)
  then have r: "r \<in> set rows" "k r = x" by (auto dest: find_by_SomeD)
  show ?thesis
  proof (cases "p r")
    case True
    have "x \<notin> k ` set (delete_where p rows)"
    proof
      assume "x \<in> k ` set (delete_where p rows)"
      then obtain y where y: "y \<in> set rows" "\<not> p y" "k y = x" by auto
      then have "y = r" using r by (intro distinct_key_eq [OF assms]) simp_all
      with y True show False by simp
    qed
    then have "find_by k x (delete_where p rows) = None" by (simp only: find_by_None_iff not_False_eq_True)
    with Some True show ?thesis by simp
  next
    case False
    with r have "find_by k x (delete_where p rows) = Some r"
      using assms by (simp add: find_by_distinct distinct_map_delete_where)
    with Some False show ?thesis by simp
  qed
qed

lemma row_of_purge:
  assumes "db_ok db"
  shows "row_of i (snd (purge_finished t db)) =
    (case row_of i db of
       Some r \<Rightarrow> if purge_matches t r then None else Some r
     | None \<Rightarrow> None)"
  using find_by_delete_where [OF db_ok_distinct [OF assms]]
  by (simp add: purge_finished_def Let_def)

section \<open>Leasing\<close>

lemma lease_candidate_SomeD:
  assumes "lease_candidate env qs db = Some c"
  shows "c \<in> set (jobs db)" and "lease_eligible env qs db c"
    and "\<And>r. r \<in> set (jobs db) \<Longrightarrow> lease_eligible env qs db r \<Longrightarrow> lease_key c \<le> lease_key r"
proof -
  have first: "fetch_optional (order_by lease_key
      (select_where (lease_eligible env qs db) (jobs db))) = Some c"
    using assms by (simp add: lease_candidate_def)
  then have "c \<in> set (select_where (lease_eligible env qs db) (jobs db))"
    by (metis fetch_optional_Some_in set_order_by)
  then show "c \<in> set (jobs db)" and "lease_eligible env qs db c" by simp_all
  show "lease_key c \<le> lease_key r"
    if "r \<in> set (jobs db)" "lease_eligible env qs db r" for r
    using fetch_ordered_least [OF first] that by simp
qed

lemma lease_candidate_None_iff:
  "lease_candidate env qs db = None \<longleftrightarrow> (\<forall>r \<in> set (jobs db). \<not> lease_eligible env qs db r)"
  by (auto simp: lease_candidate_def select_where_def filter_empty_conv)

lemma lease_next_eq:
  assumes "db_ok db"
  shows "lease_next env w qs secs db =
    (case lease_candidate env qs db of
       None \<Rightarrow> (Ok None, db)
     | Some c \<Rightarrow>
         let j = job_of (lease_set (pe_now env) w secs c)
         in (Ok (Some j),
             (update_job (r_id c) (lease_set (pe_now env) w secs) db)
               \<lparr>job_attempts := job_attempts db @ [running_attempt (pe_now env) w j (attempt_seq db)],
                attempt_seq := attempt_seq db + 1\<rparr>))"
proof (cases "lease_candidate env qs db")
  case None
  then show ?thesis by (simp add: lease_next_def)
next
  case (Some c)
  then have c: "c \<in> set (jobs db)" "lease_eligible env qs db c"
    by (blast dest: lease_candidate_SomeD)+
  then have found: "row_of (r_id c) db = Some c"
    by (simp add: db_ok_find [OF assms])
  have "row_ok (lease_set (pe_now env) w secs c)"
    using c db_ok_row [OF assms] by (intro row_ok_lease) (simp_all add: lease_eligible_def)
  then have into: "into_job (lease_set (pe_now env) w secs c) =
      Ok (job_of (lease_set (pe_now env) w secs c))"
    by (rule row_ok_into_job)
  have sel: "select_where (\<lambda>r. r_id r = r_id c) (jobs db) = [c]"
    using select_row [OF assms, of "r_id c" "\<lambda>_. True"] found by simp
  show ?thesis
    using Some by (simp add: lease_next_def sel into update_job_def Let_def)
qed

lemma db_ok_lease_row:
  assumes "db_ok db" and "lease_candidate env qs db = Some c"
  shows "db_ok (update_job (r_id c) (lease_set now w secs) db)"
proof (rule db_ok_update_job [OF assms(1)])
  fix r assume "row_of (r_id c) db = Some r" and "row_ok r"
  moreover have "c \<in> set (jobs db)" "lease_eligible env qs db c"
    using assms(2) by (blast dest: lease_candidate_SomeD)+
  ultimately show "row_ok (lease_set now w secs r)"
    by (metis assms(1) db_ok_same_id lease_eligible_def row_of_in row_ok_lease)
qed simp

lemma db_ok_add_attempt:
  assumes "db_ok db" and "a_job_id a \<in> r_id ` set (jobs db)" and "a_id a = attempt_seq db"
  shows "db_ok (db\<lparr>job_attempts := job_attempts db @ [a], attempt_seq := attempt_seq db + 1\<rparr>)"
  using assms by (fastforce simp: db_ok_def attempt_rows_ok_def)

lemma id_image_update_job:
  assumes "\<And>r. same_identity r (f r)"
  shows "r_id ` set (jobs (update_job i f db)) = r_id ` set (jobs db)"
  unfolding update_job_def using assms by (simp add: id_image_update_where)

lemma db_ok_lease_next [store_preserves]:
  assumes "db_ok db"
  shows "db_ok (snd (lease_next env w qs secs db))"
proof (cases "lease_candidate env qs db")
  case None
  then show ?thesis using assms by (simp add: lease_next_def)
next
  case (Some c)
  let ?db = "update_job (r_id c) (lease_set (pe_now env) w secs) db"
  let ?j = "job_of (lease_set (pe_now env) w secs c)"
  have "c \<in> set (jobs db)"
    using Some by (blast dest: lease_candidate_SomeD)
  moreover have "has_status (lease_set (pe_now env) w secs c) Processing"
    by (simp add: lease_set_def)
  then have "j_id ?j = r_id c"
    by (simp add: job_of_fields) (simp add: lease_set_def)
  ultimately have "j_id ?j \<in> r_id ` set (jobs ?db)"
    by (simp add: id_image_update_job)
  then have "db_ok (?db\<lparr>job_attempts := job_attempts ?db @ [running_attempt (pe_now env) w ?j
      (attempt_seq ?db)], attempt_seq := attempt_seq ?db + 1\<rparr>)"
    by (intro db_ok_add_attempt db_ok_lease_row [OF assms Some]) (simp_all add: running_attempt_def)
  with Some show ?thesis by (simp add: lease_next_eq [OF assms] Let_def)
qed

section \<open>Completion and renewal\<close>

lemma held_by_split: "held_by i w = (\<lambda>r. r_id r = i \<and> (r_locked_by r = Some w \<and> has_status r Processing))"
  by (auto simp: held_by_def)

lemma complete_job_eq:
  assumes "db_ok db"
  shows "complete_job env i w res db =
    (case row_of i db of
       None \<Rightarrow> (Err (JobNotFound i), db)
     | Some r \<Rightarrow>
         if held_by i w r
         then (Ok (job_of (complete_set (pe_now env) res r)),
               (update_job i (complete_set (pe_now env) res) db)
                 \<lparr>job_attempts := update_where (running_of i) (succeed_attempt (pe_now env))
                   (job_attempts db)\<rparr>)
         else (Err (InvalidOperation ''complete'' (status_of r)), db))"
proof (cases "row_of i db")
  case None
  then show ?thesis
    by (simp add: complete_job_def held_by_split select_row [OF assms]
        lease_lost_error_eq [OF assms])
next
  case (Some r)
  then have ok: "row_ok r" and ri: "r_id r = i"
    using assms row_of_in db_ok_row by blast+
  show ?thesis
  proof (cases "held_by i w r")
    case True
    then have "row_ok (complete_set (pe_now env) res r)"
      using ok by (intro row_ok_complete) (simp_all add: held_by_def)
    then have "into_job (complete_set (pe_now env) res r) =
        Ok (job_of (complete_set (pe_now env) res r))"
      by (rule row_ok_into_job)
    with Some True show ?thesis
      using update_row [OF assms, of i "\<lambda>r. r_locked_by r = Some w \<and> has_status r Processing"
          "complete_set (pe_now env) res"]
      by (simp add: complete_job_def held_by_split select_row [OF assms] update_job_def Let_def)
  next
    case False
    with ri have free: "\<not> (r_locked_by r = Some w \<and> has_status r Processing)"
      by (simp add: held_by_def)
    have "select_where (held_by i w) (jobs db) = []"
      using Some free by (simp only: held_by_split select_row [OF assms] option.case if_False)
    with Some False show ?thesis
      by (simp add: complete_job_def lease_lost_error_eq [OF assms])
  qed
qed

lemma db_ok_complete_job [store_preserves]:
  assumes "db_ok db"
  shows "db_ok (snd (complete_job env i w res db))"
proof -
  have "db_ok (update_job i (complete_set (pe_now env) res) db)"
    if "row_of i db = Some r" "held_by i w r" for r
    using that
    by (intro db_ok_update_job [OF assms]) (auto simp: held_by_def intro: row_ok_complete)
  then have "db_ok ((update_job i (complete_set (pe_now env) res) db)
      \<lparr>job_attempts := update_where (running_of i) (succeed_attempt (pe_now env)) (job_attempts db)\<rparr>)"
    if "row_of i db = Some r" "held_by i w r" for r
    using that db_ok_update_attempts [of "update_job i (complete_set (pe_now env) res) db"]
    by simp
  with assms show ?thesis
    by (auto simp: complete_job_eq split: option.splits)
qed

lemma renew_lease_eq:
  assumes "db_ok db"
  shows "renew_lease env i w secs db =
    (case row_of i db of
       None \<Rightarrow> (Err (InvalidOperation ''renew_lease'' Processing), db)
     | Some r \<Rightarrow>
         if held_by i w r then (Ok (), update_job i (renew_set (pe_now env) secs) db)
         else (Err (InvalidOperation ''renew_lease'' Processing), db))"
proof (cases "row_of i db")
  case None
  then show ?thesis
    by (simp add: renew_lease_def held_by_split select_row [OF assms])
next
  case (Some r)
  then have "r_id r = i" using row_of_in by blast
  with Some show ?thesis
    by (simp add: renew_lease_def held_by_split select_row [OF assms] update_row [OF assms])
qed

lemma db_ok_renew_lease [store_preserves]:
  assumes "db_ok db"
  shows "db_ok (snd (renew_lease env i w secs db))"
proof -
  have "db_ok (update_job i (renew_set (pe_now env) secs) db)"
    if "row_of i db = Some r" "held_by i w r" for r
    using that
    by (intro db_ok_update_job [OF assms]) (auto simp: held_by_def intro: row_ok_renew)
  with assms show ?thesis
    by (auto simp: renew_lease_eq split: option.splits)
qed

section \<open>Failure\<close>

text \<open>What a failed attempt does to its row: the three branches of \<open>fail_job\<close>, with the backoff in closed form.\<close>

definition fail_set :: "time \<Rightarrow> string \<Rightarrow> 'j job_row \<Rightarrow> 'j job_row" where
  "fail_set now err r =
    (if r_attempts r < r_max_attempts r
     then retrying_set now err
       (backoff_secs (r_backoff_base_secs r) (r_backoff_max_secs r) (r_attempts r)) r
     else if r_dead_letter r then dead_letter_set now err r
     else failed_set now err r)"

lemma same_identity_fail_set [simp]: "same_identity r (fail_set now err r)"
  by (simp add: fail_set_def)

lemma row_ok_fail_set:
  assumes "row_ok r" and "has_status r Processing"
  shows "row_ok (fail_set now err r)"
  using assms
  by (auto simp: fail_set_def intro: row_ok_ends_attempt [OF ends_attempt_set(1)]
      row_ok_ends_attempt [OF ends_attempt_set(2)] row_ok_ends_attempt [OF ends_attempt_set(3)])

lemma row_delay:
  assumes "row_ok r" and "has_status r Processing"
  shows "delay_for_attempt
      (exponential (as_u64 (max (r_backoff_base_secs r) 1)) (as_u64 (max (r_backoff_max_secs r) 1)))
      (as_u32 (r_attempts r)) =
    Ok (from_secs (backoff_secs (r_backoff_base_secs r) (r_backoff_max_secs r) (r_attempts r)))"
proof -
  let ?b = "r_backoff_base_secs r" and ?m = "r_backoff_max_secs r" and ?a = "r_attempts r"
  have bounds: "1 \<le> ?b" "?b \<le> ?m" "is_i32 ?m" "1 \<le> ?a" "?a \<le> 100"
    using assms by (auto simp: row_ok_iff)
  then have "is_i32 ?b" by (simp add: is_i32_def)
  have "max ?b 1 = ?b" "max ?m 1 = ?m" using bounds by simp_all
  moreover have "as_u64 ?b = ?b" "as_u64 ?m = ?m"
    using bounds by (auto intro!: as_u64_id simp: is_i32_def)
  moreover have "as_u32 ?a = ?a"
    using bounds by (auto intro!: as_u32_id)
  ultimately show ?thesis
    using delay_for_attempt_i32 [OF \<open>is_i32 ?b\<close> bounds(3,1,2,4)] by (simp only:)
qed

lemma row_delay_secs:
  assumes "row_ok r" and "has_status r Processing"
  shows "ceil_secs (from_secs
      (backoff_secs (r_backoff_base_secs r) (r_backoff_max_secs r) (r_attempts r))) =
    backoff_secs (r_backoff_base_secs r) (r_backoff_max_secs r) (r_attempts r)"
proof -
  have "1 \<le> r_backoff_base_secs r" "r_backoff_base_secs r \<le> r_backoff_max_secs r"
    and i32: "is_i32 (r_backoff_max_secs r)"
    using assms by (auto simp: row_ok_iff)
  then have "1 \<le> backoff_secs (r_backoff_base_secs r) (r_backoff_max_secs r) (r_attempts r)"
    "backoff_secs (r_backoff_base_secs r) (r_backoff_max_secs r) (r_attempts r)
       \<le> r_backoff_max_secs r"
    using backoff_secs_bounds by (meson order_trans)+
  with i32_below_53 [OF i32] show ?thesis
    by (intro ceil_secs_from_secs) linarith
qed

lemma update_job_cong:
  assumes "db_ok db" and "row_of i db = Some r" and "f r = g r"
  shows "update_job i f db = update_job i g db"
proof -
  have "update_where (\<lambda>x. r_id x = i) f (jobs db) = update_where (\<lambda>x. r_id x = i) g (jobs db)"
    unfolding update_where_def
    using assms by (intro map_cong) (metis db_ok_same_id row_of_in)+
  then show ?thesis by (simp add: update_job_def)
qed

definition dead_letters_after :: "time \<Rightarrow> string \<Rightarrow> 'j job_row \<Rightarrow> 'j db \<Rightarrow> 'j dead_letter_row list" where
  "dead_letters_after now err r db =
    (if exhausted_dead_letter r
     then insert_dead_letter (dead_letter_of now (Some err) r) (dead_letter_jobs db)
     else dead_letter_jobs db)"

lemma fail_transition_eq:
  assumes "db_ok db" and "row_of i db = Some r" and "has_status r Processing"
  shows "fail_transition now err r db =
    Ok ((update_job i (fail_set now err) db)\<lparr>dead_letter_jobs := dead_letters_after now err r db\<rparr>)"
proof -
  have ok: "row_ok r" and ri: "r_id r = i"
    using assms row_of_in db_ok_row by blast+
  note delay = row_delay [OF ok assms(3)] row_delay_secs [OF ok assms(3)]
  note cong = update_job_cong [OF assms(1,2), of "fail_set now err"]
  consider "r_attempts r < r_max_attempts r" | "r_max_attempts r \<le> r_attempts r" "r_dead_letter r"
    | "r_max_attempts r \<le> r_attempts r" "\<not> r_dead_letter r"
    by linarith
  then show ?thesis
  proof cases
    case 1
    then show ?thesis
      using cong [of "retrying_set now err
          (backoff_secs (r_backoff_base_secs r) (r_backoff_max_secs r) (r_attempts r))"]
      by (simp add: fail_transition_def delay ri fail_set_def dead_letters_after_def
          exhausted_dead_letter_def update_job_def)
  next
    case 2
    then show ?thesis
      using cong [of "dead_letter_set now err"]
      by (simp add: fail_transition_def ri fail_set_def dead_letters_after_def
          exhausted_dead_letter_def update_job_def)
  next
    case 3
    then show ?thesis
      using cong [of "failed_set now err"]
      by (simp add: fail_transition_def ri fail_set_def dead_letters_after_def
          exhausted_dead_letter_def update_job_def)
  qed
qed

definition failed_attempt_status :: "bool \<Rightarrow> string" where
  "failed_attempt_status timed_out = (if timed_out then ''timeout'' else ''failed'')"

definition fail_db ::
  "time \<Rightarrow> string \<Rightarrow> bool \<Rightarrow> 'j job_row \<Rightarrow> 'j db \<Rightarrow> 'j db" where
  "fail_db now err timed_out r db =
    (update_job (r_id r) (fail_set now err) db)
      \<lparr>dead_letter_jobs := dead_letters_after now err r db,
       job_attempts := update_where (running_of (r_id r))
         (fail_attempt now (failed_attempt_status timed_out) err) (job_attempts db)\<rparr>"

lemma db_ok_fail_db:
  assumes "db_ok db" and "row_of i db = Some r" and "has_status r Processing"
  shows "db_ok (fail_db now err timed_out r db)"
proof -
  have ri: "r_id r = i" using assms(2) row_of_in by blast
  let ?db1 = "update_job i (fail_set now err) db"
  have "db_ok ?db1"
    using assms by (intro db_ok_update_job) (auto intro: row_ok_fail_set)
  moreover have "distinct (map dl_id (dead_letters_after now err r db))"
    using assms(1) by (auto simp: dead_letters_after_def db_ok_def distinct_insert_dead_letter)
  ultimately have "db_ok (?db1\<lparr>dead_letter_jobs := dead_letters_after now err r db\<rparr>)"
    by (rule db_ok_dead_letters)
  then show ?thesis
    using db_ok_update_attempts [of "?db1\<lparr>dead_letter_jobs := dead_letters_after now err r db\<rparr>"
        "fail_attempt now (failed_attempt_status timed_out) err" "running_of i"]
    by (simp add: fail_db_def ri)
qed

lemma row_of_fail_db:
  assumes "row_of i db = Some r"
  shows "row_of j (fail_db now err timed_out r db) =
    (if j = i then Some (fail_set now err r) else row_of j db)"
  using assms row_of_in [OF assms] by (simp add: fail_db_def row_of_update_job)

lemma fail_job_eq:
  assumes "db_ok db"
  shows "fail_job env i w err timed_out db =
    (case row_of i db of
       None \<Rightarrow> (Err (JobNotFound i), db)
     | Some r \<Rightarrow>
         if held_by i w r
         then (Ok (job_of (fail_set (pe_now env) err r)), fail_db (pe_now env) err timed_out r db)
         else (Err (InvalidOperation ''fail'' (status_of r)), db))"
proof (cases "row_of i db")
  case None
  then show ?thesis by (simp add: fail_job_def)
next
  case (Some r)
  then have ok: "row_ok r" and ri: "r_id r = i"
    using assms row_of_in db_ok_row by blast+
  have into: "into_job r = Ok (job_of r)" by (rule row_ok_into_job [OF ok])
  have lock: "j_locked_by (job_of r) = r_locked_by r"
    using job_of_fields(15) [OF status_of_row [OF ok]] .
  show ?thesis
  proof (cases "held_by i w r")
    case True
    then have proc: "has_status r Processing" by (simp add: held_by_def)
    have held: "\<not> (status_of r \<noteq> Processing \<or> j_locked_by (job_of r) \<noteq> Some w)"
      using True ok lock by (simp add: held_by_def has_status_iff)
    have db2: "fail_db (pe_now env) err timed_out r db =
      (update_job i (fail_set (pe_now env) err) db)
        \<lparr>dead_letter_jobs := dead_letters_after (pe_now env) err r db,
         job_attempts := update_where (running_of i)
           (fail_attempt (pe_now env) (if timed_out then ''timeout'' else ''failed'') err)
           (job_attempts db)\<rparr>"
      by (simp add: fail_db_def ri failed_attempt_status_def)
    have "fetch_job i (fail_db (pe_now env) err timed_out r db) =
        Ok (Some (job_of (fail_set (pe_now env) err r)))"
      using fetch_job_eq [OF db_ok_fail_db [OF assms Some proc]]
      by (simp add: row_of_fail_db [OF Some])
    with Some True held show ?thesis
      by (simp add: fail_job_def into fail_transition_eq [OF assms Some proc] db2 Let_def)
  next
    case False
    then have "status_of r \<noteq> Processing \<or> j_locked_by (job_of r) \<noteq> Some w"
      using ok lock ri by (auto simp: held_by_def has_status_iff)
    with Some False show ?thesis
      by (simp add: fail_job_def into)
  qed
qed

lemma db_ok_fail_job [store_preserves]:
  assumes "db_ok db"
  shows "db_ok (snd (fail_job env i w err timed_out db))"
  using assms
  by (auto simp: fail_job_eq held_by_def intro: db_ok_fail_db split: option.splits)

end
