(* ===== verification/Pg_Submission.thy ===== *)
theory Pg_Submission
  imports Pg_Ops
begin

text \<open>
  Queues, submission, the aggregate and list queries and the worker registry of \<open>PgStore\<close> on a
  well-formed database: what each returns, what it changes, and that the invariant is kept.
\<close>

section \<open>Queues\<close>

abbreviation queue_of :: "string \<Rightarrow> 'j db \<Rightarrow> queue option" where
  "queue_of name db \<equiv> find_by q_name name (queues db)"

definition new_queue :: "time \<Rightarrow> string \<Rightarrow> queue" where
  "new_queue now name =
    \<lparr>q_name = name, q_paused = False, q_max_concurrency = None, q_created_at = now\<rparr>"

lemma insert_queue_tables [simp]:
  "jobs (insert_queue now name db) = jobs db"
  "workers (insert_queue now name db) = workers db"
  "job_attempts (insert_queue now name db) = job_attempts db"
  "dead_letter_jobs (insert_queue now name db) = dead_letter_jobs db"
  "attempt_seq (insert_queue now name db) = attempt_seq db"
  by (simp_all add: insert_queue_def)

lemma queue_of_insert_queue:
  "queue_of n (insert_queue now name db) =
    (case queue_of n db of
       Some q \<Rightarrow> Some q
     | None \<Rightarrow> if n = name then Some (new_queue now name) else None)"
  by (auto simp: insert_queue_def new_queue_def find_by_append find_by_None_iff
      dest: find_by_SomeD split: option.splits)

lemma queue_names_insert_queue:
  "q_name ` set (queues (insert_queue now name db)) = insert name (q_name ` set (queues db))"
  by (auto simp: insert_queue_def)

lemma db_ok_queues:
  assumes "db_ok db" and "distinct (map q_name qs)"
    and "q_name ` set (queues db) \<subseteq> q_name ` set qs"
  shows "db_ok (db\<lparr>queues := qs\<rparr>)"
  using assms by (auto simp: db_ok_def jobs_ok_def)

lemma db_ok_insert_queue: "db_ok db \<Longrightarrow> db_ok (insert_queue now name db)"
  unfolding insert_queue_def
  by (auto intro!: db_ok_queues) (auto simp: db_ok_def)

lemma ensure_queue_eq:
  "ensure_queue env name db =
    (Ok (case queue_of name db of Some q \<Rightarrow> q | None \<Rightarrow> new_queue (pe_now env) name),
     insert_queue (pe_now env) name db)"
  by (auto simp: ensure_queue_def queue_of_insert_queue Let_def split: option.splits)

lemma db_ok_ensure_queue [store_preserves]: "db_ok db \<Longrightarrow> db_ok (snd (ensure_queue env name db))"
  by (simp add: ensure_queue_eq db_ok_insert_queue)

lemma set_queue_paused_eq:
  assumes "db_ok db"
  shows "set_queue_paused name p db =
    (case queue_of name db of
       None \<Rightarrow> (Err (QueueNotFound name), db)
     | Some q \<Rightarrow> (Ok (q\<lparr>q_paused := p\<rparr>),
         db\<lparr>queues := update_where (\<lambda>q. q_name q = name) (\<lambda>q. q\<lparr>q_paused := p\<rparr>) (queues db)\<rparr>))"
proof -
  have "distinct (map q_name (queues db))" using assms by (simp add: db_ok_def)
  from select_by_key_distinct [OF this, of name "\<lambda>_. True"]
  have sel: "select_where (\<lambda>q. q_name q = name) (queues db) =
      (case queue_of name db of Some q \<Rightarrow> [q] | None \<Rightarrow> [])"
    by (simp cong: option.case_cong)
  show ?thesis
  proof (cases "queue_of name db")
    case None
    then have "update_where (\<lambda>q. q_name q = name) f (queues db) = queues db" for f
      by (intro update_where_none) (auto simp: find_by_None_iff)
    with None sel show ?thesis by (simp add: set_queue_paused_def)
  next
    case (Some q)
    with sel show ?thesis by (simp add: set_queue_paused_def Let_def)
  qed
qed

lemma db_ok_set_queue_paused [store_preserves]:
  assumes "db_ok db"
  shows "db_ok (snd (set_queue_paused name p db))"
proof -
  have names: "map q_name (update_where (\<lambda>q. q_name q = name) (\<lambda>q. q\<lparr>q_paused := p\<rparr>) (queues db)) =
      map q_name (queues db)"
    by (rule map_key_update_where) simp
  have "db_ok (db\<lparr>queues :=
      update_where (\<lambda>q. q_name q = name) (\<lambda>q. q\<lparr>q_paused := p\<rparr>) (queues db)\<rparr>)"
  proof (rule db_ok_queues [OF assms])
    show "distinct (map q_name (update_where (\<lambda>q. q_name q = name) (\<lambda>q. q\<lparr>q_paused := p\<rparr>) (queues db)))"
      using assms names by (simp add: db_ok_def)
    show "q_name ` set (queues db) \<subseteq>
        q_name ` set (update_where (\<lambda>q. q_name q = name) (\<lambda>q. q\<lparr>q_paused := p\<rparr>) (queues db))"
      using names by (metis list.set_map order_refl)
  qed
  with assms show ?thesis by (simp add: set_queue_paused_eq split: option.splits)
qed

section \<open>Submission\<close>

definition job_by_key :: "string \<Rightarrow> string option \<Rightarrow> 'j db \<Rightarrow> 'j job_row option" where
  "job_by_key name key db =
    (case key of None \<Rightarrow> None | Some k \<Rightarrow> select_by_key name k db)"

lemma select_by_key_SomeD:
  "select_by_key name k db = Some r \<Longrightarrow>
   r \<in> set (jobs db) \<and> r_queue r = name \<and> r_idempotency_key r = Some k"
  by (auto simp: select_by_key_def key_matches_def dest!: fetch_optional_Some_in)

lemma select_by_key_None_iff:
  "select_by_key name k db = None \<longleftrightarrow>
   (\<forall>r \<in> set (jobs db). \<not> (r_queue r = name \<and> r_idempotency_key r = Some k))"
  by (auto simp: select_by_key_def select_where_def filter_empty_conv key_matches_def)

lemma select_by_key_iff:
  assumes "db_ok db"
  shows "select_by_key name k db = Some r \<longleftrightarrow>
    r \<in> set (jobs db) \<and> r_queue r = name \<and> r_idempotency_key r = Some k"
proof
  assume r: "r \<in> set (jobs db) \<and> r_queue r = name \<and> r_idempotency_key r = Some k"
  then obtain s where s: "select_by_key name k db = Some s"
    by (cases "select_by_key name k db") (auto simp: select_by_key_None_iff)
  have "keys_unique (jobs db)" using assms by (simp add: db_ok_def jobs_ok_def)
  then have "r_id s = r_id r"
    using r select_by_key_SomeD [OF s] by (intro keys_uniqueD) auto
  then have "s = r" using r select_by_key_SomeD [OF s] db_ok_same_id [OF assms] by blast
  with s show "select_by_key name k db = Some r" by simp
qed (rule select_by_key_SomeD)

lemma select_by_key_jobs: "jobs db = jobs db' \<Longrightarrow> select_by_key n k db = select_by_key n k db'"
  by (simp add: select_by_key_def)

lemma row_checks_new_row: "normalized_ok z \<Longrightarrow> row_checks (new_row now i z)"
  using row_ok_new_row by (auto simp: row_ok_def limits_kept_def)

lemma unique_conflict_new_row:
  "unique_conflict (new_row now i z) (jobs db) \<longleftrightarrow>
   row_of i db \<noteq> None \<or> job_by_key (z_queue z) (z_idempotency_key z) db \<noteq> None"
  unfolding unique_conflict_def job_by_key_def find_by_None_iff
  by (cases "z_idempotency_key z")
    (auto simp: new_row_def list_ex_iff key_matches_def select_by_key_None_iff [symmetric]
      dest: select_by_key_SomeD simp del: not_None_eq, (auto simp: select_by_key_None_iff)?)

definition add_job :: "'j job_row \<Rightarrow> 'j db \<Rightarrow> 'j db" where
  "add_job r db = db\<lparr>jobs := jobs db @ [r]\<rparr>"

lemma insert_job_eq:
  assumes "normalized_ok z"
  shows "insert_job now i z db =
    (if row_of i db \<noteq> None \<or> job_by_key (z_queue z) (z_idempotency_key z) db \<noteq> None
     then (Err UniqueViolation, db)
     else if z_queue z \<notin> q_name ` set (queues db) then (Err ForeignKeyViolation, db)
     else (Ok (new_row now i z), add_job (new_row now i z) db))"
  using row_checks_new_row [OF assms]
  by (simp add: insert_job_def unique_conflict_new_row add_job_def Let_def)
     (simp add: new_row_def)

lemma db_ok_add_job:
  assumes "db_ok db" and "normalized_ok z" and "row_of i db = None"
    and "job_by_key (z_queue z) (z_idempotency_key z) db = None"
    and "z_queue z \<in> q_name ` set (queues db)"
  shows "db_ok (add_job (new_row now i z) db)"
proof -
  let ?r = "new_row now i z"
  have fields: "r_id ?r = i" "r_queue ?r = z_queue z" "r_idempotency_key ?r = z_idempotency_key z"
    by (simp_all add: new_row_def)
  have "keys_unique (jobs db)" "jobs_ok (queues db) (jobs db)"
    using assms(1) by (simp_all add: db_ok_def jobs_ok_def)
  moreover have "\<not> (r_idempotency_key ?r \<noteq> None \<and> r_idempotency_key ?r = r_idempotency_key s \<and>
      r_queue ?r = r_queue s)" if "s \<in> set (jobs db)" for s
    using that assms(4) fields
    by (auto simp: job_by_key_def select_by_key_None_iff split: option.splits)
  ultimately have "keys_unique (jobs db @ [?r])"
    unfolding keys_unique_def by (simp only: set_append list.set) (metis Un_iff empty_iff insert_iff)
  moreover have "i \<notin> r_id ` set (jobs db)"
    using assms(3) by (simp add: find_by_None_iff)
  ultimately show ?thesis
    using assms(1,5) fields row_ok_new_row [OF assms(2)]
    by (auto simp: db_ok_def jobs_ok_def add_job_def attempt_rows_ok_def)
qed

lemma job_by_key_insert_queue [simp]:
  "job_by_key n k (insert_queue now name db) = job_by_key n k db"
  by (simp add: job_by_key_def select_by_key_def split: option.splits)

text \<open>The three outcomes of a submission of a normalized job.\<close>

lemma submit_eq:
  assumes "db_ok db" and "normalized_ok z"
  shows "submit env z db =
    (let db1 = insert_queue (pe_now env) (z_queue z) db; r = new_row (pe_now env) (pe_uuid env) z
     in case job_by_key (z_queue z) (z_idempotency_key z) db of
          Some x \<Rightarrow> (Ok \<lparr>sub_job = job_of x, sub_created = False\<rparr>, db1)
        | None \<Rightarrow>
            if row_of (pe_uuid env) db = None
            then (Ok \<lparr>sub_job = job_of r, sub_created = True\<rparr>, add_job r db1)
            else (Err (storage_err env
                    (if z_idempotency_key z = None then UniqueViolation else RowNotFound)), db1))"
proof -
  let ?db1 = "insert_queue (pe_now env) (z_queue z) db"
  let ?r = "new_row (pe_now env) (pe_uuid env) z"
  have ok1: "db_ok ?db1" by (rule db_ok_insert_queue [OF assms(1)])
  have into: "into_job ?r = Ok (job_of ?r)"
    by (rule row_ok_into_job [OF row_ok_new_row [OF assms(2)]])
  have queue: "z_queue z \<in> q_name ` set (queues ?db1)"
    by (simp add: queue_names_insert_queue)
  show ?thesis
  proof (cases "job_by_key (z_queue z) (z_idempotency_key z) db")
    case (Some x)
    then have x: "x \<in> set (jobs db)"
      by (auto simp: job_by_key_def split: option.splits dest: select_by_key_SomeD)
    then have "into_job x = Ok (job_of x)" by (rule db_ok_into_job [OF assms(1)])
    moreover from Some have "(case z_idempotency_key z of None \<Rightarrow> None
        | Some key \<Rightarrow> select_by_key (z_queue z) key ?db1) = Some x"
      by (auto simp: job_by_key_def select_by_key_def split: option.splits)
    ultimately show ?thesis
      using Some by (simp add: submit_def ensure_queue_eq submission_of_def Let_def)
  next
    case None
    then have sel: "(case z_idempotency_key z of None \<Rightarrow> None
        | Some key \<Rightarrow> select_by_key (z_queue z) key ?db1) = None"
      by (auto simp: job_by_key_def select_by_key_def split: option.splits)
    have ins: "insert_job (pe_now env) (pe_uuid env) z ?db1 =
      (if row_of (pe_uuid env) db \<noteq> None then (Err UniqueViolation, ?db1)
       else (Ok ?r, add_job ?r ?db1))"
      using None queue by (simp add: insert_job_eq [OF assms(2)])
    have lost: "submit_result env z (Err UniqueViolation) ?db1 =
      Err (storage_err env (if z_idempotency_key z = None then UniqueViolation else RowNotFound))"
      using sel by (simp add: submit_result_def is_unique_violation_def split: option.splits)
    have won: "submit_result env z (Ok ?r) db' = Ok \<lparr>sub_job = job_of ?r, sub_created = True\<rparr>"
      for db' by (simp add: submit_result_def submission_of_def into)
    show ?thesis
      using None
      by (simp add: submit_def ensure_queue_eq sel ins lost won Let_def)
  qed
qed

lemma db_ok_submit [store_preserves]:
  assumes "db_ok db" and "normalized_ok z"
  shows "db_ok (snd (submit env z db))"
proof -
  let ?db1 = "insert_queue (pe_now env) (z_queue z) db"
  have ok1: "db_ok ?db1" by (rule db_ok_insert_queue [OF assms(1)])
  have "db_ok (add_job (new_row (pe_now env) (pe_uuid env) z) ?db1)"
    if "job_by_key (z_queue z) (z_idempotency_key z) db = None" "row_of (pe_uuid env) db = None"
    using that by (intro db_ok_add_job [OF ok1 assms(2)]) (simp_all add: queue_names_insert_queue)
  with ok1 show ?thesis
    by (auto simp: submit_eq [OF assms] Let_def split: option.splits)
qed

section \<open>Aggregate counts\<close>

fun stat_field :: "job_status \<Rightarrow> queue_stats \<Rightarrow> int" where
  "stat_field Queued = st_queued"
| "stat_field Scheduled = st_scheduled"
| "stat_field Processing = st_processing"
| "stat_field Completed = st_completed"
| "stat_field Failed = st_failed"
| "stat_field Retrying = st_retrying"
| "stat_field Cancelled = st_cancelled"
| "stat_field DeadLettered = st_dead_lettered"

definition count_jobs :: "string \<Rightarrow> job_status \<Rightarrow> 'j db \<Rightarrow> int" where
  "count_jobs name s db =
    int (length (filter (\<lambda>r. r_queue r = name \<and> has_status r s) (jobs db)))"

lemma stat_field_set_count:
  "stat_field s (set_count st (x, n)) = (if x = as_str s then n else stat_field s st)"
  by (cases s) (simp_all add: set_count_def as_str_literals)

lemma set_count_keeps [simp]:
  "st_queue (set_count st c) = st_queue st" "st_paused (set_count st c) = st_paused st"
  by (simp_all add: set_count_def split: prod.split)

lemma foldl_set_count_keeps [simp]:
  "st_queue (foldl set_count st cs) = st_queue st"
  "st_paused (foldl set_count st cs) = st_paused st"
  by (induction cs arbitrary: st) simp_all

lemma stat_field_foldl:
  "distinct xs \<Longrightarrow>
   stat_field s (foldl set_count st (map (\<lambda>x. (x, f x)) xs)) =
     (if as_str s \<in> set xs then f (as_str s) else stat_field s st)"
  by (induction xs arbitrary: st) (auto simp: stat_field_set_count)

lemma count_list_filter: "count_list (map g xs) y = length (filter (\<lambda>x. g x = y) xs)"
  by (induction xs) auto

lemma count_jobs_status_counts:
  "int (count_list (map r_status (select_where (\<lambda>r. r_queue r = name) (jobs db))) (as_str s)) =
    count_jobs name s db"
  by (simp add: count_list_filter count_jobs_def select_where_def conj_commute)

lemma queue_stats_of_eq:
  assumes "queue_of name db = Some q"
  obtains st where "queue_stats_of name db = Ok st" and "st_queue st = name"
    and "st_paused st = q_paused q" and "\<And>s. stat_field s st = count_jobs name s db"
proof
  let ?sts = "map r_status (select_where (\<lambda>r. r_queue r = name) (jobs db))"
  let ?zero = "\<lparr>st_queue = name, st_paused = q_paused q, st_queued = 0, st_scheduled = 0,
    st_processing = 0, st_completed = 0, st_failed = 0, st_retrying = 0, st_cancelled = 0,
    st_dead_lettered = 0\<rparr>"
  let ?st = "foldl set_count ?zero (status_counts name db)"
  show "queue_stats_of name db = Ok ?st"
    using assms by (simp add: queue_stats_of_def get_queue_def)
  show "st_queue ?st = name" "st_paused ?st = q_paused q" by simp_all
  show "stat_field s ?st = count_jobs name s db" for s
  proof -
    have "stat_field s ?zero = 0" by (cases s) simp_all
    moreover have "int (count_list ?sts (as_str s)) = 0" if "as_str s \<notin> set ?sts"
      using count_notin [OF that] by (simp only: of_nat_0)
    ultimately have "stat_field s ?st = int (count_list ?sts (as_str s))"
      unfolding status_counts_def Let_def by (subst stat_field_foldl) auto
    then show ?thesis by (simp only: count_jobs_status_counts)
  qed
qed

section \<open>Listings\<close>

definition matching_jobs ::
  "string option \<Rightarrow> string option \<Rightarrow> string option \<Rightarrow> 'j db \<Rightarrow> 'j job_row list" where
  "matching_jobs queue status job_type db =
    order_by (\<lambda>r. - r_created_at r)
      (select_where (\<lambda>r. null_or_eq queue (r_queue r) \<and> null_or_eq status (r_status r) \<and>
        null_or_eq job_type (r_job_type r)) (jobs db))"

lemma list_jobs_eq:
  assumes "db_ok db" and "0 \<le> limit" and "0 \<le> offset"
  shows "list_jobs env q s t limit offset db =
    Ok (map job_of (take (nat limit) (drop (nat offset) (matching_jobs q s t db))))"
proof -
  let ?page = "take (nat limit) (drop (nat offset) (matching_jobs q s t db))"
  have "set ?page \<subseteq> set (matching_jobs q s t db)"
    by (meson order_trans set_drop_subset set_take_subset)
  also have "\<dots> \<subseteq> set (jobs db)"
    by (auto simp: matching_jobs_def)
  finally have "collect_ok into_job ?page = Ok (map job_of ?page)"
    using assms(1) by (intro collect_ok_all) (blast intro: db_ok_into_job)
  with assms(2,3) show ?thesis
    by (simp add: list_jobs_def matching_jobs_def limit_rows_def offset_rows_def)
qed

text \<open>Cutting a list into pages and gluing them together again.\<close>

lemma concat_pages:
  "concat (map (\<lambda>k. take n (drop (k * n) xs)) [0..<m]) = take (m * n) xs"
proof (induction m)
  case 0
  then show ?case by simp
next
  case (Suc m)
  have "take (m * n) xs @ take n (drop (m * n) xs) = take (m * n + n) xs"
    by (rule take_add [symmetric])
  with Suc show ?case by (simp add: add.commute)
qed

section \<open>The worker registry\<close>

abbreviation worker_of :: "uuid \<Rightarrow> 'j db \<Rightarrow> worker option" where
  "worker_of w db \<equiv> find_by w_id w (workers db)"

lemma db_ok_distinct_workers: "db_ok db \<Longrightarrow> distinct (map w_id (workers db))"
  by (simp add: db_ok_def)

lemma db_ok_register_worker [store_preserves]: "db_ok db \<Longrightarrow> db_ok (snd (register_worker env wk db))"
  by (auto simp: register_worker_def intro!: db_ok_workers)
     (auto simp: db_ok_def map_key_update_where)

lemma worker_of_register:
  "worker_of w (snd (register_worker env wk db)) =
    (if w = w_id wk
     then Some (case worker_of w db of
        None \<Rightarrow> wk\<lparr>w_registered_at := pe_now env, w_last_heartbeat := pe_now env\<rparr>
      | Some x \<Rightarrow> x\<lparr>w_hostname := w_hostname wk, w_queues := w_queues wk,
          w_concurrency := w_concurrency wk, w_last_heartbeat := pe_now env\<rparr>)
     else worker_of w db)"
proof (cases "w_id wk \<in> set (map w_id (workers db))")
  case True
  then have "worker_of (w_id wk) db \<noteq> None" by (simp only: find_by_None_iff) auto
  with True show ?thesis
    by (auto simp: register_worker_def find_by_update_where map_option_case dest: find_by_SomeD
        split: option.splits)
next
  case False
  then have "worker_of (w_id wk) db = None" by (simp add: find_by_None_iff)
  with False show ?thesis
    by (cases wk) (auto simp: register_worker_def find_by_append split: option.splits)
qed

lemma db_ok_heartbeat [store_preserves]: "db_ok db \<Longrightarrow> db_ok (snd (heartbeat env w db))"
  by (auto simp: heartbeat_def intro!: db_ok_workers) (auto simp: db_ok_def map_key_update_where)

lemma heartbeat_eq:
  "fst (heartbeat env w db) = Ok (worker_of w db \<noteq> None)"
  "worker_of v (snd (heartbeat env w db)) =
    (if v = w then map_option (\<lambda>x. x\<lparr>w_last_heartbeat := pe_now env\<rparr>) (worker_of w db)
     else worker_of v db)"
proof -
  show "fst (heartbeat env w db) = Ok (worker_of w db \<noteq> None)"
    by (simp add: heartbeat_def find_by_def)
  show "worker_of v (snd (heartbeat env w db)) =
    (if v = w then map_option (\<lambda>x. x\<lparr>w_last_heartbeat := pe_now env\<rparr>) (worker_of w db)
     else worker_of v db)"
    by (auto simp: heartbeat_def find_by_update_where map_option_case dest: find_by_SomeD
        split: option.splits)
qed

lemma db_ok_delete_workers:
  "db_ok db \<Longrightarrow> db_ok (db\<lparr>workers := delete_where p (workers db)\<rparr>)"
  by (rule db_ok_workers) (simp_all add: db_ok_def distinct_map_delete_where)

lemma db_ok_deregister_worker [store_preserves]: "db_ok db \<Longrightarrow> db_ok (snd (deregister_worker w db))"
  by (simp add: deregister_worker_def db_ok_delete_workers)

lemma db_ok_prune_dead_workers [store_preserves]: "db_ok db \<Longrightarrow> db_ok (snd (prune_dead_workers env s db))"
  by (simp add: prune_dead_workers_def db_ok_delete_workers Let_def)

lemma worker_of_prune:
  assumes "db_ok db"
  shows "worker_of w (snd (prune_dead_workers env secs db)) =
    (case worker_of w db of
       None \<Rightarrow> None
     | Some x \<Rightarrow> if w_last_heartbeat x < pe_now env - interval_secs secs then None else Some x)"
  using find_by_delete_where [OF db_ok_distinct_workers [OF assms]]
  by (simp add: prune_dead_workers_def Let_def)

lemma worker_of_deregister:
  assumes "db_ok db"
  shows "worker_of v (snd (deregister_worker w db)) = (if v = w then None else worker_of v db)"
  using find_by_delete_where [OF db_ok_distinct_workers [OF assms]]
  by (auto simp: deregister_worker_def dest: find_by_SomeD split: option.splits)

end
