(* ===== verification/Pg_Reaper.thy ===== *)
theory Pg_Reaper
  imports Pg_Ops
begin

text \<open>
  The reaper \<open>recover_expired_leases\<close>: the four statements together are one update of the rows whose
  lease expired, each row moved by the class it is in, and the batch limit is met exactly.
\<close>

section \<open>One statement\<close>

definition class_rows :: "pg_env \<Rightarrow> ('j job_row \<Rightarrow> bool) \<Rightarrow> 'j db \<Rightarrow> 'j job_row list" where
  "class_rows env c db = select_where (\<lambda>r. expired env r \<and> c r) (jobs db)"

definition reap_rows ::
  "pg_env \<Rightarrow> ('j job_row \<Rightarrow> bool) \<Rightarrow> ('j job_row \<Rightarrow> 'j job_row) \<Rightarrow> int \<Rightarrow> 'j db \<Rightarrow> 'j db" where
  "reap_rows env c f limit db =
    db\<lparr>jobs := update_where (with_id_in (expired_ids env c limit db)) f (jobs db)\<rparr>"

lemma expired_idsD:
  assumes "db_ok db" and "i \<in> set (expired_ids env c limit db)"
  obtains r where "row_of i db = Some r" and "expired env r" and "c r"
proof -
  from assms(2) obtain r where "r_id r = i"
    "r \<in> set (select_where (\<lambda>r. expired env r \<and> c r) (jobs db))"
    by (auto simp: expired_ids_def dest!: in_set_limit_rowsD)
  then show ?thesis
    using that db_ok_find [OF assms(1), of i r] by simp
qed

lemma expired_ids_row:
  assumes "db_ok db" and "row_of i db = Some r" and "i \<in> set (expired_ids env c limit db)"
  shows "expired env r \<and> c r"
  using expired_idsD [OF assms(1,3)] assms(2) by auto

lemma with_id_in_expired:
  assumes "db_ok db" and "r \<in> set (jobs db)" and "with_id_in (expired_ids env c limit db) r"
  shows "expired env r \<and> c r"
proof (rule expired_ids_row [OF assms(1)])
  show "row_of (r_id r) db = Some r" using assms(2) by (simp add: db_ok_find [OF assms(1)])
  show "r_id r \<in> set (expired_ids env c limit db)" using assms(3) by (simp add: with_id_in_def)
qed

lemma expired_row_processing:
  assumes "expired env r"
  shows "has_status r Processing" and "\<exists>t. r_lease_expires_at r = Some t \<and> t < pe_now env"
    and "r_id r \<notin> set (pe_locked env)"
  using assms by (auto simp: expired_def null_less_iff)

lemma map_id_select_ids:
  assumes "db_ok db"
  shows "set (map r_id (select_where (with_id_in (expired_ids env c limit db)) (jobs db))) =
    set (expired_ids env c limit db)"
proof -
  have "i \<in> r_id ` set (jobs db)" if "i \<in> set (expired_ids env c limit db)" for i
    using expired_idsD [OF assms that] by (metis image_eqI row_of_in)
  then show ?thesis by (auto simp: with_id_in_def)
qed

lemma row_of_reap_rows:
  assumes "\<And>r. same_identity r (f r)"
  shows "row_of i (reap_rows env c f limit db) =
    map_option (\<lambda>r. if i \<in> set (expired_ids env c limit db) then f r else r) (row_of i db)"
proof -
  have "row_of i (reap_rows env c f limit db) =
      map_option (\<lambda>r. if with_id_in (expired_ids env c limit db) r then f r else r) (row_of i db)"
    unfolding reap_rows_def
    using find_by_update_where [of "jobs db" r_id f i "with_id_in (expired_ids env c limit db)"] assms
    by (simp add: same_identityD)
  then show ?thesis
    by (auto simp: with_id_in_def map_option_case split: option.splits dest: row_of_in)
qed

lemma db_ok_reap_rows:
  assumes "db_ok db" and "\<And>r. same_identity r (f r)"
    and "\<And>r. row_ok r \<Longrightarrow> has_status r Processing \<Longrightarrow> c r \<Longrightarrow> row_ok (f r)"
  shows "db_ok (reap_rows env c f limit db)"
  unfolding reap_rows_def
proof (rule db_ok_update_jobs [OF assms(1)])
  fix r assume "r \<in> set (jobs db)" and "with_id_in (expired_ids env c limit db) r"
  with assms(1) have "expired env r \<and> c r" by (rule with_id_in_expired)
  then show "row_ok r \<Longrightarrow> row_ok (f r)"
    using assms(3) expired_row_processing(1) by blast
qed (rule assms(2))

text \<open>A statement takes exactly the batch limit, or the whole class when that is smaller.\<close>

lemma length_expired_ids:
  assumes "0 \<le> limit"
  shows "int (length (expired_ids env c limit db)) =
    min limit (int (length (class_rows env c db)))"
  using assms by (simp add: expired_ids_def class_rows_def limit_rows_def)

lemma expired_ids_all:
  assumes "int (length (class_rows env c db)) \<le> limit"
  shows "set (expired_ids env c limit db) = r_id ` set (class_rows env c db)"
  using assms
  by (auto simp: expired_ids_def class_rows_def limit_rows_def order_by_def)

section \<open>The three statements\<close>

lemma recover_retry_eq:
  "recover_retry env limit db =
    (map r_id (select_where (with_id_in (expired_ids env retryable limit db)) (jobs db)),
     reap_rows env retryable (expired_retry_set (pe_now env)) limit db)"
  by (simp add: recover_retry_def reap_rows_def Let_def)

lemma recover_failed_eq:
  "recover_failed env limit db =
    (map r_id (select_where (with_id_in (expired_ids env exhausted_failed limit db)) (jobs db)),
     reap_rows env exhausted_failed (expired_failed_set (pe_now env)) limit db)"
  by (simp add: recover_failed_def reap_rows_def Let_def)

definition expired_dead_letter_of :: "time \<Rightarrow> 'j job_row \<Rightarrow> 'j dead_letter_row" where
  "expired_dead_letter_of now r =
    dead_letter_of now (Some (coalesce (r_last_error r) lease_expired_text)) r"

definition insert_dead_letters ::
  "('j job_row \<Rightarrow> 'j dead_letter_row) \<Rightarrow> 'j job_row list \<Rightarrow> 'j dead_letter_row list \<Rightarrow>
   'j dead_letter_row list" where
  "insert_dead_letters g rs ds = foldl (\<lambda>rows r. insert_dead_letter (g r) rows) ds rs"

lemma recover_dead_letter_eq:
  "recover_dead_letter env limit db =
    (let gone = select_where (with_id_in (expired_ids env exhausted_dead_letter limit db)) (jobs db)
     in (map r_id gone,
         (reap_rows env exhausted_dead_letter (expired_dead_letter_set (pe_now env)) limit db)
           \<lparr>dead_letter_jobs :=
             insert_dead_letters (expired_dead_letter_of (pe_now env)) gone (dead_letter_jobs db)\<rparr>))"
  by (simp add: recover_dead_letter_def reap_rows_def insert_dead_letters_def
      expired_dead_letter_of_def Let_def)

lemma reap_rows_tables [simp]:
  "queues (reap_rows env c f limit db) = queues db"
  "workers (reap_rows env c f limit db) = workers db"
  "job_attempts (reap_rows env c f limit db) = job_attempts db"
  "dead_letter_jobs (reap_rows env c f limit db) = dead_letter_jobs db"
  "attempt_seq (reap_rows env c f limit db) = attempt_seq db"
  by (simp_all add: reap_rows_def)

lemma row_ok_expired_sets:
  assumes "row_ok r" and "has_status r Processing"
  shows "retryable r \<Longrightarrow> row_ok (expired_retry_set now r)"
    and "row_ok (expired_dead_letter_set now r)" and "row_ok (expired_failed_set now r)"
  using assms
  by (auto simp: retryable_def intro: row_ok_ends_attempt [OF ends_attempt_set(4)]
      row_ok_ends_attempt [OF ends_attempt_set(5)] row_ok_ends_attempt [OF ends_attempt_set(6)])

lemma db_ok_recover_retry: "db_ok db \<Longrightarrow> db_ok (snd (recover_retry env limit db))"
  by (simp add: recover_retry_eq db_ok_reap_rows row_ok_expired_sets)

lemma db_ok_recover_failed: "db_ok db \<Longrightarrow> db_ok (snd (recover_failed env limit db))"
  by (simp add: recover_failed_eq db_ok_reap_rows row_ok_expired_sets)

lemma db_ok_recover_dead_letter:
  assumes "db_ok db"
  shows "db_ok (snd (recover_dead_letter env limit db))"
proof -
  have "db_ok (reap_rows env exhausted_dead_letter (expired_dead_letter_set (pe_now env)) limit db)"
    using assms by (intro db_ok_reap_rows) (simp_all add: row_ok_expired_sets)
  then show ?thesis
    using assms
    by (simp add: recover_dead_letter_eq Let_def, intro db_ok_dead_letters)
      (simp_all add: insert_dead_letters_def db_ok_def distinct_foldl_insert_dead_letter)
qed

lemma db_ok_close_attempts: "db_ok db \<Longrightarrow> db_ok (close_attempts env ids db)"
  by (simp add: close_attempts_def db_ok_update_attempts)

lemma close_attempts_tables [simp]:
  "queues (close_attempts env ids db) = queues db"
  "jobs (close_attempts env ids db) = jobs db"
  "workers (close_attempts env ids db) = workers db"
  "dead_letter_jobs (close_attempts env ids db) = dead_letter_jobs db"
  "attempt_seq (close_attempts env ids db) = attempt_seq db"
  by (simp_all add: close_attempts_def)

lemma attempts_close_attempts:
  "job_attempts (close_attempts env ids db) =
    update_where (\<lambda>a. is_running a \<and> a_job_id a \<in> set ids) (expire_attempt (pe_now env))
      (job_attempts db)"
  by (simp add: close_attempts_def update_where_none)

lemma db_ok_recover_expired_leases [store_preserves]:
  assumes "db_ok db"
  shows "db_ok (snd (recover_expired_leases env limit db))"
proof -
  obtain ids1 db1 where 1: "recover_retry env limit db = (ids1, db1)" by fastforce
  obtain ids2 db2 where 2: "recover_dead_letter env limit db1 = (ids2, db2)" by fastforce
  obtain ids3 db3 where 3: "recover_failed env limit db2 = (ids3, db3)" by fastforce
  have "db_ok db3"
    using assms 1 2 3 db_ok_recover_retry db_ok_recover_dead_letter db_ok_recover_failed
    by (metis snd_conv)
  with assms show ?thesis
    by (simp add: recover_expired_leases_def 1 2 3 db_ok_close_attempts Let_def)
qed

section \<open>The whole sweep\<close>

text \<open>What the reaper does to a row with an expired lease.\<close>

definition reap_set :: "time \<Rightarrow> 'j job_row \<Rightarrow> 'j job_row" where
  "reap_set now r =
    (if retryable r then expired_retry_set now r
     else if r_dead_letter r then expired_dead_letter_set now r
     else expired_failed_set now r)"

lemma same_identity_reap_set [simp]: "same_identity r (reap_set now r)"
  by (simp add: reap_set_def)

text \<open>The classes are disjoint and a recovered row is no longer expired, so an earlier statement does not change
  what a later one selects.\<close>

lemma class_rows_reap_rows:
  assumes "db_ok db" and "\<And>r. same_identity r (f r)" and "\<And>r. \<not> has_status (f r) Processing"
    and "\<And>r. c r \<Longrightarrow> \<not> d r"
  shows "class_rows env d (reap_rows env c f limit db) = class_rows env d db"
    and "expired_ids env d n (reap_rows env c f limit db) = expired_ids env d n db"
proof -
  let ?p = "with_id_in (expired_ids env c limit db)"
  have hit: "expired env r \<and> c r" if "r \<in> set (jobs db)" "?p r" for r
    using that by (rule with_id_in_expired [OF assms(1)])
  have "filter (\<lambda>r. expired env r \<and> d r) (map (\<lambda>r. if ?p r then f r else r) rows) =
      filter (\<lambda>r. expired env r \<and> d r) rows" if "set rows \<subseteq> set (jobs db)" for rows
    using that
  proof (induction rows)
    case (Cons r rows)
    have "\<not> (expired env (f r) \<and> d (f r))" using assms(3) by (simp add: expired_def)
    moreover have "\<not> (expired env r \<and> d r)" if "?p r"
      using hit [of r] assms(4) Cons.prems that by auto
    ultimately show ?case using Cons by auto
  qed simp
  then show "class_rows env d (reap_rows env c f limit db) = class_rows env d db"
    by (simp add: class_rows_def reap_rows_def update_where_def select_where_def)
  then show "expired_ids env d n (reap_rows env c f limit db) = expired_ids env d n db"
    by (simp add: expired_ids_def class_rows_def)
qed

text \<open>The jobs a sweep takes.\<close>

definition recovered_ids :: "pg_env \<Rightarrow> int \<Rightarrow> 'j db \<Rightarrow> uuid set" where
  "recovered_ids env limit db =
    set (expired_ids env retryable limit db) \<union> set (expired_ids env exhausted_dead_letter limit db) \<union>
    set (expired_ids env exhausted_failed limit db)"

lemma classes_disjoint:
  "retryable r \<Longrightarrow> \<not> exhausted_dead_letter r" "retryable r \<Longrightarrow> \<not> exhausted_failed r"
  "exhausted_dead_letter r \<Longrightarrow> \<not> exhausted_failed r"
  by (auto simp: retryable_def exhausted_dead_letter_def exhausted_failed_def)

lemma recovered_row:
  assumes "db_ok db" and "row_of i db = Some r" and "i \<in> recovered_ids env limit db"
  shows "expired env r"
  using assms expired_ids_row [OF assms(1,2)] by (auto simp: recovered_ids_def)

lemma not_processing_set [simp]:
  "\<not> has_status (expired_retry_set now r) Processing"
  "\<not> has_status (expired_dead_letter_set now r) Processing"
  "\<not> has_status (expired_failed_set now r) Processing"
  by (simp_all add: expired_retry_set_def expired_dead_letter_set_def expired_failed_set_def)

lemma recover_expired_leases_neg:
  "limit < 0 \<Longrightarrow> recover_expired_leases env limit db = (Err (storage_err env NegativeLimit), db)"
  by (simp add: recover_expired_leases_def)

lemma select_ids_unchanged:
  assumes "db_ok db" and "\<And>r. same_identity r (f r)" and "\<And>r. c r \<Longrightarrow> \<not> d r"
  shows "select_where (with_id_in (expired_ids env d n db)) (jobs (reap_rows env c f limit db)) =
    select_where (with_id_in (expired_ids env d n db)) (jobs db)"
proof -
  let ?p = "with_id_in (expired_ids env c limit db)" and ?q = "with_id_in (expired_ids env d n db)"
  have id: "?q (f r) = ?q r" for r
    using assms(2) [of r] by (simp add: with_id_in_def same_identity_def)
  have "\<not> ?q r" if "r \<in> set (jobs db)" "?p r" for r
    using that assms(3) with_id_in_expired [OF assms(1)] by blast
  then have "filter ?q (map (\<lambda>r. if ?p r then f r else r) rows) = filter ?q rows"
    if "set rows \<subseteq> set (jobs db)" for rows
    using that by (induction rows) (auto simp: id)
  then show ?thesis
    by (simp add: reap_rows_def update_where_def select_where_def)
qed

definition reaped_dead_letters :: "pg_env \<Rightarrow> int \<Rightarrow> 'j db \<Rightarrow> 'j dead_letter_row list" where
  "reaped_dead_letters env limit db =
    insert_dead_letters (expired_dead_letter_of (pe_now env))
      (select_where (with_id_in (expired_ids env exhausted_dead_letter limit db)) (jobs db))
      (dead_letter_jobs db)"

lemma distinct_select_ids:
  "db_ok db \<Longrightarrow> distinct (map r_id (select_where p (jobs db)))"
  by (simp add: select_where_def distinct_map_filter db_ok_distinct)

text \<open>The state after the three statements, and the ids they return.\<close>

definition reaped_retry :: "pg_env \<Rightarrow> int \<Rightarrow> 'j db \<Rightarrow> 'j db" where
  "reaped_retry env limit db =
    reap_rows env retryable (expired_retry_set (pe_now env)) limit db"

definition reaped_dlq :: "pg_env \<Rightarrow> int \<Rightarrow> 'j db \<Rightarrow> 'j db" where
  "reaped_dlq env limit db =
    (reap_rows env exhausted_dead_letter (expired_dead_letter_set (pe_now env)) limit
      (reaped_retry env limit db))\<lparr>dead_letter_jobs := reaped_dead_letters env limit db\<rparr>"

definition reaped :: "pg_env \<Rightarrow> int \<Rightarrow> 'j db \<Rightarrow> 'j db" where
  "reaped env limit db =
    reap_rows env exhausted_failed (expired_failed_set (pe_now env)) limit (reaped_dlq env limit db)"

lemma db_ok_reaped_retry: "db_ok db \<Longrightarrow> db_ok (reaped_retry env limit db)"
  using db_ok_recover_retry [of db env limit] by (simp add: recover_retry_eq reaped_retry_def)

lemma ids_after_retry:
  assumes "db_ok db" and "d \<in> {exhausted_dead_letter, exhausted_failed}"
  shows "expired_ids env d n (reaped_retry env limit db) = expired_ids env d n db"
    and "select_where (with_id_in (expired_ids env d n db)) (jobs (reaped_retry env limit db)) =
      select_where (with_id_in (expired_ids env d n db)) (jobs db)"
proof -
  have "\<not> d r" if "retryable r" for r :: "'a job_row"
    using assms(2) that by (auto simp: classes_disjoint)
  then show "expired_ids env d n (reaped_retry env limit db) = expired_ids env d n db"
    "select_where (with_id_in (expired_ids env d n db)) (jobs (reaped_retry env limit db)) =
      select_where (with_id_in (expired_ids env d n db)) (jobs db)"
    unfolding reaped_retry_def
    by (auto intro!: class_rows_reap_rows(2) [OF assms(1)] select_ids_unchanged [OF assms(1)])
qed

lemma ids_after_dlq:
  assumes "db_ok db"
  shows "expired_ids env exhausted_failed n (reaped_dlq env limit db) =
      expired_ids env exhausted_failed n db"
    and "select_where (with_id_in (expired_ids env exhausted_failed n db))
        (jobs (reaped_dlq env limit db)) =
      select_where (with_id_in (expired_ids env exhausted_failed n db)) (jobs db)"
proof -
  let ?F = "expired_ids env exhausted_failed n"
  let ?db1 = "reaped_retry env limit db"
  let ?db2 = "reap_rows env exhausted_dead_letter (expired_dead_letter_set (pe_now env)) limit ?db1"
  have ok: "db_ok ?db1" by (rule db_ok_reaped_retry [OF assms])
  have F: "?F ?db1 = ?F db" by (simp add: ids_after_retry [OF assms])
  have "?F (reaped_dlq env limit db) = ?F ?db2"
    by (simp add: reaped_dlq_def expired_ids_def)
  also have "\<dots> = ?F ?db1"
    by (rule class_rows_reap_rows(2) [OF ok]) (simp_all add: classes_disjoint)
  finally show "?F (reaped_dlq env limit db) = ?F db" by (simp only: F)
  have "select_where (with_id_in (?F ?db1)) (jobs ?db2) = select_where (with_id_in (?F ?db1)) (jobs ?db1)"
    by (rule select_ids_unchanged [OF ok]) (simp_all add: classes_disjoint)
  then show "select_where (with_id_in (?F db)) (jobs (reaped_dlq env limit db)) =
      select_where (with_id_in (?F db)) (jobs db)"
    by (simp add: reaped_dlq_def F ids_after_retry [OF assms])
qed

definition picked_ids :: "pg_env \<Rightarrow> ('j job_row \<Rightarrow> bool) \<Rightarrow> int \<Rightarrow> 'j db \<Rightarrow> uuid list" where
  "picked_ids env c limit db =
    map r_id (select_where (with_id_in (expired_ids env c limit db)) (jobs db))"

definition recovered_list :: "pg_env \<Rightarrow> int \<Rightarrow> 'j db \<Rightarrow> uuid list" where
  "recovered_list env limit db =
    picked_ids env retryable limit db @ picked_ids env exhausted_dead_letter limit db @
    picked_ids env exhausted_failed limit db"

lemma recover_expired_leases_run:
  assumes "db_ok db" and "0 \<le> limit"
  shows "recover_expired_leases env limit db =
    (Ok (recovered_list env limit db),
     close_attempts env (recovered_list env limit db) (reaped env limit db))"
proof -
  have 1: "recover_retry env limit db =
      (picked_ids env retryable limit db, reaped_retry env limit db)"
    by (simp add: recover_retry_eq reaped_retry_def picked_ids_def)
  have 2: "recover_dead_letter env limit (reaped_retry env limit db) =
      (picked_ids env exhausted_dead_letter limit db, reaped_dlq env limit db)"
    using ids_after_retry [OF assms(1), of exhausted_dead_letter env limit limit]
    by (simp add: recover_dead_letter_eq reaped_dlq_def reaped_dead_letters_def picked_ids_def Let_def)
      (simp add: reaped_retry_def)
  have 3: "recover_failed env limit (reaped_dlq env limit db) =
      (picked_ids env exhausted_failed limit db, reaped env limit db)"
    by (simp add: recover_failed_eq reaped_def picked_ids_def ids_after_dlq [OF assms(1)])
  show ?thesis
    using assms(2) by (simp add: recover_expired_leases_def 1 2 3 recovered_list_def Let_def)
qed

lemma set_picked_ids: "db_ok db \<Longrightarrow> set (picked_ids env c limit db) = set (expired_ids env c limit db)"
  unfolding picked_ids_def by (rule map_id_select_ids)

lemma set_recovered_list:
  "db_ok db \<Longrightarrow> set (recovered_list env limit db) = recovered_ids env limit db"
  by (simp add: recovered_list_def recovered_ids_def set_picked_ids Un_assoc)

lemma expired_ids_disjoint:
  assumes "db_ok db" and "\<And>r. c r \<Longrightarrow> \<not> d r"
  shows "set (expired_ids env c n db) \<inter> set (expired_ids env d m db) = {}"
  using assms(2) by (auto elim!: expired_idsD [OF assms(1)])

lemma distinct_recovered_list:
  assumes "db_ok db"
  shows "distinct (recovered_list env limit db)"
proof -
  have "distinct (picked_ids env c limit db)" for c
    unfolding picked_ids_def by (rule distinct_select_ids [OF assms])
  moreover have "set (expired_ids env retryable limit db) \<inter>
      set (expired_ids env exhausted_dead_letter limit db) = {}"
    "set (expired_ids env retryable limit db) \<inter> set (expired_ids env exhausted_failed limit db) = {}"
    "set (expired_ids env exhausted_dead_letter limit db) \<inter>
      set (expired_ids env exhausted_failed limit db) = {}"
    by (rule expired_ids_disjoint [OF assms], simp add: classes_disjoint)+
  ultimately show ?thesis
    by (simp add: recovered_list_def set_picked_ids [OF assms] Int_Un_distrib)
qed

lemma row_of_reaped_statements:
  assumes "db_ok db"
  shows "row_of i (reaped env limit db) =
    map_option (\<lambda>r. if i \<in> set (expired_ids env exhausted_failed limit db)
      then expired_failed_set (pe_now env) r else r)
    (map_option (\<lambda>r. if i \<in> set (expired_ids env exhausted_dead_letter limit db)
      then expired_dead_letter_set (pe_now env) r else r)
    (map_option (\<lambda>r. if i \<in> set (expired_ids env retryable limit db)
      then expired_retry_set (pe_now env) r else r) (row_of i db)))"
proof -
  have "row_of i (reaped env limit db) =
    map_option (\<lambda>r. if i \<in> set (expired_ids env exhausted_failed limit db)
      then expired_failed_set (pe_now env) r else r) (row_of i (reaped_dlq env limit db))"
    unfolding reaped_def by (simp only: row_of_reap_rows same_identity_set ids_after_dlq [OF assms])
  moreover have "row_of i (reaped_dlq env limit db) =
    map_option (\<lambda>r. if i \<in> set (expired_ids env exhausted_dead_letter limit db)
      then expired_dead_letter_set (pe_now env) r else r) (row_of i (reaped_retry env limit db))"
    unfolding reaped_dlq_def
    using ids_after_retry(1) [OF assms, of exhausted_dead_letter env limit limit]
    by (simp only: row_of_reap_rows same_identity_set row_of_other_tables) simp
  moreover have "row_of i (reaped_retry env limit db) =
    map_option (\<lambda>r. if i \<in> set (expired_ids env retryable limit db)
      then expired_retry_set (pe_now env) r else r) (row_of i db)"
    unfolding reaped_retry_def by (simp only: row_of_reap_rows same_identity_set)
  ultimately show ?thesis by (simp only:)
qed

lemma row_of_reaped:
  assumes "db_ok db"
  shows "row_of i (reaped env limit db) =
    map_option (\<lambda>r. if i \<in> recovered_ids env limit db then reap_set (pe_now env) r else r) (row_of i db)"
proof (cases "row_of i db")
  case None
  then show ?thesis by (simp add: row_of_reaped_statements [OF assms])
next
  case (Some r)
  have cls: "c r" if "i \<in> set (expired_ids env c limit db)" for c
    using expired_ids_row [OF assms Some that] by simp
  show ?thesis
    unfolding row_of_reaped_statements [OF assms] Some
    using cls [of retryable] cls [of exhausted_dead_letter] cls [of exhausted_failed]
    by (auto simp: recovered_ids_def reap_set_def retryable_def exhausted_dead_letter_def
        exhausted_failed_def)
qed

lemma reaped_tables [simp]:
  "queues (reaped env limit db) = queues db" "workers (reaped env limit db) = workers db"
  "job_attempts (reaped env limit db) = job_attempts db"
  "dead_letter_jobs (reaped env limit db) = reaped_dead_letters env limit db"
  "attempt_seq (reaped env limit db) = attempt_seq db"
  by (simp_all add: reaped_def reaped_dlq_def reaped_retry_def)

end
