(* ===== verification/Job_Machine.thy ===== *)
theory Job_Machine
  imports Pg_Submission Pg_Reaper
begin

text \<open>
  The life of one job.  Every \<open>PgStore\<close> method that writes is an operation of type \<open>store_op\<close>; on a
  well-formed database each of them acts on the row of each job as one step of the relation
  \<open>row_step\<close>, whose rules are the guarded updates a job can undergo.  Properties of a job over a run
  of the store follow by induction over runs from case analysis of \<open>row_step\<close>.
\<close>

section \<open>Operations of the store\<close>

datatype 'j store_op =
    EnsureQueue string
  | SetQueuePaused string bool
  | Submit "'j normalized_job"
  | CancelJob uuid
  | RetryJob uuid
  | PurgeFinished time
  | LeaseNext uuid "string list" int
  | CompleteJob uuid uuid "'j option"
  | FailJob uuid uuid string bool
  | RenewLease uuid uuid int
  | RecoverExpired int
  | RegisterWorker worker
  | Heartbeat uuid
  | DeregisterWorker uuid
  | PruneWorkers int

fun exec :: "pg_env \<Rightarrow> 'j store_op \<Rightarrow> 'j db \<Rightarrow> 'j db" where
  "exec env (EnsureQueue n) db = snd (ensure_queue env n db)"
| "exec env (SetQueuePaused n p) db = snd (set_queue_paused n p db)"
| "exec env (Submit z) db = snd (submit env z db)"
| "exec env (CancelJob i) db = snd (cancel_job env i db)"
| "exec env (RetryJob i) db = snd (retry_job env i db)"
| "exec env (PurgeFinished t) db = snd (purge_finished t db)"
| "exec env (LeaseNext w qs secs) db = snd (lease_next env w qs secs db)"
| "exec env (CompleteJob i w res) db = snd (complete_job env i w res db)"
| "exec env (FailJob i w err timed_out) db = snd (fail_job env i w err timed_out db)"
| "exec env (RenewLease i w secs) db = snd (renew_lease env i w secs db)"
| "exec env (RecoverExpired limit) db = snd (recover_expired_leases env limit db)"
| "exec env (RegisterWorker wk) db = snd (register_worker env wk db)"
| "exec env (Heartbeat w) db = snd (heartbeat env w db)"
| "exec env (DeregisterWorker w) db = snd (deregister_worker w db)"
| "exec env (PruneWorkers secs) db = snd (prune_dead_workers env secs db)"

text \<open>The callers submit only what \<open>NewJob::normalized\<close> returned.\<close>

fun op_ok :: "'j store_op \<Rightarrow> bool" where
  "op_ok (Submit z) = normalized_ok z"
| "op_ok _ = True"

lemma db_ok_exec: "db_ok db \<Longrightarrow> op_ok op \<Longrightarrow> db_ok (exec env op db)"
  by (cases op) (simp_all add: store_preserves)

text \<open>A run of the store: calls in the order the server commits them, each with its environment.\<close>

type_synonym 'j call = "pg_env \<times> 'j store_op"

fun run :: "'j call list \<Rightarrow> 'j db \<Rightarrow> 'j db" where
  "run [] db = db"
| "run ((env, op) # calls) db = run calls (exec env op db)"

definition calls_ok :: "'j call list \<Rightarrow> bool" where
  "calls_ok calls \<longleftrightarrow> list_all (\<lambda>c. op_ok (snd c)) calls"

lemma calls_ok_simps [simp]:
  "calls_ok []" "calls_ok ((env, op) # calls) \<longleftrightarrow> op_ok op \<and> calls_ok calls"
  by (simp_all add: calls_ok_def)

lemma db_ok_run: "db_ok db \<Longrightarrow> calls_ok calls \<Longrightarrow> db_ok (run calls db)"
  by (induction calls db rule: run.induct) (simp_all add: db_ok_exec)

section \<open>Steps of one job\<close>

definition due :: "pg_env \<Rightarrow> string list \<Rightarrow> 'j job_row \<Rightarrow> bool" where
  "due env qs r \<longleftrightarrow>
    r_queue r \<in> set qs \<and> status_in r [Queued, Scheduled, Retrying] \<and> r_run_at r \<le> pe_now env \<and>
    r_id r \<notin> set (pe_locked env)"

lemma lease_eligible_due: "lease_eligible env qs db r \<longleftrightarrow> due env qs r \<and> queue_open (r_queue r) db"
  by (auto simp: lease_eligible_def due_def)

inductive row_step ::
  "pg_env \<Rightarrow> 'j store_op \<Rightarrow> 'j job_row option \<Rightarrow> 'j job_row option \<Rightarrow> bool"
  for env :: pg_env
where
  unchanged: "row_step env op x x"
| inserted: "normalized_ok z \<Longrightarrow>
    row_step env (Submit z) None (Some (new_row (pe_now env) (pe_uuid env) z))"
| cancelled: "is_cancellable (status_of r) \<Longrightarrow>
    row_step env (CancelJob (r_id r)) (Some r) (Some (cancel_set (pe_now env) r))"
| retried: "status_of r \<in> {Failed, DeadLettered} \<Longrightarrow>
    row_step env (RetryJob (r_id r)) (Some r) (Some (retry_set (pe_now env) r))"
| purged: "purge_matches t r \<Longrightarrow> row_step env (PurgeFinished t) (Some r) None"
| leased: "due env qs r \<Longrightarrow>
    row_step env (LeaseNext w qs secs) (Some r) (Some (lease_set (pe_now env) w secs r))"
| completed: "held_by (r_id r) w r \<Longrightarrow>
    row_step env (CompleteJob (r_id r) w res) (Some r) (Some (complete_set (pe_now env) res r))"
| failed: "held_by (r_id r) w r \<Longrightarrow>
    row_step env (FailJob (r_id r) w err timed_out) (Some r) (Some (fail_set (pe_now env) err r))"
| renewed: "held_by (r_id r) w r \<Longrightarrow>
    row_step env (RenewLease (r_id r) w secs) (Some r) (Some (renew_set (pe_now env) secs r))"
| recovered: "expired env r \<Longrightarrow>
    row_step env (RecoverExpired limit) (Some r) (Some (reap_set (pe_now env) r))"

inductive_cases row_step_SomeE: "row_step env op (Some r) x"
inductive_cases row_step_NoneE: "row_step env op None x"

inductive_simps row_step_lease: "row_step env (LeaseNext w qs secs) (Some r) x"
inductive_simps row_step_recover: "row_step env (RecoverExpired limit) (Some r) x"

text \<open>An update through the primary key is a step of the row with that key and leaves the others alone.\<close>

lemma row_step_update_job:
  assumes "row_of i db = Some r" and "\<And>x. same_identity x (f x)"
    and "r_id r = i \<Longrightarrow> row_step env op (Some r) (Some (f r))"
  shows "row_step env op (row_of j db) (row_of j (update_job i f db))"
  using assms row_of_in [OF assms(1)]
  by (auto simp: row_of_update_job intro: row_step.unchanged)

lemma row_step_submit:
  assumes "db_ok db" and "normalized_ok z"
  shows "row_step env (Submit z) (row_of i db) (row_of i (snd (submit env z db)))"
proof -
  have "row_of i (add_job (new_row (pe_now env) (pe_uuid env) z) db') =
      (case row_of i db' of
         Some r \<Rightarrow> Some r
       | None \<Rightarrow> if i = pe_uuid env then Some (new_row (pe_now env) (pe_uuid env) z) else None)"
    for db' :: "'a db"
    by (simp add: add_job_def find_by_append) (simp add: new_row_def split: option.splits)
  with assms show ?thesis
    by (auto simp: submit_eq Let_def split: option.splits
        intro: row_step.unchanged row_step.inserted)
qed

lemma row_step_purge:
  assumes "db_ok db"
  shows "row_step env (PurgeFinished t) (row_of i db) (row_of i (snd (purge_finished t db)))"
  by (auto simp: row_of_purge [OF assms] split: option.splits
      intro: row_step.unchanged row_step.purged)

lemma row_step_lease_next:
  assumes "db_ok db"
  shows "row_step env (LeaseNext w qs secs) (row_of i db) (row_of i (snd (lease_next env w qs secs db)))"
proof (cases "lease_candidate env qs db")
  case None
  then show ?thesis by (simp add: lease_next_def row_step.unchanged)
next
  case (Some c)
  then have "c \<in> set (jobs db)" "due env qs c"
    by (auto dest: lease_candidate_SomeD simp: lease_eligible_due [symmetric])
       (auto dest: lease_candidate_SomeD simp: lease_eligible_due)
  then have "row_step env (LeaseNext w qs secs) (row_of i db)
      (row_of i (update_job (r_id c) (lease_set (pe_now env) w secs) db))"
    by (intro row_step_update_job [of "r_id c" db c])
      (auto simp: db_ok_find [OF assms] intro: row_step.leased)
  with Some show ?thesis by (simp add: lease_next_eq [OF assms] Let_def)
qed

lemma row_step_recover_expired:
  assumes "db_ok db"
  shows "row_step env (RecoverExpired limit) (row_of i db)
    (row_of i (snd (recover_expired_leases env limit db)))"
proof (cases "limit < 0")
  case True
  then show ?thesis by (simp add: recover_expired_leases_neg row_step.unchanged)
next
  case False
  have "row_step env (RecoverExpired limit) (row_of i db) (row_of i (reaped env limit db))"
    by (cases "row_of i db")
      (auto simp: row_of_reaped [OF assms] dest: recovered_row [OF assms]
        intro: row_step.unchanged row_step.recovered)
  with False show ?thesis by (simp add: recover_expired_leases_run [OF assms])
qed

lemma row_step_held:
  assumes "db_ok db"
  shows "row_step env (CompleteJob i w res) (row_of j db) (row_of j (snd (complete_job env i w res db)))"
    and "row_step env (FailJob i w err t) (row_of j db) (row_of j (snd (fail_job env i w err t db)))"
    and "row_step env (RenewLease i w secs) (row_of j db) (row_of j (snd (renew_lease env i w secs db)))"
proof -
  show "row_step env (CompleteJob i w res) (row_of j db) (row_of j (snd (complete_job env i w res db)))"
    by (auto simp: complete_job_eq [OF assms] split: option.splits
        intro: row_step.unchanged)
      (auto intro!: row_step_update_job [of i db] intro: row_step.completed row_step.unchanged)
  show "row_step env (FailJob i w err t) (row_of j db) (row_of j (snd (fail_job env i w err t db)))"
    by (auto simp: fail_job_eq [OF assms] row_of_fail_db split: option.splits
        intro: row_step.unchanged) (auto dest!: row_of_in intro: row_step.failed)
  show "row_step env (RenewLease i w secs) (row_of j db) (row_of j (snd (renew_lease env i w secs db)))"
    by (auto simp: renew_lease_eq [OF assms] split: option.splits
        intro: row_step.unchanged)
      (auto intro!: row_step_update_job [of i db] intro: row_step.renewed)
qed

lemma row_step_operator:
  assumes "db_ok db"
  shows "row_step env (CancelJob i) (row_of j db) (row_of j (snd (cancel_job env i db)))"
    and "row_step env (RetryJob i) (row_of j db) (row_of j (snd (retry_job env i db)))"
proof -
  show "row_step env (CancelJob i) (row_of j db) (row_of j (snd (cancel_job env i db)))"
    by (auto simp: cancel_job_eq [OF assms] split: option.splits intro: row_step.unchanged)
      (auto intro!: row_step_update_job [of i db] intro: row_step.cancelled)
  have "row_step env (RetryJob i) (row_of j db) (row_of j (update_job i (retry_set (pe_now env)) db))"
    if "row_of i db = Some r" "status_of r \<in> {Failed, DeadLettered}" for r
    using that by (intro row_step_update_job [of i db r]) (auto intro: row_step.retried)
  then show "row_step env (RetryJob i) (row_of j db) (row_of j (snd (retry_job env i db)))"
    by (auto simp: retry_job_eq [OF assms] delete_dead_letter_def split: option.splits
        intro: row_step.unchanged)
qed

lemma rows_untouched [simp]:
  "row_of i (snd (ensure_queue env n db)) = row_of i db"
  "row_of i (snd (set_queue_paused n p db)) = row_of i db"
  "row_of i (snd (register_worker env wk db)) = row_of i db"
  "row_of i (snd (heartbeat env w db)) = row_of i db"
  "row_of i (snd (deregister_worker w db)) = row_of i db"
  "row_of i (snd (prune_dead_workers env secs db)) = row_of i db"
  by (simp_all add: ensure_queue_eq set_queue_paused_def register_worker_def heartbeat_def
      deregister_worker_def prune_dead_workers_def Let_def split: option.splits)

lemma row_step_exec:
  assumes "db_ok db" and "op_ok op"
  shows "row_step env op (row_of i db) (row_of i (exec env op db))"
  using assms
  by (cases op) (simp_all add: row_step.unchanged row_step_submit row_step_operator row_step_purge
      row_step_lease_next row_step_held row_step_recover_expired)

text \<open>A property of one row that every step keeps holds along every run.\<close>

lemma run_row_invariant:
  assumes "db_ok db" and "calls_ok calls" and "P (row_of i db)"
    and "\<And>env op x y. (env, op) \<in> set calls \<Longrightarrow> row_step env op x y \<Longrightarrow> P x \<Longrightarrow> Q x \<Longrightarrow> P y"
    and "\<And>db'. db_ok db' \<Longrightarrow> Q (row_of i db')"
  shows "P (row_of i (run calls db))"
  using assms
proof (induction calls db rule: run.induct)
  case (2 env op calls db)
  then have "row_step env op (row_of i db) (row_of i (exec env op db))"
    by (simp add: row_step_exec)
  then have "P (row_of i (exec env op db))"
    using 2(5) [of env op] 2(2,4,6) by simp
  moreover have "db_ok (exec env op db)" using 2(2,3) by (simp add: db_ok_exec)
  ultimately show ?case
    using "2.IH" 2(3,5,6) by (metis calls_ok_simps(2) list.set_intros(2) run.simps(2))
qed simp

lemma db_ok_row_of: "db_ok db \<Longrightarrow> row_of i db = Some r \<Longrightarrow> row_ok r"
  using db_ok_row row_of_in by blast

definition row_of_ok :: "uuid \<Rightarrow> 'j job_row option \<Rightarrow> bool" where
  "row_of_ok i x \<longleftrightarrow> (\<forall>r. x = Some r \<longrightarrow> row_ok r \<and> r_id r = i)"

lemma db_ok_row_of_ok: "db_ok db \<Longrightarrow> row_of_ok i (row_of i db)"
  using db_ok_row_of row_of_in unfolding row_of_ok_def by blast

section \<open>Status transitions\<close>

text \<open>
  The status changes the store makes.  The last three are not in the table of \<open>can_transition_to\<close>:
  an exhausted job goes from \<open>Processing\<close> straight to \<open>DeadLettered\<close>, and an operator's retry takes a
  failed or dead-lettered job back to \<open>Queued\<close>.
\<close>

definition store_transitions :: "(job_status \<times> job_status) list" where
  "store_transitions =
    [(Queued, Processing), (Scheduled, Processing), (Retrying, Processing),
     (Queued, Cancelled), (Scheduled, Cancelled), (Retrying, Cancelled), (Processing, Cancelled),
     (Processing, Completed), (Processing, Retrying), (Processing, Failed),
     (Processing, DeadLettered), (Failed, Queued), (DeadLettered, Queued)]"

definition store_transition :: "job_status \<Rightarrow> job_status \<Rightarrow> bool" where
  "store_transition s t \<longleftrightarrow> s = t \<or> (s, t) \<in> set store_transitions"

lemma store_transitions_off_table:
  "filter (\<lambda>(s, t). \<not> can_transition_to s t) store_transitions =
    [(Processing, DeadLettered), (Failed, Queued), (DeadLettered, Queued)]"
  by (simp add: store_transitions_def)

lemma status_after:
  "has_status (cancel_set now r) Cancelled" "has_status (retry_set now r) Queued"
  "has_status (lease_set now w secs r) Processing" "has_status (complete_set now res r) Completed"
  "has_status (dead_letter_set now e r) DeadLettered" "has_status (failed_set now e r) Failed"
  "has_status (retrying_set now e d r) Retrying"
  "has_status (expired_retry_set now r) Retrying"
  "has_status (expired_dead_letter_set now r) DeadLettered"
  "has_status (expired_failed_set now r) Failed"
  by (simp_all add: row_updates)

lemma status_of_known: "has_status r s \<Longrightarrow> status_of r = s"
  by (simp add: into_job_has_status)

lemmas status_of_after [simp] = status_after [THEN status_of_known]

lemma status_of_renew [simp]: "has_status r s \<Longrightarrow> status_of (renew_set now secs r) = s"
  by (rule status_of_known) (simp add: renew_set_def)

lemma status_of_fail_set:
  "status_of (fail_set now err r) =
    (if retryable r then Retrying else if r_dead_letter r then DeadLettered else Failed)"
  by (simp add: fail_set_def retryable_def)

lemma status_of_reap_set:
  "status_of (reap_set now r) =
    (if retryable r then Retrying else if r_dead_letter r then DeadLettered else Failed)"
  by (simp add: reap_set_def)

lemma due_status: "due env qs r \<Longrightarrow> row_ok r \<Longrightarrow> status_of r \<in> {Queued, Scheduled, Retrying}"
  by (auto simp: due_def dest: status_of_known)

lemma held_status: "held_by i w r \<Longrightarrow> status_of r = Processing"
  by (simp add: held_by_def status_of_known)

lemma expired_status: "expired env r \<Longrightarrow> status_of r = Processing"
  by (simp add: expired_def status_of_known)

lemma row_step_transition:
  assumes "row_step env op (Some r) (Some r')" and "row_ok r"
  shows "store_transition (status_of r) (status_of r')"
  using assms(1)
proof cases
  case cancelled
  then show ?thesis
    by (cases "status_of r")
      (auto simp: store_transition_def store_transitions_def is_cancellable_def)
next
  case (leased qs)
  then show ?thesis
    using due_status [OF _ assms(2), of env qs]
    by (auto simp: store_transition_def store_transitions_def)
next
  case (renewed w secs)
  then show ?thesis by (simp add: store_transition_def held_by_def status_of_known)
qed (auto simp: store_transition_def store_transitions_def status_of_fail_set status_of_reap_set
    dest!: held_status expired_status)

end
