(* ===== verification/Lease_Protocol.thy ===== *)
theory Lease_Protocol
  imports Job_Machine
begin

text \<open>
  The guarantees of the leasing protocol over runs of the store: status discipline, exclusive leases,
  bounded attempts, durability of jobs and results, and the order in which jobs are handed out.
\<close>

section \<open>A sample history\<close>

text \<open>Two jobs of one queue, used to instantiate the theorems below.\<close>

definition sample_env :: "time \<Rightarrow> uuid \<Rightarrow> pg_env" where
  "sample_env t u =
    \<lparr>pe_now = t, pe_uuid = u, pe_locked = [], pe_emsg = (\<lambda>_. []), pe_collate = (\<lambda>_. 0)\<rparr>"

definition sample_job :: "int \<Rightarrow> int \<Rightarrow> bool \<Rightarrow> unit normalized_job" where
  "sample_job priority max_attempts dead_letter =
    \<lparr>z_queue = ''q'', z_job_type = ''t'', z_payload = (), z_priority = priority,
     z_idempotency_key = None, z_max_attempts = max_attempts, z_run_at = 0, z_status = Queued,
     z_timeout_secs = 300, z_backoff_base_secs = 2, z_backoff_max_secs = 300,
     z_dead_letter = dead_letter, z_metadata = (), z_correlation_id = None\<rparr>"

definition sample_calls :: "unit call list" where
  "sample_calls =
    [(sample_env 0 1, Submit (sample_job 0 1 True)), (sample_env 1 2, Submit (sample_job 5 1 False)),
     (sample_env 2 0, LeaseNext 7 [''q''] 30), (sample_env 3 0, LeaseNext 8 [''q''] 30)]"

section \<open>Refinement of the job machine\<close>

lemma run_append [simp]: "run (cs @ ds) db = run ds (run cs db)"
  by (induction cs db rule: run.induct) simp_all

lemma calls_ok_append [simp]: "calls_ok (cs @ ds) \<longleftrightarrow> calls_ok cs \<and> calls_ok ds"
  by (simp add: calls_ok_def)

lemma db_ok_reached: "calls_ok calls \<Longrightarrow> db_ok (run calls empty_db)"
  by (simp add: db_ok_run db_ok_empty)

text \<open>
  C8. Refinement.  From every state the store can reach from the empty database, every further call of
  a writing method acts on every job as one step of the job machine: the row is untouched, or it is
  changed by the one guarded update that belongs to that method.
\<close>

theorem store_refines_job_machine:
  assumes "calls_ok calls" and "op_ok op"
  shows "row_step env op (row_of i (run calls empty_db)) (row_of i (run (calls @ [(env, op)]) empty_db))"
  using assms by (simp add: row_step_exec db_ok_reached)

theorem store_refines_job_machine_witness:
  "row_step (sample_env 4 0) (CompleteJob 1 8 None) (row_of 1 (run sample_calls empty_db))
     (row_of 1 (run (sample_calls @ [(sample_env 4 0, CompleteJob 1 8 None)]) empty_db)) \<and>
   row_of 1 (run sample_calls empty_db) \<noteq>
     row_of 1 (run (sample_calls @ [(sample_env 4 0, CompleteJob 1 8 None)]) empty_db)"
proof
  have "calls_ok sample_calls" by code_simp
  then show "row_step (sample_env 4 0) (CompleteJob 1 8 None) (row_of 1 (run sample_calls empty_db))
     (row_of 1 (run (sample_calls @ [(sample_env 4 0, CompleteJob 1 8 None)]) empty_db))"
    by (rule store_refines_job_machine) simp
  show "row_of 1 (run sample_calls empty_db) \<noteq>
     row_of 1 (run (sample_calls @ [(sample_env 4 0, CompleteJob 1 8 None)]) empty_db)"
    by code_simp
qed

section \<open>Status discipline\<close>

text \<open>
  Every status change a call of the store makes is one of the thirteen listed in
  \<open>store_transitions\<close>; ten of them are in the transition table of \<open>JobStatus\<close>.
\<close>

theorem store_status_transitions:
  assumes "calls_ok calls" and "op_ok op"
    and "row_of i (run calls empty_db) = Some r"
    and "row_of i (run (calls @ [(env, op)]) empty_db) = Some r'"
  shows "has_status r (status_of r) \<and> has_status r' (status_of r') \<and>
    (status_of r = status_of r' \<or> (status_of r, status_of r') \<in> set store_transitions)"
proof -
  have ok: "db_ok (run calls empty_db)" by (rule db_ok_reached [OF assms(1)])
  then have rows: "row_ok r" "row_ok r'"
    using assms db_ok_exec by (auto intro: db_ok_row_of)
  moreover have "row_step env op (Some r) (Some r')"
    using row_step_exec [OF ok assms(2), of env i] assms(3,4) by simp
  ultimately show ?thesis
    using row_step_transition by (auto simp: store_transition_def status_of_row)
qed

definition sample_row :: "uuid \<Rightarrow> unit call list \<Rightarrow> unit job_row" where
  "sample_row i calls = the (row_of i (run calls empty_db))"

theorem store_status_transitions_witness:
  "(status_of (sample_row 1 sample_calls),
    status_of (sample_row 1 (sample_calls @ [(sample_env 4 0, CompleteJob 1 8 None)]))) \<in>
      set store_transitions"
proof -
  have "row_of 1 (run sample_calls empty_db) = Some (sample_row 1 sample_calls)"
    "row_of 1 (run (sample_calls @ [(sample_env 4 0, CompleteJob 1 8 None)]) empty_db) =
      Some (sample_row 1 (sample_calls @ [(sample_env 4 0, CompleteJob 1 8 None)]))"
    "calls_ok sample_calls"
    "status_of (sample_row 1 sample_calls) \<noteq>
      status_of (sample_row 1 (sample_calls @ [(sample_env 4 0, CompleteJob 1 8 None)]))"
    by code_simp+
  then show ?thesis
    using store_status_transitions [of sample_calls "CompleteJob 1 8 None" 1
        "sample_row 1 sample_calls" "sample_env 4 0"] by simp
qed

text \<open>A status change that some call makes in some reachable state.\<close>

definition transition_happens :: "job_status \<Rightarrow> job_status \<Rightarrow> bool" where
  "transition_happens s t \<longleftrightarrow>
    (\<exists>(calls :: unit call list) env op i r r'.
      calls_ok calls \<and> op_ok op \<and> row_of i (run calls empty_db) = Some r \<and>
      row_of i (run (calls @ [(env, op)]) empty_db) = Some r' \<and>
      status_of r = s \<and> status_of r' = t)"

lemma transition_happensI:
  assumes "calls_ok calls" and "op_ok op" and "row_of i (run calls empty_db) \<noteq> None"
    and "row_of i (run (calls @ [(env, op)]) empty_db) \<noteq> None"
    and "status_of (sample_row i calls) = s" and "status_of (sample_row i (calls @ [(env, op)])) = t"
  shows "transition_happens s t"
  using assms unfolding transition_happens_def sample_row_def by fastforce

definition failed_calls :: "unit call list" where
  "failed_calls = sample_calls @
    [(sample_env 4 0, FailJob 1 8 ''e'' False), (sample_env 5 0, FailJob 2 7 ''e'' False)]"

text \<open>
  Three of the changes the store makes are illegal in the transition table, and each of them
  happens: exhausting the attempts takes a job from \<open>Processing\<close> to \<open>DeadLettered\<close>, and a manual retry takes
  a job from \<open>Failed\<close> and from the terminal status \<open>DeadLettered\<close> back to \<open>Queued\<close>.
\<close>

theorem off_table_transitions_happen:
  "\<not> can_transition_to Processing DeadLettered \<and> transition_happens Processing DeadLettered \<and>
   \<not> can_transition_to Failed Queued \<and> transition_happens Failed Queued \<and>
   \<not> can_transition_to DeadLettered Queued \<and> transition_happens DeadLettered Queued"
proof -
  have "transition_happens Processing DeadLettered"
    by (rule transition_happensI [of sample_calls "FailJob 1 8 ''e'' False" 1 "sample_env 4 0"])
      code_simp+
  moreover have "transition_happens Failed Queued"
    by (rule transition_happensI [of failed_calls "RetryJob 2" 2 "sample_env 6 0"]) code_simp+
  moreover have "transition_happens DeadLettered Queued"
    by (rule transition_happensI [of failed_calls "RetryJob 1" 1 "sample_env 6 0"]) code_simp+
  ultimately show ?thesis by simp
qed

section \<open>Exclusive leases\<close>

text \<open>The calls that may touch a job while \<open>w\<close> holds its lease: those of \<open>w\<close> itself, and a cancellation.\<close>

fun by_holder :: "uuid \<Rightarrow> uuid \<Rightarrow> 'j store_op \<Rightarrow> bool" where
  "by_holder i w (CancelJob j) \<longleftrightarrow> j = i"
| "by_holder i w (CompleteJob j v _) \<longleftrightarrow> j = i \<and> v = w"
| "by_holder i w (FailJob j v _ _) \<longleftrightarrow> j = i \<and> v = w"
| "by_holder i w (RenewLease j v _) \<longleftrightarrow> j = i \<and> v = w"
| "by_holder i w _ \<longleftrightarrow> False"

definition live_lease :: "uuid \<Rightarrow> uuid \<Rightarrow> time \<Rightarrow> 'j job_row \<Rightarrow> bool" where
  "live_lease i w t r \<longleftrightarrow> held_by i w r \<and> r_lease_expires_at r = Some t"

lemma held_not_finished: "held_by i w r \<Longrightarrow> \<not> status_in r [Completed, Cancelled]"
  by (simp add: held_by_def)

lemma held_not_due: "held_by i w r \<Longrightarrow> \<not> due env qs r"
  by (simp add: held_by_def due_def)

lemma live_lease_step:
  assumes "row_step env op (Some r) x" and "live_lease i w t r" and "pe_now env \<le> t"
    and "\<not> by_holder i w op"
  shows "x = Some r"
  using assms(1)
proof cases
  case retried
  then show ?thesis using assms(2) by (auto simp: live_lease_def dest: held_status)
next
  case (purged s)
  then show ?thesis
    using assms(2) held_not_finished by (auto simp: live_lease_def purge_matches_def simp del: status_in_Cons)
next
  case leased
  then show ?thesis using assms(2) by (auto simp: live_lease_def dest: held_not_due)
next
  case recovered
  then show ?thesis using assms(2,3) by (auto simp: live_lease_def expired_def)
qed (use assms in \<open>auto simp: live_lease_def held_by_def\<close>)

lemma live_lease_run:
  assumes "db_ok db" and "calls_ok calls" and "row_of i db = Some r" and "live_lease i w t r"
    and "list_all (\<lambda>(env, op). pe_now env \<le> t \<and> \<not> by_holder i w op) calls"
  shows "row_of i (run calls db) = Some r"
proof (rule run_row_invariant [where Q = "\<lambda>_. True", OF assms(1,2)])
  fix env op x y
  assume "(env, op) \<in> set calls" and step: "row_step env op x y" and x: "x = Some r"
  then have "pe_now env \<le> t" "\<not> by_holder i w op"
    using assms(5) by (auto simp: list_all_iff)
  then show "y = Some r"
    using live_lease_step [OF _ assms(4)] step x by blast
qed (use assms in auto)

text \<open>
  C2. A lease is exclusive until it expires.  If worker \<open>w\<close> holds job \<open>i\<close> with a lease until \<open>t\<close>, then after any
  sequence of calls by anyone at times up to \<open>t\<close>, other than \<open>w\<close>'s own report or renewal for \<open>i\<close> and a cancellation
  of \<open>i\<close>, the row is unchanged: no other worker gets the job, no other worker's report is applied to
  it and the reaper does not take it.
\<close>

theorem lease_exclusive:
  assumes "calls_ok before" and "row_of i (run before empty_db) = Some r" and "live_lease i w t r"
    and "calls_ok calls" and "list_all (\<lambda>(env, op). pe_now env \<le> t \<and> \<not> by_holder i w op) calls"
  shows "row_of i (run (before @ calls) empty_db) = Some r"
  using live_lease_run [OF db_ok_reached [OF assms(1)] assms(4,2,3,5)] by simp

definition rival_calls :: "unit call list" where
  "rival_calls =
    [(sample_env 5 0, LeaseNext 9 [''q''] 30), (sample_env 6 0, CompleteJob 1 9 None),
     (sample_env 7 0, FailJob 1 7 ''stolen'' False), (sample_env 8 0, RecoverExpired 100),
     (sample_env 30000000 0, RecoverExpired 100), (sample_env 9 0, RetryJob 1)]"

theorem lease_exclusive_witness:
  "row_of 1 (run (sample_calls @ rival_calls) empty_db) = Some (sample_row 1 sample_calls)"
proof (rule lease_exclusive [where w = 8 and t = 30000003])
  show "calls_ok sample_calls" "calls_ok rival_calls"
    "row_of 1 (run sample_calls empty_db) = Some (sample_row 1 sample_calls)"
    "live_lease 1 8 30000003 (sample_row 1 sample_calls)"
    "list_all (\<lambda>(env, op). pe_now env \<le> 30000003 \<and> \<not> by_holder 1 8 op) rival_calls"
    by code_simp+
qed

section \<open>Bounded attempts\<close>

text \<open>How often a run leases job \<open>i\<close>: the calls of \<open>lease_next\<close> that return it.\<close>

fun leases_now :: "uuid \<Rightarrow> pg_env \<Rightarrow> 'j store_op \<Rightarrow> 'j db \<Rightarrow> bool" where
  "leases_now i env (LeaseNext w qs secs) db =
    (case fst (lease_next env w qs secs db) of Ok (Some j) \<Rightarrow> j_id j = i | _ \<Rightarrow> False)"
| "leases_now i env _ db = False"

fun leases_of :: "uuid \<Rightarrow> 'j call list \<Rightarrow> 'j db \<Rightarrow> int" where
  "leases_of i [] db = 0"
| "leases_of i ((env, op) # calls) db =
    (if leases_now i env op db then 1 else 0) + leases_of i calls (exec env op db)"

lemma j_id_lease_set [simp]: "j_id (job_of (lease_set now w secs r)) = r_id r"
  by (simp add: job_of_fields [OF status_after(3)]) (simp add: lease_set_def)

lemma lease_attempts:
  assumes "db_ok db" and "row_of i db = Some r"
    and "row_of i (snd (lease_next env w qs secs db)) = Some r'"
  shows "r_attempts r' = r_attempts r + (if leases_now i env (LeaseNext w qs secs) db then 1 else 0)"
proof (cases "lease_candidate env qs db")
  case None
  then show ?thesis using assms by (simp add: lease_next_def)
next
  case (Some c)
  then show ?thesis
    using assms by (auto simp: lease_next_eq Let_def row_of_update_job split: if_splits)
      (simp_all add: lease_set_def)
qed

lemma attempts_after:
  "r_attempts (cancel_set now r) = r_attempts r" "r_attempts (complete_set now res r) = r_attempts r"
  "r_attempts (fail_set now e r) = r_attempts r" "r_attempts (renew_set now s r) = r_attempts r"
  "r_attempts (reap_set now r) = r_attempts r"
  by (simp_all add: fail_set_def reap_set_def row_updates)

lemma step_attempts:
  assumes "db_ok db" and "op_ok op" and "row_of i db = Some r"
    and "row_of i (exec env op db) = Some r'" and "op \<noteq> RetryJob i"
  shows "r_attempts r' = r_attempts r + (if leases_now i env op db then 1 else 0)"
proof (cases "\<exists>w qs secs. op = LeaseNext w qs secs")
  case True
  then show ?thesis using lease_attempts [OF assms(1,3)] assms(4) by auto
next
  case False
  then have none: "\<not> leases_now i env op db" by (cases op) auto
  have "row_step env op (Some r) (Some r')"
    using row_step_exec [OF assms(1,2), of env i] assms(3,4) by simp
  then have "r_attempts r' = r_attempts r"
  proof cases
    case retried
    then show ?thesis using assms(3,5) row_of_in by blast
  next
    case leased
    then show ?thesis using False by blast
  qed (simp_all add: attempts_after)
  with none show ?thesis by simp
qed

lemma exec_row_present:
  assumes "db_ok db" and "op_ok op" and "row_of i db = Some r"
    and "\<And>t. op \<noteq> PurgeFinished t"
  obtains r' where "row_of i (exec env op db) = Some r'"
proof -
  have "row_step env op (Some r) (row_of i (exec env op db))"
    using row_step_exec [OF assms(1,2), of env i] assms(3) by simp
  then show ?thesis
    by cases (use assms(4) that in auto)
qed

lemma max_attempts_after:
  assumes "row_step env op (Some r) (Some r')"
  shows "r_max_attempts r' = r_max_attempts r"
  using assms by cases (simp_all add: fail_set_def reap_set_def row_updates)

fun is_purge :: "'j store_op \<Rightarrow> bool" where
  "is_purge (PurgeFinished t) = True"
| "is_purge _ = False"

definition no_retry_or_purge :: "uuid \<Rightarrow> 'j call list \<Rightarrow> bool" where
  "no_retry_or_purge i calls \<longleftrightarrow>
    list_all (\<lambda>(env, op). op \<noteq> RetryJob i \<and> \<not> is_purge op) calls"

lemma run_attempts:
  assumes "db_ok db" and "calls_ok calls" and "no_retry_or_purge i calls" and "row_of i db = Some r"
  shows "\<exists>r'. row_of i (run calls db) = Some r' \<and>
    r_attempts r' = r_attempts r + leases_of i calls db \<and> r_max_attempts r' = r_max_attempts r"
  using assms
proof (induction calls db arbitrary: r rule: run.induct)
  case (2 env op calls db)
  then have op: "op_ok op" "calls_ok calls" "op \<noteq> RetryJob i" "no_retry_or_purge i calls"
    "op \<noteq> PurgeFinished t" for t
    by (auto simp: no_retry_or_purge_def)
  obtain r1 where r1: "row_of i (exec env op db) = Some r1"
    using exec_row_present [OF 2(2) op(1) 2(5)] op(5) by blast
  have "row_step env op (Some r) (Some r1)"
    using row_step_exec [OF 2(2) op(1), of env i] r1 2(5) by simp
  then have "r_max_attempts r1 = r_max_attempts r" by (rule max_attempts_after)
  moreover have "r_attempts r1 = r_attempts r + (if leases_now i env op db then 1 else 0)"
    by (rule step_attempts [OF 2(2) op(1) 2(5) r1 op(3)])
  ultimately show ?case
    using "2.IH" [OF db_ok_exec [OF 2(2) op(1)] op(2,4) r1] by auto
qed simp

text \<open>
  C4. A job runs at most \<open>max_attempts\<close> times.  Over any run without an operator's retry of the job (and before it
  is purged), the attempt counter advances by exactly the number of times the job was leased, and the
  total stays within \<open>max_attempts\<close>.
\<close>

theorem attempts_bounded_by_max:
  assumes "calls_ok before" and "row_of i (run before empty_db) = Some r"
    and "calls_ok calls" and "no_retry_or_purge i calls"
  shows "\<exists>r'. row_of i (run (before @ calls) empty_db) = Some r' \<and>
    r_attempts r' = r_attempts r + leases_of i calls (run before empty_db) \<and>
    r_attempts r + leases_of i calls (run before empty_db) \<le> r_max_attempts r"
proof -
  have ok: "db_ok (run before empty_db)" by (rule db_ok_reached [OF assms(1)])
  obtain r' where r': "row_of i (run (before @ calls) empty_db) = Some r'"
    "r_attempts r' = r_attempts r + leases_of i calls (run before empty_db)"
    "r_max_attempts r' = r_max_attempts r"
    using run_attempts [OF ok assms(3,4,2)] by auto
  have "row_ok r'"
    using db_ok_row_of [OF db_ok_run [OF ok assms(3)], of i r'] r'(1) by simp
  then have "r_attempts r' \<le> r_max_attempts r'" by (simp add: row_ok_def attempts_bounded_def)
  with r' show ?thesis by simp
qed

definition submit_calls :: "unit call list" where
  "submit_calls = [(sample_env 0 1, Submit (sample_job 0 2 True))]"

definition work_calls :: "unit call list" where
  "work_calls =
    [(sample_env 2 0, LeaseNext 7 [''q''] 30), (sample_env 40000000 0, RecoverExpired 100),
     (sample_env 50000000 0, LeaseNext 8 [''q''] 30), (sample_env 90000000 0, RecoverExpired 100),
     (sample_env 100000000 0, LeaseNext 9 [''q''] 30)]"

theorem attempts_bounded_by_max_witness:
  "leases_of 1 work_calls (run submit_calls empty_db) = 2 \<and>
   (\<exists>r'. row_of 1 (run (submit_calls @ work_calls) empty_db) = Some r' \<and> r_attempts r' = 2)"
proof
  show two: "leases_of 1 work_calls (run submit_calls empty_db) = 2" by code_simp
  have facts: "calls_ok submit_calls" "calls_ok work_calls" "no_retry_or_purge 1 work_calls"
    "row_of 1 (run submit_calls empty_db) = Some (sample_row 1 submit_calls)"
    "r_attempts (sample_row 1 submit_calls) = 0"
    by code_simp+
  show "\<exists>r'. row_of 1 (run (submit_calls @ work_calls) empty_db) = Some r' \<and> r_attempts r' = 2"
    using attempts_bounded_by_max [OF facts(1,4,2,3)] two facts(5) by auto
qed

section \<open>Durability\<close>

text \<open>The columns a submission fixes.\<close>

definition same_request :: "'j job_row \<Rightarrow> 'j job_row \<Rightarrow> bool" where
  "same_request r r' \<longleftrightarrow>
    same_identity r r' \<and> r_job_type r' = r_job_type r \<and> r_payload r' = r_payload r \<and>
    r_priority r' = r_priority r \<and> r_max_attempts r' = r_max_attempts r \<and>
    r_timeout_secs r' = r_timeout_secs r \<and> r_backoff_base_secs r' = r_backoff_base_secs r \<and>
    r_backoff_max_secs r' = r_backoff_max_secs r \<and> r_dead_letter r' = r_dead_letter r \<and>
    r_metadata r' = r_metadata r \<and> r_correlation_id r' = r_correlation_id r \<and>
    r_created_at r' = r_created_at r"

lemma same_request_step:
  assumes "row_step env op (Some r) (Some r')"
  shows "same_request r r'"
  using assms by cases (simp_all add: same_request_def fail_set_def reap_set_def,
      simp_all add: row_updates)

lemma same_request_trans: "same_request r s \<Longrightarrow> same_request s t \<Longrightarrow> same_request r t"
  by (simp add: same_request_def same_identity_def)

definition finished :: "'j job_row \<Rightarrow> bool" where
  "finished r \<longleftrightarrow> status_in r [Completed, Cancelled]"

lemma finished_step:
  assumes "row_step env op (Some r) x" and "finished r" and "\<not> is_purge op"
  shows "x = Some r"
proof -
  have status: "status_of r \<in> {Completed, Cancelled}"
    using assms(2) by (auto simp: finished_def dest: status_of_known)
  from assms(1) show ?thesis
  proof cases
    case leased
    then show ?thesis using assms(2) by (auto simp: due_def finished_def)
  next
    case purged
    then show ?thesis using assms(3) by simp
  qed (use status in \<open>auto simp: is_cancellable_def dest!: held_status expired_status\<close>)
qed

definition no_purge :: "'j call list \<Rightarrow> bool" where
  "no_purge calls \<longleftrightarrow> list_all (\<lambda>(env, op). \<not> is_purge op) calls"

text \<open>
  C27. What was accepted is kept.  Until a purge runs, a submitted job stays in the table under its id with
  every column of its request unchanged, and once it is completed or cancelled the whole row, its
  result included, never changes again.
\<close>

theorem job_durable:
  assumes "calls_ok before" and "row_of i (run before empty_db) = Some r"
    and "calls_ok calls" and "no_purge calls"
  shows "\<exists>r'. row_of i (run (before @ calls) empty_db) = Some r' \<and> same_request r r' \<and>
    (finished r \<longrightarrow> r' = r)"
proof -
  let ?P = "\<lambda>x. \<exists>r'. x = Some r' \<and> same_request r r' \<and> (finished r \<longrightarrow> r' = r)"
  have "?P (row_of i (run calls (run before empty_db)))"
  proof (rule run_row_invariant [where Q = "\<lambda>_. True", OF db_ok_reached [OF assms(1)] assms(3)])
    fix env op x y
    assume "(env, op) \<in> set calls" and step: "row_step env op x y" and P: "?P x"
    then have op: "\<not> is_purge op" using assms(4) by (auto simp: no_purge_def list_all_iff)
    from P obtain s where s: "x = Some s" "same_request r s" "finished r \<longrightarrow> s = r" by blast
    from step op s(1) obtain s' where y: "y = Some s'"
      by (cases y) (auto elim: row_step_SomeE)
    have "same_request r s'"
      using same_request_trans [OF s(2)] same_request_step step s(1) y by blast
    moreover have "s' = r" if "finished r"
      using finished_step [of env op s y] step s op y that by auto
    ultimately show "?P y" using y by blast
  qed (use assms(2) in \<open>auto simp: same_request_def\<close>)
  then show ?thesis by simp
qed

theorem job_durable_witness:
  "\<exists>r'. row_of 1 (run ((sample_calls @ [(sample_env 4 0, CompleteJob 1 8 (Some ()))]) @ rival_calls)
      empty_db) = Some r' \<and> r_result r' = Some ()"
proof -
  let ?done = "sample_calls @ [(sample_env 4 0, CompleteJob 1 8 (Some ()))]"
  have "calls_ok ?done" "calls_ok rival_calls" "no_purge rival_calls"
    "row_of 1 (run ?done empty_db) = Some (sample_row 1 ?done)"
    "finished (sample_row 1 ?done)" "r_result (sample_row 1 ?done) = Some ()"
    by code_simp+
  then show ?thesis
    using job_durable [of ?done 1 "sample_row 1 ?done" rival_calls] by auto
qed

text \<open>
  Only a purge removes a job, and only a finished one: if a job that was in the table is gone, then
  some call of \<open>purge_finished\<close> met it completed or cancelled and last updated before its cutoff.
\<close>

theorem job_lost_only_by_purge:
  assumes "calls_ok before" and "row_of i (run before empty_db) = Some r"
    and "calls_ok calls" and "row_of i (run (before @ calls) empty_db) = None"
  shows "\<exists>pre env t post s. calls = pre @ (env, PurgeFinished t) # post \<and>
    row_of i (run (before @ pre) empty_db) = Some s \<and> finished s \<and> r_updated_at s < t"
  using assms
proof (induction calls rule: rev_induct)
  case Nil
  then show ?case by simp
next
  case (snoc c calls)
  obtain env op where c: "c = (env, op)" by (cases c)
  have ok: "calls_ok (before @ calls)" "op_ok op" using snoc.prems c by auto
  show ?case
  proof (cases "row_of i (run (before @ calls) empty_db)")
    case None
    with snoc obtain pre env' t post s where
      "calls = pre @ (env', PurgeFinished t) # post"
      "row_of i (run (before @ pre) empty_db) = Some s" "finished s" "r_updated_at s < t"
      by fastforce
    then show ?thesis by (intro exI [of _ pre] exI [of _ env'] exI [of _ t] exI [of _ "post @ [c]"] exI [of _ s]) simp
  next
    case (Some s)
    have "row_step env op (Some s) None"
      using row_step_exec [OF db_ok_reached [OF ok(1)] ok(2), of env i] Some snoc.prems(4) c by simp
    then obtain t where "op = PurgeFinished t" "purge_matches t s"
      by (auto elim: row_step_SomeE)
    then show ?thesis
      using Some c
      by (intro exI [of _ calls] exI [of _ env] exI [of _ t] exI [of _ "[]"] exI [of _ s])
        (simp add: finished_def purge_matches_def)
  qed
qed

theorem job_lost_only_by_purge_witness:
  "\<exists>pre env t post s.
    [(sample_env 5 0, CancelJob 1), (sample_env 9 0, PurgeFinished 6)] =
      pre @ (env, PurgeFinished t) # post \<and>
    row_of 1 (run (sample_calls @ pre) empty_db) = Some s \<and> finished s \<and> r_updated_at s < t"
proof (rule job_lost_only_by_purge)
  show "calls_ok sample_calls"
    "row_of 1 (run sample_calls empty_db) = Some (sample_row 1 sample_calls)"
    "calls_ok [(sample_env 5 0, CancelJob 1 :: unit store_op), (sample_env 9 0, PurgeFinished 6)]"
    "row_of 1 (run (sample_calls @ [(sample_env 5 0, CancelJob 1), (sample_env 9 0, PurgeFinished 6)])
      empty_db) = None"
    by code_simp+
qed

end
