(* ===== verification/Attempt_Log.thy ===== *)
theory Attempt_Log
  imports Lease_Protocol
begin

text \<open>
  The two tables that accompany the jobs: the attempt log and the dead-letter table.  When the methods
  of the store are atomic with respect to each other, a job that is being processed has exactly one
  running attempt, its current one, and the dead-letter table mirrors exactly the dead-lettered jobs.
\<close>

section \<open>Running attempts\<close>

definition running_attempts :: "uuid \<Rightarrow> 'j db \<Rightarrow> attempt_row list" where
  "running_attempts i db = select_where (running_of i) (job_attempts db)"

definition row_attempts_ok :: "'j job_row \<Rightarrow> attempt_row list \<Rightarrow> bool" where
  "row_attempts_ok r as \<longleftrightarrow>
    (if has_status r Processing
     then \<exists>a. as = [a] \<and> a_attempt a = r_attempts r \<and> a_worker_id a = r_locked_by r
     else if has_status r Cancelled then length as \<le> 1
     else as = [])"

definition attempts_ok :: "'j db \<Rightarrow> bool" where
  "attempts_ok db \<longleftrightarrow> (\<forall>i r. row_of i db = Some r \<longrightarrow> row_attempts_ok r (running_attempts i db))"

lemma attempts_okD: "attempts_ok db \<Longrightarrow> row_of i db = Some r \<Longrightarrow> row_attempts_ok r (running_attempts i db)"
  by (simp add: attempts_ok_def)

lemma attempts_ok_empty: "attempts_ok empty_db"
  by (simp add: attempts_ok_def empty_db_def)

lemma attempts_ok_same:
  assumes "attempts_ok db" and "\<And>i. row_of i db' = row_of i db"
    and "job_attempts db' = job_attempts db"
  shows "attempts_ok db'"
  using assms by (simp add: attempts_ok_def running_attempts_def)

text \<open>A step of row \<open>i\<close> with the effect it has on the running attempts of \<open>i\<close>.\<close>

lemma attempts_ok_change:
  assumes "attempts_ok db" and "\<And>j. j \<noteq> i \<Longrightarrow> row_of j db' = row_of j db"
    and "\<And>j. j \<noteq> i \<Longrightarrow> running_attempts j db' = running_attempts j db"
    and "row_of i db' = Some r'" and "row_attempts_ok r' (running_attempts i db')"
  shows "attempts_ok db'"
  unfolding attempts_ok_def
proof (intro allI impI)
  fix j r assume "row_of j db' = Some r"
  then show "row_attempts_ok r (running_attempts j db')"
    using assms by (cases "j = i") (auto simp: attempts_ok_def)
qed

lemma filter_closed:
  assumes "\<And>a. p a \<Longrightarrow> \<not> q (f a)" and "\<And>a. q a \<Longrightarrow> \<not> p a"
  shows "select_where q (update_where p f as) = select_where q as"
  using assms by (induction as) auto

lemma filter_all_closed:
  assumes "\<And>a. p a \<Longrightarrow> \<not> q (f a)" and "\<And>a. q a \<Longrightarrow> p a"
  shows "select_where q (update_where p f as) = []"
  using assms by (induction as) auto

lemma select_delete_where:
  "(\<And>a. q a \<Longrightarrow> \<not> p a) \<Longrightarrow> select_where q (delete_where p as) = select_where q as"
  by (induction as) auto

lemma closed_not_running [simp]:
  "\<not> running_of i (succeed_attempt now a)"
  "\<not> running_of i (fail_attempt now (failed_attempt_status t) e a)"
  "\<not> running_of i (expire_attempt now a)"
  by (auto simp: running_of_def is_running_def succeed_attempt_def fail_attempt_def
      expire_attempt_def failed_attempt_status_def)

lemma running_close:
  assumes "\<And>i a. \<not> running_of i (f a)"
  shows "select_where (running_of j) (update_where (running_of i) f as) =
    (if j = i then [] else select_where (running_of j) as)"
proof (cases "j = i")
  case True
  then show ?thesis using assms by (simp add: filter_all_closed)
next
  case False
  then have "\<not> running_of i a" if "running_of j a" for a
    using that by (simp add: running_of_def)
  then have "select_where (running_of j) (update_where (running_of i) f as) =
      select_where (running_of j) as"
    using assms by (intro filter_closed) auto
  with False show ?thesis by simp
qed

lemma attempts_ok_cancel:
  assumes "db_ok db" and "attempts_ok db"
  shows "attempts_ok (snd (cancel_job env i db))"
proof -
  have "attempts_ok (update_job i (cancel_set (pe_now env)) db)"
    if r: "row_of i db = Some r" "is_cancellable (status_of r)" for r
  proof (rule attempts_ok_change [OF assms(2), where i = i])
    show "row_attempts_ok (cancel_set (pe_now env) r)
        (running_attempts i (update_job i (cancel_set (pe_now env)) db))"
      using attempts_okD [OF assms(2) r(1)]
      by (auto simp: row_attempts_ok_def running_attempts_def status_after split: if_splits)
  qed (simp_all add: row_of_update_job running_attempts_def r)
  with assms show ?thesis by (auto simp: cancel_job_eq split: option.splits)
qed

lemma attempts_ok_retry:
  assumes "db_ok db" and "attempts_ok db"
  shows "attempts_ok (snd (retry_job env i db))"
proof -
  have "attempts_ok (delete_dead_letter i (update_job i (retry_set (pe_now env)) db))"
    if r: "row_of i db = Some r" "status_of r \<in> {Failed, DeadLettered}" for r
  proof (rule attempts_ok_change [OF assms(2), where i = i])
    have "has_status r (status_of r)" using r(1) assms(1) by (intro status_of_row) (rule db_ok_row_of)
    then have "running_attempts i db = []"
      using attempts_okD [OF assms(2) r(1)] r(2) by (auto simp: row_attempts_ok_def)
    then show "row_attempts_ok (retry_set (pe_now env) r)
        (running_attempts i (delete_dead_letter i (update_job i (retry_set (pe_now env)) db)))"
      by (simp add: row_attempts_ok_def running_attempts_def status_after delete_dead_letter_def)
  qed (simp_all add: row_of_update_job running_attempts_def delete_dead_letter_def r)
  with assms show ?thesis by (auto simp: retry_job_eq split: option.splits)
qed

lemma attempts_ok_renew:
  assumes "db_ok db" and "attempts_ok db"
  shows "attempts_ok (snd (renew_lease env i w secs db))"
proof -
  have "attempts_ok (update_job i (renew_set (pe_now env) secs) db)"
    if r: "row_of i db = Some r" "held_by i w r" for r
  proof (rule attempts_ok_change [OF assms(2), where i = i])
    show "row_attempts_ok (renew_set (pe_now env) secs r)
        (running_attempts i (update_job i (renew_set (pe_now env) secs) db))"
      using attempts_okD [OF assms(2) r(1)] r(2)
      by (simp add: row_attempts_ok_def running_attempts_def renew_set_def held_by_def)
  qed (simp_all add: row_of_update_job running_attempts_def r)
  with assms show ?thesis by (auto simp: renew_lease_eq split: option.splits)
qed

lemma attempts_ok_complete:
  assumes "db_ok db" and "attempts_ok db"
  shows "attempts_ok (snd (complete_job env i w res db))"
proof -
  let ?db' = "(update_job i (complete_set (pe_now env) res) db)
    \<lparr>job_attempts := update_where (running_of i) (succeed_attempt (pe_now env)) (job_attempts db)\<rparr>"
  have "attempts_ok ?db'" if r: "row_of i db = Some r" "held_by i w r" for r
  proof (rule attempts_ok_change [OF assms(2), where i = i])
    show "row_attempts_ok (complete_set (pe_now env) res r) (running_attempts i ?db')"
      by (simp add: row_attempts_ok_def running_attempts_def running_close status_after)
  qed (simp_all add: row_of_update_job running_attempts_def running_close r)
  with assms show ?thesis by (auto simp: complete_job_eq split: option.splits)
qed

lemma fail_set_status: "\<not> has_status (fail_set now err r) Processing" "\<not> has_status (fail_set now err r) Cancelled"
  by (simp_all add: fail_set_def status_after)

lemma reap_set_status: "\<not> has_status (reap_set now r) Processing" "\<not> has_status (reap_set now r) Cancelled"
  by (simp_all add: reap_set_def status_after)

lemma attempts_ok_fail:
  assumes "db_ok db" and "attempts_ok db"
  shows "attempts_ok (snd (fail_job env i w err t db))"
proof -
  have "attempts_ok (fail_db (pe_now env) err t r db)"
    if r: "row_of i db = Some r" "held_by i w r" for r
  proof (rule attempts_ok_change [OF assms(2), where i = i])
    have "r_id r = i" using r(1) row_of_in by blast
    then have run: "running_attempts j (fail_db (pe_now env) err t r db) =
        (if j = i then [] else running_attempts j db)" for j
      by (simp add: running_attempts_def fail_db_def running_close)
    then show "running_attempts j (fail_db (pe_now env) err t r db) = running_attempts j db"
      if "j \<noteq> i" for j using that by simp
    show "row_attempts_ok (fail_set (pe_now env) err r)
        (running_attempts i (fail_db (pe_now env) err t r db))"
      by (simp add: row_attempts_ok_def run fail_set_status)
  qed (simp_all add: row_of_fail_db [OF r(1)])
  with assms show ?thesis by (auto simp: fail_job_eq split: option.splits)
qed

lemma attempts_ok_recover:
  assumes "db_ok db" and "attempts_ok db"
  shows "attempts_ok (snd (recover_expired_leases env limit db))"
proof (cases "limit < 0")
  case True
  then show ?thesis using assms by (simp add: recover_expired_leases_neg)
next
  case False
  let ?ids = "recovered_list env limit db"
  let ?db' = "close_attempts env ?ids (reaped env limit db)"
  have run: "running_attempts j ?db' = (if j \<in> set ?ids then [] else running_attempts j db)" for j
  proof (cases "j \<in> set ?ids")
    case True
    then show ?thesis
      unfolding running_attempts_def attempts_close_attempts
      by simp (rule filter_all_closed, auto simp: running_of_def is_running_def expire_attempt_def)
  next
    case False
    then show ?thesis
      unfolding running_attempts_def attempts_close_attempts
      by simp (rule filter_closed, auto simp: running_of_def)
  qed
  have "attempts_ok ?db'"
    unfolding attempts_ok_def run
  proof (intro allI impI)
    fix j r assume "row_of j ?db' = Some r"
    then obtain s where s: "row_of j db = Some s"
      "r = (if j \<in> set ?ids then reap_set (pe_now env) s else s)"
      by (auto simp: row_of_reaped [OF assms(1)] set_recovered_list [OF assms(1)])
    then show "row_attempts_ok r (if j \<in> set ?ids then [] else running_attempts j db)"
      using attempts_okD [OF assms(2) s(1)]
      by (cases "j \<in> set ?ids") (simp_all add: row_attempts_ok_def [of "reap_set _ _"] reap_set_status)
  qed
  with False show ?thesis by (simp add: recover_expired_leases_run [OF assms(1)])
qed

lemma attempts_ok_lease:
  assumes "db_ok db" and "attempts_ok db"
  shows "attempts_ok (snd (lease_next env w qs secs db))"
proof (cases "lease_candidate env qs db")
  case None
  then show ?thesis using assms by (simp add: lease_next_def)
next
  case (Some c)
  let ?f = "lease_set (pe_now env) w secs" and ?i = "r_id c"
  let ?a = "running_attempt (pe_now env) w (job_of (?f c)) (attempt_seq db)"
  let ?db' = "(update_job ?i ?f db)
    \<lparr>job_attempts := job_attempts db @ [?a], attempt_seq := attempt_seq db + 1\<rparr>"
  have c: "row_of ?i db = Some c" "status_in c [Queued, Scheduled, Retrying]"
    using lease_candidate_SomeD [OF Some] by (auto simp: db_ok_find [OF assms(1)] lease_eligible_def)
  have a: "running_of j ?a \<longleftrightarrow> j = ?i" for j
    by (auto simp: running_of_def is_running_def running_attempt_def)
  have idle: "running_attempts ?i db = []"
    using attempts_okD [OF assms(2) c(1)] c(2) by (auto simp: row_attempts_ok_def)
  have run: "running_attempts j ?db' = (if j = ?i then [?a] else running_attempts j db)" for j
    using a idle by (simp add: running_attempts_def select_where_def)
  have "attempts_ok ?db'"
  proof (rule attempts_ok_change [OF assms(2), where i = ?i])
    have "a_attempt ?a = r_attempts (?f c)" "a_worker_id ?a = r_locked_by (?f c)"
      by (simp_all add: running_attempt_def job_of_fields [OF status_after(3)])
        (simp add: lease_set_def)
    then show "row_attempts_ok (?f c) (running_attempts ?i ?db')"
      unfolding run by (simp add: row_attempts_ok_def status_after)
  qed (simp_all add: row_of_update_job c run)
  with Some show ?thesis by (simp add: lease_next_eq [OF assms(1)] Let_def)
qed

lemma no_row_no_attempts:
  assumes "db_ok db" and "row_of i db = None"
  shows "running_attempts i db = []"
proof -
  have "\<not> running_of i a" if "a \<in> set (job_attempts db)" for a
    using assms that by (auto simp: db_ok_def attempt_rows_ok_def running_of_def find_by_None_iff)
  then show ?thesis by (simp add: running_attempts_def select_where_def filter_empty_conv)
qed

lemma row_of_add_job:
  "row_of i (add_job r db) =
    (case row_of i db of Some x \<Rightarrow> Some x | None \<Rightarrow> if i = r_id r then Some r else None)"
  by (simp add: add_job_def find_by_append split: option.splits)

lemma add_job_tables [simp]:
  "job_attempts (add_job r db) = job_attempts db"
  "dead_letter_jobs (add_job r db) = dead_letter_jobs db"
  "queues (add_job r db) = queues db" "workers (add_job r db) = workers db"
  "attempt_seq (add_job r db) = attempt_seq db"
  by (simp_all add: add_job_def)

lemma new_row_status: "has_status (new_row now i z) (z_status z)" "r_id (new_row now i z) = i"
  by (simp_all add: new_row_def)

lemma attempts_ok_submit:
  assumes "db_ok db" and "attempts_ok db" and "normalized_ok z"
  shows "attempts_ok (snd (submit env z db))"
proof -
  let ?db1 = "insert_queue (pe_now env) (z_queue z) db"
  let ?r = "new_row (pe_now env) (pe_uuid env) z"
  have ok1: "attempts_ok ?db1" by (rule attempts_ok_same [OF assms(2)]) simp_all
  have "attempts_ok (add_job ?r ?db1)" if free: "row_of (pe_uuid env) db = None"
  proof (rule attempts_ok_change [OF ok1, where i = "pe_uuid env"])
    have "z_status z \<in> {Queued, Scheduled}" using assms(3) by (auto simp: normalized_ok_def)
    then show "row_attempts_ok ?r (running_attempts (pe_uuid env) (add_job ?r ?db1))"
      using no_row_no_attempts [OF assms(1) free] new_row_status(1) [of "pe_now env" "pe_uuid env" z]
      by (auto simp: row_attempts_ok_def running_attempts_def)
  qed (simp_all add: row_of_add_job running_attempts_def new_row_status free split: option.splits)
  with ok1 show ?thesis
    by (auto simp: submit_eq [OF assms(1,3)] Let_def split: option.splits)
qed

lemma attempts_ok_purge:
  assumes "db_ok db" and "attempts_ok db"
  shows "attempts_ok (snd (purge_finished t db))"
  unfolding attempts_ok_def
proof (intro allI impI)
  fix i r assume "row_of i (snd (purge_finished t db)) = Some r"
  then have r: "row_of i db = Some r" "\<not> purge_matches t r"
    by (auto simp: row_of_purge [OF assms(1)] split: option.splits if_splits)
  have "r_id s \<noteq> i" if "s \<in> set (jobs db)" "purge_matches t s" for s
    using that r db_ok_same_id [OF assms(1), of s r] row_of_in [OF r(1)] by auto
  then have keep: "i \<notin> set (map r_id (select_where (purge_matches t) (jobs db)))"
    by auto
  have "running_attempts i (snd (purge_finished t db)) = running_attempts i db"
    unfolding running_attempts_def purge_finished_def Let_def
    by (simp del: set_map) (rule select_delete_where, use keep in \<open>auto simp: running_of_def\<close>)
  then show "row_attempts_ok r (running_attempts i (snd (purge_finished t db)))"
    using attempts_okD [OF assms(2) r(1)] by simp
qed

lemma attempts_untouched [simp]:
  "job_attempts (snd (ensure_queue env n db)) = job_attempts db"
  "job_attempts (snd (set_queue_paused n p db)) = job_attempts db"
  "job_attempts (snd (register_worker env wk db)) = job_attempts db"
  "job_attempts (snd (heartbeat env w db)) = job_attempts db"
  "job_attempts (snd (deregister_worker w db)) = job_attempts db"
  "job_attempts (snd (prune_dead_workers env secs db)) = job_attempts db"
  by (simp_all add: ensure_queue_eq set_queue_paused_def register_worker_def heartbeat_def
      deregister_worker_def prune_dead_workers_def Let_def split: option.splits)

lemma attempts_ok_exec:
  assumes "db_ok db" and "op_ok op" and "attempts_ok db"
  shows "attempts_ok (exec env op db)"
  using assms
  by (cases op)
    (simp_all add: attempts_ok_submit attempts_ok_cancel attempts_ok_retry attempts_ok_purge
      attempts_ok_lease attempts_ok_complete attempts_ok_fail attempts_ok_renew attempts_ok_recover
      attempts_ok_same [OF assms(3)])

section \<open>The dead-letter table\<close>

abbreviation dead_letter_at :: "uuid \<Rightarrow> 'j db \<Rightarrow> 'j dead_letter_row option" where
  "dead_letter_at i db \<equiv> find_by dl_id i (dead_letter_jobs db)"

definition mirrors :: "'j dead_letter_row \<Rightarrow> 'j job_row \<Rightarrow> bool" where
  "mirrors d r \<longleftrightarrow>
    dl_id d = r_id r \<and> dl_queue d = r_queue r \<and> dl_job_type d = r_job_type r \<and>
    dl_payload d = r_payload r \<and> dl_attempts d = r_attempts r \<and> dl_last_error d = r_last_error r \<and>
    dl_original_created_at d = Some (r_created_at r)"

definition dead_letter_ok :: "'j job_row option \<Rightarrow> 'j dead_letter_row option \<Rightarrow> bool" where
  "dead_letter_ok x y \<longleftrightarrow>
    (case x of
       None \<Rightarrow> y = None
     | Some r \<Rightarrow> if has_status r DeadLettered then \<exists>d. y = Some d \<and> mirrors d r else y = None)"

definition dlq_ok :: "'j db \<Rightarrow> bool" where
  "dlq_ok db \<longleftrightarrow> (\<forall>i. dead_letter_ok (row_of i db) (dead_letter_at i db))"

lemma dlq_okD: "dlq_ok db \<Longrightarrow> dead_letter_ok (row_of i db) (dead_letter_at i db)"
  by (simp add: dlq_ok_def)

lemma dlq_ok_empty: "dlq_ok empty_db"
  by (simp add: dlq_ok_def dead_letter_ok_def empty_db_def)

lemma dead_letter_ok_simps [simp]:
  "dead_letter_ok None y \<longleftrightarrow> y = None"
  "has_status r DeadLettered \<Longrightarrow> dead_letter_ok (Some r) y \<longleftrightarrow> (\<exists>d. y = Some d \<and> mirrors d r)"
  "\<not> has_status r DeadLettered \<Longrightarrow> dead_letter_ok (Some r) y \<longleftrightarrow> y = None"
  by (simp_all add: dead_letter_ok_def)

lemma find_insert_dead_letter:
  "find_by dl_id i (insert_dead_letter d ds) =
    (case find_by dl_id i ds of Some x \<Rightarrow> Some x | None \<Rightarrow> if dl_id d = i then Some d else None)"
proof (cases "dl_id d \<in> set (map dl_id ds)")
  case True
  then have "find_by dl_id (dl_id d) ds \<noteq> None" by (simp only: find_by_None_iff) simp
  with True show ?thesis
    by (auto simp: insert_dead_letter_def split: option.splits)
next
  case False
  then show ?thesis
    by (simp add: insert_dead_letter_def find_by_append split: option.splits)
qed

lemma find_insert_dead_letters:
  assumes "\<And>r. dl_id (g r) = r_id r"
  shows "find_by dl_id i (insert_dead_letters g rs ds) =
    (case find_by dl_id i ds of Some x \<Rightarrow> Some x | None \<Rightarrow> map_option g (find_by r_id i rs))"
  unfolding insert_dead_letters_def
proof (induction rs arbitrary: ds)
  case Nil
  then show ?case by (simp split: option.splits)
next
  case (Cons r rs)
  show ?case
    using Cons [of "insert_dead_letter (g r) ds"]
    by (auto simp: find_insert_dead_letter assms split: option.splits)
qed

lemma find_by_select:
  "find_by k x (select_where (\<lambda>r. k r \<in> S) rows) = (if x \<in> S then find_by k x rows else None)"
  by (induction rows) auto

text \<open>A change of row \<open>i\<close> and its entry.\<close>

lemma dlq_ok_change:
  assumes "dlq_ok db" and "\<And>j. j \<noteq> i \<Longrightarrow> row_of j db' = row_of j db"
    and "\<And>j. j \<noteq> i \<Longrightarrow> dead_letter_at j db' = dead_letter_at j db"
    and "dead_letter_ok (row_of i db') (dead_letter_at i db')"
  shows "dlq_ok db'"
  unfolding dlq_ok_def
proof
  fix j
  show "dead_letter_ok (row_of j db') (dead_letter_at j db')"
    using assms by (cases "j = i") (auto simp: dlq_ok_def)
qed

lemma dlq_ok_update_job:
  assumes "dlq_ok db" and "row_of i db = Some r" and "\<And>x. same_identity x (f x)"
    and "\<not> has_status r DeadLettered" and "\<not> has_status (f r) DeadLettered"
    and "dead_letter_jobs db' = dead_letter_jobs db" and "jobs db' = jobs (update_job i f db)"
  shows "dlq_ok db'"
proof (rule dlq_ok_change [OF assms(1), where i = i])
  have row: "row_of j db' = row_of j (update_job i f db)" for j using assms(7) by simp
  show "row_of j db' = row_of j db" if "j \<noteq> i" for j
    using that row assms(3) by (simp add: row_of_update_job)
  show "dead_letter_ok (row_of i db') (dead_letter_at i db')"
    using dlq_okD [OF assms(1), of i] assms row by (simp add: row_of_update_job)
qed (simp add: assms(6))

lemma renew_status: "r_status (renew_set now secs r) = r_status r"
  by (simp add: renew_set_def)

lemma dlq_ok_steps:
  assumes "db_ok db" and "dlq_ok db"
  shows "dlq_ok (snd (cancel_job env i db))"
    and "dlq_ok (snd (complete_job env i w res db))"
    and "dlq_ok (snd (renew_lease env i w secs db))"
    and "dlq_ok (snd (lease_next env w qs secs db))"
proof -
  note upd = dlq_ok_update_job [OF assms(2)]
  have "dlq_ok (update_job i (cancel_set (pe_now env)) db)"
    if "row_of i db = Some r" "is_cancellable (status_of r)" for r
    using that by (intro upd [of i r]) (auto simp: status_after is_cancellable_def dest: status_of_known)
  then show "dlq_ok (snd (cancel_job env i db))"
    using assms by (auto simp: cancel_job_eq split: option.splits)
  show "dlq_ok (snd (complete_job env i w res db))"
    using assms
    by (auto simp: complete_job_eq split: option.splits)
      (rule upd [of i _ "complete_set (pe_now env) res"], auto simp: status_after held_by_def)
  show "dlq_ok (snd (renew_lease env i w secs db))"
    using assms
    by (auto simp: renew_lease_eq split: option.splits)
      (rule upd [of i _ "renew_set (pe_now env) secs"], auto simp: held_by_def renew_status)
  show "dlq_ok (snd (lease_next env w qs secs db))"
  proof (cases "lease_candidate env qs db")
    case None
    then show ?thesis using assms by (simp add: lease_next_def)
  next
    case (Some c)
    then have "row_of (r_id c) db = Some c" "status_in c [Queued, Scheduled, Retrying]"
      using lease_candidate_SomeD [OF Some] by (auto simp: db_ok_find [OF assms(1)] lease_eligible_def)
    with Some show ?thesis
      by (simp add: lease_next_eq [OF assms(1)] Let_def, intro upd [of "r_id c" c])
        (auto simp: status_after)
  qed
qed

lemma mirrors_dead_letter:
  "mirrors (dead_letter_of now (Some err) r) (dead_letter_set now err r)"
  "mirrors (expired_dead_letter_of now r) (expired_dead_letter_set now r)"
  by (simp_all add: mirrors_def dead_letter_of_def expired_dead_letter_of_def dead_letter_set_def
      expired_dead_letter_set_def clear_lock_def)

lemma dl_id_of [simp]:
  "dl_id (dead_letter_of now e r) = r_id r" "dl_id (expired_dead_letter_of now r) = r_id r"
  by (simp_all add: dead_letter_of_def expired_dead_letter_of_def)

lemma dlq_ok_fail:
  assumes "db_ok db" and "dlq_ok db"
  shows "dlq_ok (snd (fail_job env i w err t db))"
proof -
  have "dlq_ok (fail_db (pe_now env) err t r db)"
    if r: "row_of i db = Some r" "held_by i w r" for r
  proof (rule dlq_ok_change [OF assms(2), where i = i])
    have ri: "r_id r = i" using r(1) row_of_in by blast
    have none: "dead_letter_at i db = None"
      using dlq_okD [OF assms(2), of i] r by (simp add: held_by_def)
    have dl: "dead_letter_at j (fail_db (pe_now env) err t r db) =
        (case dead_letter_at j db of Some x \<Rightarrow> Some x
         | None \<Rightarrow> if exhausted_dead_letter r \<and> j = i
             then Some (dead_letter_of (pe_now env) (Some err) r) else None)" for j
      using ri by (auto simp: fail_db_def dead_letters_after_def find_insert_dead_letter split: option.splits)
    then show "dead_letter_at j (fail_db (pe_now env) err t r db) = dead_letter_at j db"
      if "j \<noteq> i" for j using that by (simp split: option.splits)
    show "dead_letter_ok (row_of i (fail_db (pe_now env) err t r db))
        (dead_letter_at i (fail_db (pe_now env) err t r db))"
      using mirrors_dead_letter(1)
      by (auto simp: dl none row_of_fail_db [OF r(1)] fail_set_def exhausted_dead_letter_def status_after)
  qed (simp add: row_of_fail_db [OF r(1)])
  with assms show ?thesis by (auto simp: fail_job_eq split: option.splits)
qed

lemma dlq_ok_recover:
  assumes "db_ok db" and "dlq_ok db"
  shows "dlq_ok (snd (recover_expired_leases env limit db))"
proof (cases "limit < 0")
  case True
  then show ?thesis using assms by (simp add: recover_expired_leases_neg)
next
  case False
  let ?D = "expired_ids env exhausted_dead_letter limit db"
  have picked: "find_by r_id i (select_where (with_id_in ?D) (jobs db)) =
      (if i \<in> set ?D then row_of i db else None)" for i
    using find_by_select [of r_id i "set ?D" "jobs db"] by (simp add: with_id_in_def [abs_def])
  have dl: "find_by dl_id i (reaped_dead_letters env limit db) =
      (case dead_letter_at i db of Some x \<Rightarrow> Some x
       | None \<Rightarrow> if i \<in> set ?D then map_option (expired_dead_letter_of (pe_now env)) (row_of i db) else None)"
    for i
    by (simp add: reaped_dead_letters_def find_insert_dead_letters picked split: option.splits)
  have "dead_letter_ok (row_of i (reaped env limit db)) (dead_letter_at i (reaped env limit db))" for i
  proof (cases "row_of i db")
    case None
    then show ?thesis using dlq_okD [OF assms(2), of i] by (simp add: row_of_reaped [OF assms(1)] dl)
  next
    case (Some r)
    note ids = expired_ids_row [OF assms(1) Some]
    show ?thesis
    proof (cases "i \<in> recovered_ids env limit db")
      case True
      then have "has_status r Processing"
        using recovered_row [OF assms(1) Some] by (simp add: expired_def)
      then have none: "dead_letter_at i db = None"
        using dlq_okD [OF assms(2), of i] Some by simp
      have "i \<in> set ?D \<longleftrightarrow> exhausted_dead_letter r"
        using True ids classes_disjoint [of r] by (auto simp: recovered_ids_def)
      then show ?thesis
        using mirrors_dead_letter(2) [of "pe_now env" r] True
        by (auto simp: row_of_reaped [OF assms(1)] Some dl none reap_set_def status_after
            exhausted_dead_letter_def retryable_def)
    next
      case False
      then have "i \<notin> set ?D" by (simp add: recovered_ids_def)
      then show ?thesis
        using dlq_okD [OF assms(2), of i] False
        by (cases "dead_letter_at i db") (simp_all add: row_of_reaped [OF assms(1)] Some dl)
    qed
  qed
  then have "dlq_ok (close_attempts env ids (reaped env limit db))" for ids
    by (simp add: dlq_ok_def)
  with False show ?thesis by (simp add: recover_expired_leases_run [OF assms(1)])
qed

lemma dlq_ok_retry:
  assumes "db_ok db" and "dlq_ok db"
  shows "dlq_ok (snd (retry_job env i db))"
proof -
  let ?db' = "delete_dead_letter i (update_job i (retry_set (pe_now env)) db)"
  have dl: "dead_letter_at j ?db' = (if j = i then None else dead_letter_at j db)" for j
    using find_by_delete_where [of dl_id "dead_letter_jobs db" j "\<lambda>d. dl_id d = i"] assms(1)
    by (auto simp: delete_dead_letter_def db_ok_def dest: find_by_SomeD split: option.splits)
  have "dlq_ok ?db'" if "row_of i db = Some r" for r
  proof (rule dlq_ok_change [OF assms(2), where i = i])
    show "dead_letter_ok (row_of i ?db') (dead_letter_at i ?db')"
      unfolding dl using that
      by (simp add: delete_dead_letter_def row_of_update_job status_after)
  qed (simp_all add: dl, simp add: delete_dead_letter_def row_of_update_job)
  with assms show ?thesis by (auto simp: retry_job_eq split: option.splits)
qed

lemma dlq_ok_submit:
  assumes "db_ok db" and "dlq_ok db" and "normalized_ok z"
  shows "dlq_ok (snd (submit env z db))"
proof -
  let ?db1 = "insert_queue (pe_now env) (z_queue z) db"
  let ?r = "new_row (pe_now env) (pe_uuid env) z"
  have ok1: "dlq_ok ?db1" using assms(2) by (simp add: dlq_ok_def)
  have "dlq_ok (add_job ?r ?db1)" if free: "row_of (pe_uuid env) db = None"
  proof (rule dlq_ok_change [OF ok1, where i = "pe_uuid env"])
    have "z_status z \<in> {Queued, Scheduled}" using assms(3) by (auto simp: normalized_ok_def)
    then show "dead_letter_ok (row_of (pe_uuid env) (add_job ?r ?db1))
        (dead_letter_at (pe_uuid env) (add_job ?r ?db1))"
      using dlq_okD [OF assms(2), of "pe_uuid env"] free
        new_row_status(1) [of "pe_now env" "pe_uuid env" z]
      by (auto simp: row_of_add_job new_row_status(2))
  qed (simp_all add: row_of_add_job new_row_status free split: option.splits)
  with ok1 show ?thesis
    by (auto simp: submit_eq [OF assms(1,3)] Let_def split: option.splits)
qed

lemma dlq_ok_purge:
  assumes "db_ok db" and "dlq_ok db"
  shows "dlq_ok (snd (purge_finished t db))"
  unfolding dlq_ok_def
proof
  fix i
  have "dead_letter_at i (snd (purge_finished t db)) = dead_letter_at i db"
    by (simp add: purge_finished_def Let_def)
  then show "dead_letter_ok (row_of i (snd (purge_finished t db)))
      (dead_letter_at i (snd (purge_finished t db)))"
    using dlq_okD [OF assms(2), of i]
    by (auto simp: row_of_purge [OF assms(1)] purge_matches_def split: option.splits)
qed

lemma dead_letters_untouched [simp]:
  "dead_letter_jobs (snd (ensure_queue env n db)) = dead_letter_jobs db"
  "dead_letter_jobs (snd (set_queue_paused n p db)) = dead_letter_jobs db"
  "dead_letter_jobs (snd (register_worker env wk db)) = dead_letter_jobs db"
  "dead_letter_jobs (snd (heartbeat env w db)) = dead_letter_jobs db"
  "dead_letter_jobs (snd (deregister_worker w db)) = dead_letter_jobs db"
  "dead_letter_jobs (snd (prune_dead_workers env secs db)) = dead_letter_jobs db"
  by (simp_all add: ensure_queue_eq set_queue_paused_def register_worker_def heartbeat_def
      deregister_worker_def prune_dead_workers_def Let_def split: option.splits)

lemma dlq_ok_exec:
  assumes "db_ok db" and "op_ok op" and "dlq_ok db"
  shows "dlq_ok (exec env op db)"
  using assms
  by (cases op)
    (simp_all add: dlq_ok_submit dlq_ok_steps dlq_ok_retry dlq_ok_purge dlq_ok_fail dlq_ok_recover,
     simp_all add: dlq_ok_def)

section \<open>The invariant of the store\<close>

definition store_ok :: "'j db \<Rightarrow> bool" where
  "store_ok db \<longleftrightarrow> db_ok db \<and> attempts_ok db \<and> dlq_ok db"

lemma store_ok_exec: "store_ok db \<Longrightarrow> op_ok op \<Longrightarrow> store_ok (exec env op db)"
  by (simp add: store_ok_def db_ok_exec attempts_ok_exec dlq_ok_exec)

lemma store_ok_run: "store_ok db \<Longrightarrow> calls_ok calls \<Longrightarrow> store_ok (run calls db)"
  by (induction calls db rule: run.induct) (simp_all add: store_ok_exec)

lemma store_ok_empty: "store_ok empty_db"
  by (simp add: store_ok_def db_ok_empty attempts_ok_empty dlq_ok_empty)

lemma store_ok_reached: "calls_ok calls \<Longrightarrow> store_ok (run calls empty_db)"
  by (simp add: store_ok_run store_ok_empty)

text \<open>
  C1. The invariant of the store holds in every state reached by any sequence of calls.  Keys and foreign
  keys hold; every row satisfies the limits and checks of its columns; a job has a lock, a lock time
  and a lease exactly while it is \<open>Processing\<close>; its attempts never exceed its maximum and a waiting job has one
  left; a completion time marks exactly the completed jobs; a \<open>Processing\<close> job has exactly one running
  attempt, which carries its attempt number and its worker, and no other job but a cancelled one
  has any; and the dead-letter table holds an entry for exactly the dead-lettered jobs, each with its
  job's queue, type, payload, attempts, last error and creation time.
\<close>

theorem store_invariant:
  assumes "calls_ok calls"
  shows "store_ok (run calls empty_db)"
  by (rule store_ok_reached [OF assms])

theorem store_invariant_witness:
  "store_ok (run (sample_calls @ work_calls) empty_db) \<and>
   length (jobs (run (sample_calls @ work_calls) empty_db)) = 2 \<and>
   length (dead_letter_jobs (run (sample_calls @ work_calls) empty_db)) = 1"
proof (intro conjI)
  have "calls_ok (sample_calls @ work_calls)" by code_simp
  then show "store_ok (run (sample_calls @ work_calls) empty_db)" by (rule store_invariant)
  show "length (jobs (run (sample_calls @ work_calls) empty_db)) = 2"
    "length (dead_letter_jobs (run (sample_calls @ work_calls) empty_db)) = 1"
    by code_simp+
qed

end
