(* ===== verification/Store_Queries.thy ===== *)
theory Store_Queries
  imports Attempt_Log
begin

text \<open>
  Submission with idempotency keys, operator actions, the aggregate and list queries, and worker
  liveness, as seen by callers of the store.
\<close>

section \<open>Submission\<close>

definition has_key :: "string \<Rightarrow> string option \<Rightarrow> 'j job_row \<Rightarrow> bool" where
  "has_key name key r \<longleftrightarrow> key \<noteq> None \<and> r_queue r = name \<and> r_idempotency_key r = key"

lemma job_by_key_iff:
  assumes "db_ok db"
  shows "job_by_key name key db = Some r \<longleftrightarrow> r \<in> set (jobs db) \<and> has_key name key r"
  using select_by_key_iff [OF assms] by (auto simp: job_by_key_def has_key_def split: option.splits)

lemma job_by_key_None:
  "job_by_key name key db = None \<longleftrightarrow> (\<forall>r \<in> set (jobs db). \<not> has_key name key r)"
  by (auto simp: job_by_key_def has_key_def select_by_key_None_iff split: option.splits)


definition keyed_job :: "unit normalized_job" where
  "keyed_job = (sample_job 0 1 True)\<lparr>z_idempotency_key := Some ''k''\<rparr>"


lemma submit_has_key:
  assumes "db_ok db" and "normalized_ok z" and "z_idempotency_key z \<noteq> None"
    and "fst (submit env z db) = Ok s"
  shows "\<exists>r. row_of (j_id (sub_job s)) (snd (submit env z db)) = Some r \<and>
    has_key (z_queue z) (z_idempotency_key z) r"
proof (cases "job_by_key (z_queue z) (z_idempotency_key z) db")
  case (Some x)
  then have x: "x \<in> set (jobs db)" "has_key (z_queue z) (z_idempotency_key z) x"
    using job_by_key_iff [OF assms(1)] by blast+
  have s: "s = \<lparr>sub_job = job_of x, sub_created = False\<rparr>"
    using assms(4) Some by (simp add: submit_eq [OF assms(1,2)] Let_def)
  have "j_id (job_of x) = r_id x"
    by (rule job_of_fields(1) [OF status_of_row [OF db_ok_row [OF assms(1) x(1)]]])
  then show ?thesis
    using Some x s by (auto simp: submit_eq [OF assms(1,2)] Let_def db_ok_find [OF assms(1)])
next
  case None
  let ?r = "new_row (pe_now env) (pe_uuid env) z"
  have free: "row_of (pe_uuid env) db = None" and s: "s = \<lparr>sub_job = job_of ?r, sub_created = True\<rparr>"
    using assms(4) None by (auto simp: submit_eq [OF assms(1,2)] Let_def split: if_splits)
  have "j_id (job_of ?r) = pe_uuid env"
    by (simp add: job_of_fields(1) [OF new_row_status(1)] new_row_status)
  then show ?thesis
    using None free s assms(3)
    by (simp add: submit_eq [OF assms(1,2)] Let_def row_of_add_job new_row_status has_key_def)
      (simp add: new_row_def)
qed

lemma has_key_same_request: "has_key n k r \<Longrightarrow> same_request r r' \<Longrightarrow> has_key n k r'"
  by (simp add: has_key_def same_request_def same_identity_def)

lemma run_same_request:
  assumes "db_ok db" and "calls_ok calls" and "no_purge calls" and "row_of i db = Some r"
  shows "\<exists>r'. row_of i (run calls db) = Some r' \<and> same_request r r'"
proof (rule run_row_invariant [where Q = "\<lambda>_. True", OF assms(1,2)])
  fix env op x y
  assume "(env, op) \<in> set calls" and step: "row_step env op x y" and P: "\<exists>r'. x = Some r' \<and> same_request r r'"
  then have "\<not> is_purge op" using assms(3) by (auto simp: no_purge_def list_all_iff)
  with step P obtain s s' where "x = Some s" "same_request r s" "y = Some s'"
    by (cases y) (auto elim: row_step_SomeE)
  then show "\<exists>r'. y = Some r' \<and> same_request r r'"
    using same_request_trans same_request_step step by blast
qed (use assms(4) in \<open>auto simp: same_request_def\<close>)

text \<open>A keyed submission, and any later one with the same queue and key.\<close>

lemma submit_again:
  assumes "db_ok db0" and "normalized_ok z" and "z_idempotency_key z \<noteq> None"
    and "fst (submit env z (db0)) = Ok s"
    and "calls_ok calls" and "no_purge calls"
    and "normalized_ok z'" and "z_queue z' = z_queue z" and "z_idempotency_key z' = z_idempotency_key z"
  shows "let db = run calls (snd (submit env z db0)); (out, db') = submit env' z' db
    in \<exists>s'. out = Ok s' \<and> j_id (sub_job s') = j_id (sub_job s) \<and> \<not> sub_created s' \<and> jobs db' = jobs db"
proof -
  define db where "db = run calls (snd (submit env z db0))"
  have ok1: "db_ok (snd (submit env z db0))" by (rule db_ok_submit [OF assms(1,2)])
  obtain r where r: "row_of (j_id (sub_job s)) (snd (submit env z db0)) = Some r"
    "has_key (z_queue z) (z_idempotency_key z) r"
    using submit_has_key [OF assms(1-4)] by blast
  obtain r' where r': "row_of (j_id (sub_job s)) db = Some r'" "same_request r r'"
    using run_same_request [OF ok1 assms(5,6) r(1)] by (auto simp: db_def)
  have ok: "db_ok db" unfolding db_def by (rule db_ok_run [OF ok1 assms(5)])
  have "r' \<in> set (jobs db)" "r_id r' = j_id (sub_job s)" using row_of_in [OF r'(1)] by simp_all
  moreover have "has_key (z_queue z') (z_idempotency_key z') r'"
    using has_key_same_request [OF r(2) r'(2)] assms(8,9) by simp
  ultimately have found: "job_by_key (z_queue z') (z_idempotency_key z') db = Some r'"
    by (simp add: job_by_key_iff [OF ok])
  have "j_id (job_of r') = j_id (sub_job s)"
    using job_of_fields(1) [OF status_of_row [OF db_ok_row_of [OF ok r'(1)]]] row_of_in [OF r'(1)] by simp
  then show ?thesis
    unfolding db_def [symmetric] using found by (simp add: submit_eq [OF ok assms(7)] Let_def)
qed

text \<open>
  C25. Submissions are idempotent.  Once a submission with an idempotency key has succeeded, then whatever the store
  does next (short of a purge), every later submission with the same queue and key succeeds, returns the
  job with the same id and \<open>created = false\<close>, and adds no job.
\<close>

theorem submit_idempotent:
  assumes "calls_ok before" and "normalized_ok z" and "z_idempotency_key z \<noteq> None"
    and "fst (submit env z (run before empty_db)) = Ok s"
    and "calls_ok calls" and "no_purge calls"
    and "normalized_ok z'" and "z_queue z' = z_queue z" and "z_idempotency_key z' = z_idempotency_key z"
  shows "let db = run (before @ (env, Submit z) # calls) empty_db; (out, db') = submit env' z' db
    in \<exists>s'. out = Ok s' \<and> j_id (sub_job s') = j_id (sub_job s) \<and> \<not> sub_created s' \<and> jobs db' = jobs db"
  using submit_again [OF db_ok_reached [OF assms(1)] assms(2-9), of env'] by simp

theorem submit_idempotent_witness:
  "\<exists>s'. fst (submit (sample_env 9 5) (keyed_job\<lparr>z_priority := 3\<rparr>)
      (run ([] @ (sample_env 0 1, Submit keyed_job) # rival_calls) empty_db)) = Ok s' \<and>
    j_id (sub_job s') = 1 \<and> \<not> sub_created s'"
proof -
  let ?s = "\<lparr>sub_job = job_of (new_row 0 1 keyed_job), sub_created = True\<rparr>"
  have facts: "calls_ok ([] :: unit call list)" "normalized_ok keyed_job"
    "z_idempotency_key keyed_job \<noteq> None"
    "fst (submit (sample_env 0 1) keyed_job (run [] empty_db)) = Ok ?s"
    "calls_ok rival_calls" "no_purge rival_calls" "normalized_ok (keyed_job\<lparr>z_priority := 3\<rparr>)"
    "z_queue (keyed_job\<lparr>z_priority := 3\<rparr>) = z_queue keyed_job"
    "z_idempotency_key (keyed_job\<lparr>z_priority := 3\<rparr>) = z_idempotency_key keyed_job"
    "j_id (sub_job ?s) = 1"
    by code_simp+
  from submit_idempotent [OF facts(1-9), of "sample_env 9 5"] facts(10) show ?thesis
    by (auto simp: Let_def split: prod.splits)
qed

section \<open>Operator actions\<close>

text \<open>
  C38. Cancellation and manual retry in every reachable state.  A cancellation succeeds exactly for the
  cancellable statuses and returns the job as \<open>Cancelled\<close> without lock; a retry succeeds exactly for failed and
  dead-lettered jobs and returns the job \<open>Queued\<close>, due now, with its attempts back to zero, its error cleared
  and its dead-letter entry gone.  Otherwise the call changes nothing and is answered with \<open>JobNotFound\<close> or
  with \<open>InvalidOperation\<close> and the current status.
\<close>

theorem operator_actions_exact:
  assumes "calls_ok calls"
  shows "let db = run calls empty_db; (c, dbc) = cancel_job env i db; (t, dbt) = retry_job env i db
    in (case row_of i db of
          None \<Rightarrow> c = Err (JobNotFound i) \<and> dbc = db \<and> t = Err (JobNotFound i) \<and> dbt = db
        | Some r \<Rightarrow>
            (if is_cancellable (status_of r)
             then \<exists>j. c = Ok j \<and> get_job i dbc = Ok (Some j) \<and> j_status j = Cancelled \<and>
               j_locked_by j = None \<and> j_lease_expires_at j = None
             else c = Err (InvalidOperation ''cancel'' (status_of r)) \<and> dbc = db) \<and>
            (if status_of r \<in> {Failed, DeadLettered}
             then \<exists>j. t = Ok j \<and> get_job i dbt = Ok (Some j) \<and> j_status j = Queued \<and>
               j_run_at j = pe_now env \<and> j_attempts j = 0 \<and> j_last_error j = None \<and>
               dead_letter_at i dbt = None
             else t = Err (InvalidOperation ''retry'' (status_of r)) \<and> dbt = db))"
proof -
  let ?db = "run calls empty_db" and ?now = "pe_now env"
  have store: "store_ok ?db" by (rule store_ok_reached [OF assms])
  then have ok: "db_ok ?db" by (simp add: store_ok_def)
  have okc: "db_ok (snd (cancel_job env i ?db))" by (rule db_ok_cancel_job [OF ok])
  have okt: "db_ok (snd (retry_job env i ?db))" "dlq_ok (snd (retry_job env i ?db))"
    using store_ok_exec [OF store, of "RetryJob i" env] by (simp_all add: store_ok_def)
  show ?thesis
  proof (cases "row_of i ?db")
    case None
    then show ?thesis by (simp add: cancel_job_eq [OF ok] retry_job_eq [OF ok])
  next
    case (Some r)
    have c: "get_job i (snd (cancel_job env i ?db)) = Ok (Some (job_of (cancel_set ?now r)))"
      if "is_cancellable (status_of r)"
      using that Some fetch_job_eq [OF okc, of i]
      by (simp add: get_job_def cancel_job_eq [OF ok] row_of_update_job)
    have row: "row_of i (snd (retry_job env i ?db)) = Some (retry_set ?now r)"
      if "status_of r \<in> {Failed, DeadLettered}"
      using that Some by (auto simp: retry_job_eq [OF ok] row_of_update_job delete_dead_letter_def)
    then have t: "get_job i (snd (retry_job env i ?db)) = Ok (Some (job_of (retry_set ?now r)))"
      "dead_letter_at i (snd (retry_job env i ?db)) = None"
      if "status_of r \<in> {Failed, DeadLettered}"
      using that fetch_job_eq [OF okt(1), of i] dlq_okD [OF okt(2), of i]
      by (simp_all add: get_job_def status_after)
    have fields: "j_locked_by (job_of (cancel_set ?now r)) = None"
      "j_lease_expires_at (job_of (cancel_set ?now r)) = None"
      "j_run_at (job_of (retry_set ?now r)) = ?now" "j_attempts (job_of (retry_set ?now r)) = 0"
      "j_last_error (job_of (retry_set ?now r)) = None"
      by (simp_all add: job_of_fields [OF status_after(1)] job_of_fields [OF status_after(2)])
        (simp_all add: cancel_set_def retry_set_def clear_lock_def)
    show ?thesis
      using Some c t fields
      by (cases "is_cancellable (status_of r)"; cases "status_of r \<in> {Failed, DeadLettered}")
        (simp_all add: cancel_job_eq [OF ok] retry_job_eq [OF ok])
  qed
qed

theorem operator_actions_exact_witness:
  "fst (retry_job (sample_env 9 0) 1 (run sample_calls empty_db)) =
     Err (InvalidOperation ''retry'' Processing) \<and>
   (\<exists>j. fst (retry_job (sample_env 9 0) 1 (run failed_calls empty_db)) = Ok j \<and> j_status j = Queued)"
proof -
  have facts: "calls_ok sample_calls" "calls_ok failed_calls"
    "row_of 1 (run sample_calls empty_db) = Some (sample_row 1 sample_calls)"
    "row_of 1 (run failed_calls empty_db) = Some (sample_row 1 failed_calls)"
    "status_of (sample_row 1 sample_calls) = Processing"
    "status_of (sample_row 1 failed_calls) = DeadLettered"
    by code_simp+
  from operator_actions_exact [OF facts(1), of "sample_env 9 0" 1]
    operator_actions_exact [OF facts(2), of "sample_env 9 0" 1] facts(3-6)
  show ?thesis by (auto simp: Let_def split: prod.splits)
qed

text \<open>The log of a finished job is never touched again.\<close>

lemma finished_not_held: "finished r \<Longrightarrow> \<not> held_by i w r" "finished r \<Longrightarrow> \<not> expired env r"
  by (auto simp: finished_def held_by_def expired_def)

lemma running_finished_step:
  assumes "db_ok db" and "op_ok op" and "row_of i db = Some r" and "finished r" and "\<not> is_purge op"
  shows "running_attempts i (exec env op db) = running_attempts i db"
proof (cases op)
  case (Submit z)
  then show ?thesis
    using assms(1,2) by (auto simp: running_attempts_def submit_eq Let_def split: option.splits)
next
  case (LeaseNext w qs secs)
  have "r_id c \<noteq> i" if "lease_candidate env qs db = Some c" for c
    using lease_candidate_SomeD(1,2) [OF that] assms(3,4) db_ok_find [OF assms(1), of i c]
    by (auto simp: finished_def lease_eligible_def)
  with LeaseNext show ?thesis
    by (auto simp: running_attempts_def lease_next_eq [OF assms(1)] Let_def select_where_def
        running_of_def running_attempt_def split: option.splits)
next
  case (CompleteJob j w res)
  then show ?thesis
    using assms(3,4)
    by (auto simp: running_attempts_def complete_job_eq [OF assms(1)] running_close
        dest: finished_not_held(1) split: option.splits)
next
  case (FailJob j w err t)
  have "r_id r' = j" if "row_of j db = Some r'" for r' using row_of_in [OF that] by simp
  with FailJob show ?thesis
    using assms(3,4)
    by (auto simp: running_attempts_def fail_job_eq [OF assms(1)] fail_db_def running_close
        dest: finished_not_held(1) split: option.splits)
next
  case (RecoverExpired n)
  show ?thesis
  proof (cases "n < 0")
    case False
    have "i \<notin> set (recovered_list env n db)"
      using recovered_row [OF assms(1,3)] finished_not_held(2) [OF assms(4)]
      by (auto simp: set_recovered_list [OF assms(1)])
    then have "select_where (running_of i) (job_attempts (close_attempts env (recovered_list env n db)
        (reaped env n db))) = select_where (running_of i) (job_attempts db)"
      unfolding attempts_close_attempts reaped_tables
      by (intro filter_closed) (auto simp: running_of_def)
    with RecoverExpired False show ?thesis
      by (simp add: recover_expired_leases_run [OF assms(1)] running_attempts_def)
  qed (simp add: RecoverExpired recover_expired_leases_neg)
qed (use assms in \<open>auto simp: running_attempts_def cancel_job_eq retry_job_eq renew_lease_eq
    delete_dead_letter_def split: option.splits\<close>)

lemma running_finished_run:
  assumes "db_ok db" and "calls_ok calls" and "no_purge calls" and "row_of i db = Some r" and "finished r"
  shows "running_attempts i (run calls db) = running_attempts i db"
  using assms
proof (induction calls db rule: run.induct)
  case (2 env op calls db)
  then have op: "op_ok op" "\<not> is_purge op" "calls_ok calls" "no_purge calls" by (simp_all add: no_purge_def)
  have "row_of i (exec env op db) = Some r"
    using finished_step [OF _ 2(6) op(2)] row_step_exec [OF 2(2) op(1), of env i] 2(5) by simp
  then show ?case
    using "2.IH" [OF db_ok_exec [OF 2(2) op(1)] op(3,4) _ 2(6)]
      running_finished_step [OF 2(2) op(1) 2(5,6) op(2)] by simp
qed simp

text \<open>
  C39. Cancelling a job that is being processed leaves its attempt \<open>running\<close> in the log for good: the holder's later
  reports are refused, the reaper no longer sees the job, and after any further calls (until the job
  is purged) the attempt is still recorded as running.
\<close>

theorem cancelled_attempt_stays_running:
  assumes "calls_ok before" and "row_of i (run before empty_db) = Some r" and "has_status r Processing"
    and "calls_ok calls" and "no_purge calls"
  shows "\<exists>a. running_attempts i (run (before @ (env, CancelJob i) # calls) empty_db) = [a] \<and>
    a_attempt a = r_attempts r \<and> a_worker_id a = r_locked_by r"
proof -
  let ?db = "run before empty_db"
  have store: "store_ok ?db" by (rule store_ok_reached [OF assms(1)])
  then have ok: "db_ok ?db" "attempts_ok ?db" by (simp_all add: store_ok_def)
  define db1 where "db1 = snd (cancel_job env i ?db)"
  have "is_cancellable (status_of r)" using assms(3) by (simp add: status_of_known is_cancellable_def)
  then have db1: "db1 = update_job i (cancel_set (pe_now env)) ?db"
    using assms(2) by (simp add: db1_def cancel_job_eq [OF ok(1)])
  then have row: "row_of i db1 = Some (cancel_set (pe_now env) r)"
    using assms(2) by (simp add: row_of_update_job)
  have "db_ok db1" unfolding db1_def by (rule db_ok_cancel_job [OF ok(1)])
  then have "running_attempts i (run calls db1) = running_attempts i db1"
    using row by (rule running_finished_run [OF _ assms(4,5)]) (simp add: finished_def status_after)
  moreover have "running_attempts i db1 = running_attempts i ?db" by (simp add: db1 running_attempts_def)
  ultimately show ?thesis
    using attempts_okD [OF ok(2) assms(2)] assms(3) by (simp add: row_attempts_ok_def db1_def)
qed

theorem cancelled_attempt_stays_running_witness:
  "\<exists>a. running_attempts 1 (run (sample_calls @ (sample_env 5 0, CancelJob 1) # rival_calls) empty_db) = [a] \<and>
    a_attempt a = r_attempts (sample_row 1 sample_calls) \<and>
    a_worker_id a = r_locked_by (sample_row 1 sample_calls)"
proof (rule cancelled_attempt_stays_running)
  show "calls_ok sample_calls" "calls_ok rival_calls" "no_purge rival_calls"
    "row_of 1 (run sample_calls empty_db) = Some (sample_row 1 sample_calls)"
    "has_status (sample_row 1 sample_calls) Processing"
    by code_simp+
qed

section \<open>Counts and listings\<close>

lemma count_partition:
  assumes "\<And>r. r \<in> set rows \<Longrightarrow> \<exists>s. has_status r s"
  shows "(\<Sum>s \<in> UNIV. int (length (filter (\<lambda>r. P r \<and> has_status r s) rows))) = int (length (filter P rows))"
  using assms
proof (induction rows)
  case (Cons r rows)
  then obtain t where t: "has_status r t" by auto
  then have one: "has_status r s \<longleftrightarrow> s = t" for s by auto
  have "(\<Sum>s \<in> UNIV. int (length (filter (\<lambda>r. P r \<and> has_status r s) (r # rows)))) =
      (\<Sum>s \<in> UNIV. int (length (filter (\<lambda>r. P r \<and> has_status r s) rows)) +
        (if P r \<and> s = t then 1 else 0))"
    by (rule sum.cong) (auto simp: one)
  also have "\<dots> = int (length (filter P rows)) + (if P r then 1 else 0)"
    using Cons by (simp add: sum.distrib)
  finally show ?case by simp
qed simp

text \<open>
  The per-status counts of a queue are exact: \<open>queue_stats\<close> of a known queue gives, for each of the eight
  statuses, the number of the queue's jobs in that status, and the eight counts add up to all the jobs
  of the queue; an unknown queue is reported as \<open>QueueNotFound\<close>.
\<close>

theorem queue_stats_exact:
  assumes "calls_ok calls"
  shows "let db = run calls empty_db in
    case queue_of name db of
      None \<Rightarrow> queue_stats_of name db = Err (QueueNotFound name)
    | Some q \<Rightarrow> \<exists>st. queue_stats_of name db = Ok st \<and> st_queue st = name \<and> st_paused st = q_paused q \<and>
        (\<forall>s. stat_field s st =
          int (length (filter (\<lambda>r. r_queue r = name \<and> has_status r s) (jobs db)))) \<and>
        (\<Sum>s \<in> UNIV. stat_field s st) = int (length (filter (\<lambda>r. r_queue r = name) (jobs db)))"
proof (cases "queue_of name (run calls empty_db)")
  case None
  then show ?thesis by (simp add: queue_stats_of_def get_queue_def)
next
  case (Some q)
  let ?db = "run calls empty_db"
  obtain st where st: "queue_stats_of name ?db = Ok st" "st_queue st = name"
    "st_paused st = q_paused q" "\<And>s. stat_field s st = count_jobs name s ?db"
    using queue_stats_of_eq [OF Some] by blast
  have "\<exists>s. has_status r s" if "r \<in> set (jobs ?db)" for r
    using row_ok_has_status db_ok_row [OF db_ok_reached [OF assms]] that by blast
  then have "(\<Sum>s \<in> UNIV. stat_field s st) = int (length (filter (\<lambda>r. r_queue r = name) (jobs ?db)))"
    using count_partition [of "jobs ?db" "\<lambda>r. r_queue r = name"] by (simp add: st count_jobs_def)
  with Some st show ?thesis by (simp add: Let_def count_jobs_def)
qed

theorem queue_stats_exact_witness:
  "\<exists>st. queue_stats_of ''q'' (run sample_calls empty_db) = Ok st \<and> stat_field Processing st = 2"
proof -
  have facts: "calls_ok sample_calls" "queue_of ''q'' (run sample_calls empty_db) \<noteq> None"
    "int (length (filter (\<lambda>r. r_queue r = ''q'' \<and> has_status r Processing)
      (jobs (run sample_calls empty_db)))) = 2"
    by code_simp+
  then obtain q where "queue_of ''q'' (run sample_calls empty_db) = Some q" by blast
  then obtain st where st: "queue_stats_of ''q'' (run sample_calls empty_db) = Ok st"
    "\<forall>s. stat_field s st = int (length (filter (\<lambda>r. r_queue r = ''q'' \<and> has_status r s)
      (jobs (run sample_calls empty_db))))"
    using queue_stats_exact [OF facts(1), of "''q''"] by (auto simp: Let_def)
  show ?thesis by (rule exI [of _ st], rule conjI [OF st(1)]) (simp only: st(2) facts(3))
qed

text \<open>
  Pagination loses and repeats nothing.  With a page size \<open>n\<close> between 1 and any bound, the pages at offsets
  \<open>0, n, 2n, ...\<close> are all returned without error, and one after the other they list the jobs that match
  the filter, each exactly once, newest first.
\<close>

theorem list_jobs_pages:
  assumes "calls_ok calls"
  shows "let db = run calls empty_db; all = matching_jobs q st jt db
    in (\<exists>pages. (\<forall>k. list_jobs env q st jt (int n) (int (k * n)) db = Ok (pages k)) \<and>
        (length all \<le> m * n \<longrightarrow> concat (map pages [0..<m]) = map job_of all)) \<and>
      mset all = mset (filter (\<lambda>r. null_or_eq q (r_queue r) \<and> null_or_eq st (r_status r) \<and>
        null_or_eq jt (r_job_type r)) (jobs db)) \<and>
      sorted (map (\<lambda>r. - r_created_at r) all)"
proof -
  let ?db = "run calls empty_db"
  let ?all = "matching_jobs q st jt ?db"
  let ?page = "\<lambda>k. map job_of (take n (drop (k * n) ?all))"
  have ok: "db_ok ?db" by (rule db_ok_reached [OF assms])
  have "list_jobs env q st jt (int n) (int (k * n)) ?db = Ok (?page k)" for k
    using list_jobs_eq [OF ok, of "int n" "int (k * n)" env q st jt]
    by (simp only: of_nat_0_le_iff nat_int simp_thms)
  moreover have "concat (map ?page [0..<m]) = map job_of ?all" if "length ?all \<le> m * n"
  proof -
    have "concat (map ?page [0..<m]) = map job_of (concat (map (\<lambda>k. take n (drop (k * n) ?all)) [0..<m]))"
      by (simp add: map_concat comp_def)
    also have "\<dots> = map job_of ?all" using that by (simp add: concat_pages)
    finally show ?thesis .
  qed
  ultimately show ?thesis
    by (auto simp: Let_def matching_jobs_def order_by_def select_where_def)
qed

theorem list_jobs_pages_witness:
  "\<exists>pages. (\<forall>k. list_jobs (sample_env 9 0) None None None 1 (int (k * 1)) (run sample_calls empty_db) =
      Ok (pages k)) \<and>
    map j_id (concat (map pages [0..<2])) = [2, 1]"
proof -
  have facts: "calls_ok sample_calls"
    "length (matching_jobs None None None (run sample_calls empty_db)) \<le> 2 * 1"
    "map j_id (map job_of (matching_jobs None None None (run sample_calls empty_db))) = [2, 1]"
    by code_simp+
  from list_jobs_pages [OF facts(1), of None None None "sample_env 9 0" 1 2] facts(2,3)
  show ?thesis by (auto simp: Let_def)
qed

section \<open>Worker liveness\<close>

text \<open>
  A worker that keeps its heartbeat is never pruned.  After a heartbeat of a registered worker at time \<open>t\<close>
  (which returns true), a prune at a time at most \<open>ttl\<close> seconds later keeps the worker, and the active list
  over a longer window contains it; after a prune more than \<open>ttl\<close> seconds later it is gone, and its next
  heartbeat returns false.
\<close>

theorem heartbeat_keeps_worker:
  assumes "calls_ok calls" and "worker_of w (run calls empty_db) = Some x"
  shows "let db = run calls empty_db; (beat, db1) = heartbeat env w db;
      db2 = snd (prune_dead_workers env' ttl db1)
    in beat = Ok True \<and>
      (pe_now env' \<le> pe_now env + interval_secs ttl \<longrightarrow>
        worker_of w db2 = Some (x\<lparr>w_last_heartbeat := pe_now env\<rparr>) \<and>
        (ttl < window \<longrightarrow> (\<exists>ws. list_active_workers env' window db2 = Ok ws \<and>
          x\<lparr>w_last_heartbeat := pe_now env\<rparr> \<in> set ws))) \<and>
      (pe_now env + interval_secs ttl < pe_now env' \<longrightarrow>
        worker_of w db2 = None \<and> fst (heartbeat env'' w db2) = Ok False)"
proof -
  let ?db = "run calls empty_db" and ?x = "x\<lparr>w_last_heartbeat := pe_now env\<rparr>"
  have ok: "db_ok ?db" by (rule db_ok_reached [OF assms(1)])
  define db1 where "db1 = snd (heartbeat env w ?db)"
  have ok1: "db_ok db1" unfolding db1_def by (rule db_ok_heartbeat [OF ok])
  have beat: "heartbeat env w ?db = (Ok True, db1)"
    using heartbeat_eq(1) [of env w ?db] assms(2) by (simp add: db1_def prod_eq_iff)
  have x: "worker_of w db1 = Some ?x"
    using heartbeat_eq(2) [of w env w ?db] assms(2) by (simp add: db1_def)
  define db2 where "db2 = snd (prune_dead_workers env' ttl db1)"
  have after: "worker_of w db2 =
      (if pe_now env < pe_now env' - interval_secs ttl then None else Some ?x)"
    unfolding db2_def by (simp add: worker_of_prune [OF ok1] x)
  have "?x \<in> set (workers db2)" if "pe_now env' \<le> pe_now env + interval_secs ttl"
    using after that find_by_SomeD [of w_id w "workers db2" ?x] by simp
  moreover have "pe_now env' - interval_secs window < pe_now env"
    if "pe_now env' \<le> pe_now env + interval_secs ttl" "ttl < window"
    using that interval_secs_less [of ttl window] by linarith
  ultimately have active: "\<exists>ws. list_active_workers env' window db2 = Ok ws \<and> ?x \<in> set ws"
    if "pe_now env' \<le> pe_now env + interval_secs ttl" "ttl < window"
    using that by (simp add: list_active_workers_def)
  show ?thesis
    unfolding Let_def beat prod.case db2_def [symmetric]
    using after active heartbeat_eq(1) [of env'' w db2] by auto
qed

definition worker_calls :: "unit call list" where
  "worker_calls = [(sample_env 0 0, RegisterWorker \<lparr>w_id = 7, w_hostname = ''h'', w_queues = [''q''],
    w_concurrency = 4, w_registered_at = 0, w_last_heartbeat = 0\<rparr>)]"

theorem heartbeat_keeps_worker_witness:
  "\<exists>x. worker_of 7 (snd (prune_dead_workers (sample_env 60000005 0) 60
      (snd (heartbeat (sample_env 5 0) 7 (run worker_calls empty_db))))) = Some x"
proof -
  let ?x = "the (worker_of 7 (run worker_calls empty_db))"
  have facts: "calls_ok worker_calls" "worker_of 7 (run worker_calls empty_db) = Some ?x"
    "pe_now (sample_env 60000005 0) \<le> pe_now (sample_env 5 0) + interval_secs 60"
    by code_simp+
  obtain b db1 where hb: "heartbeat (sample_env 5 0) 7 (run worker_calls empty_db) = (b, db1)"
    by fastforce
  from heartbeat_keeps_worker [OF facts(1,2), of "sample_env 5 0" "sample_env 60000005 0" 60 90] facts(3)
  show ?thesis by (auto simp: Let_def hb)
qed

end
