(* ===== verification/Pg_Statements.thy ===== *)
theory Pg_Statements
  imports Store_Queries
begin

text \<open>
  The methods of \<open>PgStore\<close> that issue several statements outside a transaction (\<open>submit\<close>, \<open>cancel_job\<close>, \<open>retry_job\<close>,
  \<open>recover_expired_leases\<close> in \<^verbatim>\<open>crates/storage/src/lib.rs\<close>), one statement at a time.  Each statement commits on its own, so
  the calls of other processes come between the statements of one method.
\<close>

section \<open>Methods in progress\<close>

text \<open>A call, and the next statement of its method with the local variables the rest of the method uses.\<close>

datatype 'j store_method =
    SubmitMethod "'j normalized_job"
  | CancelMethod uuid
  | RetryMethod uuid
  | RecoverMethod int

datatype 'j point =
    EnsureInsert
  | EnsureSelect
  | KeyLookup string
  | JobInsert
  | KeyReread string
  | CancelUpdate
  | CancelExplain
  | RetryUpdate
  | RetryDelete "'j job_row"
  | RetryExplain
  | ReapRetry
  | ReapDeadLetter "uuid list"
  | ReapFailed "uuid list"
  | ReapClose "uuid list"

datatype 'j answer =
    Submitted "('j submission, queue_error) outcome"
  | Changed "('j job, queue_error) outcome"
  | Recovered "(uuid list, queue_error) outcome"

datatype 'j progress = At "'j point" | Returned "'j answer"

fun first_point :: "'j store_method \<Rightarrow> 'j point" where
  "first_point (SubmitMethod z) = EnsureInsert"
| "first_point (CancelMethod i) = CancelUpdate"
| "first_point (RetryMethod i) = RetryUpdate"
| "first_point (RecoverMethod limit) = ReapRetry"

section \<open>The statements\<close>

definition submit_statement ::
  "pg_env \<Rightarrow> 'j normalized_job \<Rightarrow> 'j point \<Rightarrow> 'j db \<Rightarrow> 'j progress \<times> 'j db" where
  "submit_statement env z p db =
    (case p of
       EnsureInsert \<Rightarrow> (At EnsureSelect, insert_queue (pe_now env) (z_queue z) db)
     | EnsureSelect \<Rightarrow>
         (case find_by q_name (z_queue z) (queues db) of
            None \<Rightarrow> Returned (Submitted (Err (storage_err env RowNotFound)))
          | Some q \<Rightarrow> At (case z_idempotency_key z of Some key \<Rightarrow> KeyLookup key | None \<Rightarrow> JobInsert), db)
     | KeyLookup key \<Rightarrow>
         (case select_by_key (z_queue z) key db of
            Some existing \<Rightarrow> Returned (Submitted (submission_of existing False))
          | None \<Rightarrow> At JobInsert, db)
     | JobInsert \<Rightarrow>
         (let (res, db') = insert_job (pe_now env) (pe_uuid env) z db
          in (case res of
                Ok r \<Rightarrow> Returned (Submitted (submission_of r True))
              | Err e \<Rightarrow>
                  if is_unique_violation e then
                    (case z_idempotency_key z of
                       None \<Rightarrow> Returned (Submitted (Err (storage_err env e)))
                     | Some key \<Rightarrow> At (KeyReread key))
                  else Returned (Submitted (Err (storage_err env e)))
              | Panic \<Rightarrow> Returned (Submitted Panic), db'))
     | KeyReread key \<Rightarrow>
         (case select_by_key (z_queue z) key db of
            None \<Rightarrow> Returned (Submitted (Err (storage_err env RowNotFound)))
          | Some existing \<Rightarrow> Returned (Submitted (submission_of existing False)), db)
     | _ \<Rightarrow> (At p, db))"

definition cancel_statement :: "pg_env \<Rightarrow> uuid \<Rightarrow> 'j point \<Rightarrow> 'j db \<Rightarrow> 'j progress \<times> 'j db" where
  "cancel_statement env i p db =
    (case p of
       CancelUpdate \<Rightarrow>
         (let f = cancel_set (pe_now env)
          in (case fetch_optional (map f (select_where (cancel_matches i) (jobs db))) of
                Some r \<Rightarrow> Returned (Changed (into_job r))
              | None \<Rightarrow> At CancelExplain,
              db\<lparr>jobs := update_where (cancel_matches i) f (jobs db)\<rparr>))
     | CancelExplain \<Rightarrow> (Returned (Changed (explain_unmatched ''cancel'' i db)), db)
     | _ \<Rightarrow> (At p, db))"

definition retry_statement :: "pg_env \<Rightarrow> uuid \<Rightarrow> 'j point \<Rightarrow> 'j db \<Rightarrow> 'j progress \<times> 'j db" where
  "retry_statement env i p db =
    (case p of
       RetryUpdate \<Rightarrow>
         (let f = retry_set (pe_now env)
          in (case fetch_optional (map f (select_where (retry_matches i) (jobs db))) of
                Some r \<Rightarrow> At (RetryDelete r)
              | None \<Rightarrow> At RetryExplain,
              db\<lparr>jobs := update_where (retry_matches i) f (jobs db)\<rparr>))
     | RetryDelete r \<Rightarrow> (Returned (Changed (into_job r)), delete_dead_letter i db)
     | RetryExplain \<Rightarrow> (Returned (Changed (explain_unmatched ''retry'' i db)), db)
     | _ \<Rightarrow> (At p, db))"

definition recover_statement :: "pg_env \<Rightarrow> int \<Rightarrow> 'j point \<Rightarrow> 'j db \<Rightarrow> 'j progress \<times> 'j db" where
  "recover_statement env limit p db =
    (case p of
       ReapRetry \<Rightarrow>
         (if limit < 0 then (Returned (Recovered (Err (storage_err env NegativeLimit))), db)
          else let (ids, db') = recover_retry env limit db in (At (ReapDeadLetter ids), db'))
     | ReapDeadLetter recovered \<Rightarrow>
         (let (ids, db') = recover_dead_letter env limit db in (At (ReapFailed (recovered @ ids)), db'))
     | ReapFailed recovered \<Rightarrow>
         (let (ids, db') = recover_failed env limit db; recovered = recovered @ ids
          in (if recovered = [] then Returned (Recovered (Ok [])) else At (ReapClose recovered), db'))
     | ReapClose recovered \<Rightarrow> (Returned (Recovered (Ok recovered)), close_attempts env recovered db)
     | _ \<Rightarrow> (At p, db))"

fun statement :: "pg_env \<Rightarrow> 'j store_method \<Rightarrow> 'j point \<Rightarrow> 'j db \<Rightarrow> 'j progress \<times> 'j db" where
  "statement env (SubmitMethod z) p db = submit_statement env z p db"
| "statement env (CancelMethod i) p db = cancel_statement env i p db"
| "statement env (RetryMethod i) p db = retry_statement env i p db"
| "statement env (RecoverMethod limit) p db = recover_statement env limit p db"

section \<open>Interleavings\<close>

text \<open>
  Many calls in progress on one database.  \<open>Begin\<close> starts one, \<open>Statement k\<close> runs the next statement of the \<open>k\<close>-th, \<open>Whole\<close> is a
  call of a method that is one statement or one transaction, or one whose statements nothing interrupts.
\<close>

record 'j thread =
  th_method :: "'j store_method"
  th_progress :: "'j progress"

datatype 'j event = Begin "'j store_method" | Statement nat pg_env | Whole pg_env "'j store_op"

type_synonym 'j shared = "'j thread list \<times> 'j db"

definition thread_step :: "pg_env \<Rightarrow> 'j thread \<Rightarrow> 'j db \<Rightarrow> 'j thread \<times> 'j db" where
  "thread_step env t db =
    (case th_progress t of
       Returned a \<Rightarrow> (t, db)
     | At p \<Rightarrow> (case statement env (th_method t) p db of (q, db') \<Rightarrow> (t\<lparr>th_progress := q\<rparr>, db')))"

fun shared_step :: "'j event \<Rightarrow> 'j shared \<Rightarrow> 'j shared" where
  "shared_step (Begin m) (ts, db) = (ts @ [\<lparr>th_method = m, th_progress = At (first_point m)\<rparr>], db)"
| "shared_step (Statement k env) (ts, db) =
    (if k < length ts then (case thread_step env (ts ! k) db of (t, db') \<Rightarrow> (ts[k := t], db')) else (ts, db))"
| "shared_step (Whole env op) (ts, db) = (ts, exec env op db)"

fun shared_run :: "'j event list \<Rightarrow> 'j shared \<Rightarrow> 'j shared" where
  "shared_run [] s = s"
| "shared_run (ev # evs) s = shared_run evs (shared_step ev s)"

lemma shared_run_append: "shared_run (es @ es') s = shared_run es' (shared_run es s)"
  by (induction es s rule: shared_run.induct) simp_all

end
