(* ===== verification/Pg_Concurrent.thy ===== *)
theory Pg_Concurrent
  imports Pg_Statements
begin

text \<open>
  What interleaving the statements of different calls does.  Uninterrupted, a method's statements are the method.
  Submissions and cancellations stay correct in every interleaving: each is a run of whole calls.
  Manual retries and the reaper do not.
\<close>

section \<open>Uninterrupted methods\<close>

fun whole_call :: "pg_env \<Rightarrow> 'j store_method \<Rightarrow> 'j db \<Rightarrow> 'j answer \<times> 'j db" where
  "whole_call env (SubmitMethod z) db = apfst Submitted (submit env z db)"
| "whole_call env (CancelMethod i) db = apfst Changed (cancel_job env i db)"
| "whole_call env (RetryMethod i) db = apfst Changed (retry_job env i db)"
| "whole_call env (RecoverMethod limit) db = apfst Recovered (recover_expired_leases env limit db)"

lemmas statement_defs = submit_statement_def cancel_statement_def retry_statement_def recover_statement_def

lemma submit_alone:
  "shared_run (Begin (SubmitMethod z) # replicate 5 (Statement 0 env)) ([], db) =
    (case whole_call env (SubmitMethod z) db of
       (a, db') \<Rightarrow> ([\<lparr>th_method = SubmitMethod z, th_progress = Returned a\<rparr>], db'))"
  by (cases "find_by q_name (z_queue z) (queues (insert_queue (pe_now env) (z_queue z) db))"; cases "z_idempotency_key z";
      cases "fst (insert_job (pe_now env) (pe_uuid env) z (insert_queue (pe_now env) (z_queue z) db))")
    (auto simp: eval_nat_numeral thread_step_def submit_statement_def submit_def ensure_queue_def submit_result_def
      Let_def split_beta insert_job_def split: option.split if_splits)

text \<open>
  Uninterrupted, the statements of a method are the method: a call of \<open>submit\<close>, \<open>cancel_job\<close>, \<open>retry_job\<close> or
  \<open>recover_expired_leases\<close> whose statements follow each other returns, after at most five statements, the answer of the whole
  method and leaves the database the whole method leaves, in every state and on every branch.
\<close>

theorem methods_alone:
  "shared_run (Begin m # replicate 5 (Statement 0 env)) ([], db) =
    (case whole_call env m db of (a, db') \<Rightarrow> ([\<lparr>th_method = m, th_progress = Returned a\<rparr>], db'))"
proof (cases m)
  case (SubmitMethod z)
  then show ?thesis using submit_alone by blast
next
  case (CancelMethod i)
  then show ?thesis
    by (simp add: eval_nat_numeral thread_step_def cancel_statement_def cancel_job_def Let_def split: option.split)
next
  case (RetryMethod i)
  then show ?thesis
    by (simp add: eval_nat_numeral thread_step_def retry_statement_def retry_job_def Let_def split: option.split)
next
  case (RecoverMethod limit)
  obtain ids1 db1 where 1: "recover_retry env limit db = (ids1, db1)" by fastforce
  obtain ids2 db2 where 2: "recover_dead_letter env limit db1 = (ids2, db2)" by fastforce
  obtain ids3 db3 where 3: "recover_failed env limit db2 = (ids3, db3)" by fastforce
  show ?thesis
    by (simp add: RecoverMethod eval_nat_numeral thread_step_def recover_statement_def recover_expired_leases_def Let_def 1 2 3
        close_attempts_def)
qed

section \<open>The whole calls of an interleaving\<close>

text \<open>
  The statement at which a submission takes effect: the lookup that finds the key, the insert that succeeds, or the lookup
  after a lost race.  A cancellation takes effect with its update, and the queue with its insert.
\<close>

definition thread_calls :: "pg_env \<Rightarrow> 'j thread \<Rightarrow> 'j db \<Rightarrow> 'j call list" where
  "thread_calls env t db =
    (case (th_method t, th_progress t) of
       (SubmitMethod z, At EnsureInsert) \<Rightarrow> [(env, EnsureQueue (z_queue z))]
     | (SubmitMethod z, At (KeyLookup key)) \<Rightarrow>
         if select_by_key (z_queue z) key db = None then [] else [(env, Submit z)]
     | (SubmitMethod z, At JobInsert) \<Rightarrow>
         if is_ok (fst (insert_job (pe_now env) (pe_uuid env) z db)) then [(env, Submit z)] else []
     | (SubmitMethod z, At (KeyReread key)) \<Rightarrow>
         if select_by_key (z_queue z) key db = None then [] else [(env, Submit z)]
     | (CancelMethod i, At CancelUpdate) \<Rightarrow> [(env, CancelJob i)]
     | _ \<Rightarrow> [])"

text \<open>The whole calls, each with the number of the thread it stands for.\<close>

fun event_calls :: "'j event \<Rightarrow> 'j shared \<Rightarrow> (nat option \<times> 'j call) list" where
  "event_calls (Begin m) s = []"
| "event_calls (Statement k env) (ts, db) =
    (if k < length ts then map (Pair (Some k)) (thread_calls env (ts ! k) db) else [])"
| "event_calls (Whole env op) s = [(None, env, op)]"

fun shared_calls :: "'j event list \<Rightarrow> 'j shared \<Rightarrow> (nat option \<times> 'j call) list" where
  "shared_calls [] s = []"
| "shared_calls (ev # evs) s = event_calls ev s @ shared_calls evs (shared_step ev s)"

lemma shared_calls_append: "shared_calls (es @ es') s = shared_calls es s @ shared_calls es' (shared_run es s)"
  by (induction es s rule: shared_run.induct) simp_all

text \<open>The calls in progress are submissions of normalized jobs, and cancellations.\<close>

fun event_ok :: "'j event \<Rightarrow> bool" where
  "event_ok (Begin (SubmitMethod z)) = normalized_ok z"
| "event_ok (Begin (CancelMethod i)) = True"
| "event_ok (Begin _) = False"
| "event_ok (Statement k env) = True"
| "event_ok (Whole env op) = op_ok op"

section \<open>Threads\<close>

abbreviation has_queue :: "string \<Rightarrow> 'j db \<Rightarrow> bool" where
  "has_queue name db \<equiv> name \<in> q_name ` set (queues db)"

fun submit_point_ok :: "'j normalized_job \<Rightarrow> 'j db \<Rightarrow> 'j progress \<Rightarrow> bool" where
  "submit_point_ok z db (At EnsureInsert) = True"
| "submit_point_ok z db (At EnsureSelect) = has_queue (z_queue z) db"
| "submit_point_ok z db (At (KeyLookup key)) = (z_idempotency_key z = Some key \<and> has_queue (z_queue z) db)"
| "submit_point_ok z db (At JobInsert) = has_queue (z_queue z) db"
| "submit_point_ok z db (At (KeyReread key)) = (z_idempotency_key z = Some key \<and> has_queue (z_queue z) db)"
| "submit_point_ok z db (At _) = False"
| "submit_point_ok z db (Returned a) = True"

fun cancel_point_ok :: "'j progress \<Rightarrow> bool" where
  "cancel_point_ok (At CancelUpdate) = True"
| "cancel_point_ok (At CancelExplain) = True"
| "cancel_point_ok (At _) = False"
| "cancel_point_ok (Returned (Changed out)) = True"
| "cancel_point_ok (Returned _) = False"

definition thread_ok :: "'j db \<Rightarrow> 'j thread \<Rightarrow> bool" where
  "thread_ok db t \<longleftrightarrow>
    (case th_method t of
       SubmitMethod z \<Rightarrow> normalized_ok z \<and> submit_point_ok z db (th_progress t)
     | CancelMethod i \<Rightarrow> cancel_point_ok (th_progress t)
     | _ \<Rightarrow> False)"

lemma submit_point_ok_mono:
  "submit_point_ok z db p \<Longrightarrow> q_name ` set (queues db) \<subseteq> q_name ` set (queues db') \<Longrightarrow> submit_point_ok z db' p"
  by (induction z db p rule: submit_point_ok.induct) auto

lemma thread_ok_mono:
  "thread_ok db t \<Longrightarrow> q_name ` set (queues db) \<subseteq> q_name ` set (queues db') \<Longrightarrow> thread_ok db' t"
  using submit_point_ok_mono by (auto simp: thread_ok_def split: store_method.splits)

text \<open>Queues are never removed.\<close>

lemma queue_names_exec:
  assumes "db_ok db" and "op_ok op"
  shows "q_name ` set (queues db) \<subseteq> q_name ` set (queues (exec env op db))"
proof (cases op)
  case (Submit z)
  with assms(2) have "normalized_ok z" by simp
  with Submit show ?thesis
    by (auto simp: submit_eq [OF assms(1)] Let_def queue_names_insert_queue split: option.split)
next
  case (SetQueuePaused name p)
  have "map q_name (update_where (\<lambda>q. q_name q = name) (\<lambda>q. q\<lparr>q_paused := p\<rparr>) (queues db)) = map q_name (queues db)"
    by (rule map_key_update_where) simp
  then have "q_name ` set (update_where (\<lambda>q. q_name q = name) (\<lambda>q. q\<lparr>q_paused := p\<rparr>) (queues db)) = q_name ` set (queues db)"
    by (metis list.set_map)
  with SetQueuePaused show ?thesis
    by (auto simp: set_queue_paused_eq [OF assms(1)] split: option.split)
next
  case (RecoverExpired limit)
  then show ?thesis
    by (cases "limit < 0") (simp_all add: recover_expired_leases_neg recover_expired_leases_run [OF assms(1)])
next
  case (FailJob i w err timed_out)
  then show ?thesis
    by (simp add: fail_job_eq [OF assms(1)] fail_db_def split: option.split)
qed (auto simp: ensure_queue_eq queue_names_insert_queue cancel_job_eq [OF assms(1)]
    retry_job_eq [OF assms(1)] lease_next_eq [OF assms(1)] complete_job_eq [OF assms(1)] renew_lease_eq [OF assms(1)]
    purge_finished_def register_worker_def heartbeat_def deregister_worker_def prune_dead_workers_def
    delete_dead_letter_def Let_def split: option.split)

section \<open>The simulation\<close>

lemma insert_queue_present: "has_queue name db \<Longrightarrow> insert_queue now name db = db"
  by (auto simp: insert_queue_def)

text \<open>A submission as a whole, at the statement at which it takes effect.\<close>

lemma submit_at_lookup:
  assumes "has_queue (z_queue z) db" and "z_idempotency_key z = Some key" and "select_by_key (z_queue z) key db = Some x"
  shows "submit env z db = (submission_of x False, db)"
  using assms by (simp add: submit_def ensure_queue_eq insert_queue_present)

lemma submit_at_insert:
  assumes "has_queue (z_queue z) db" and "insert_job (pe_now env) (pe_uuid env) z db = (Ok r, db')"
  shows "submit env z db = (submission_of r True, db')"
proof -
  have "\<not> unique_conflict (new_row (pe_now env) (pe_uuid env) z) (jobs db)"
    using assms(2) by (auto simp: insert_job_def Let_def split: if_splits)
  then have "(case z_idempotency_key z of None \<Rightarrow> None | Some key \<Rightarrow> select_by_key (z_queue z) key db) = None"
    by (auto simp: unique_conflict_def new_row_def select_by_key_None_iff list_ex_iff key_matches_def split: option.splits)
  with assms show ?thesis
    by (simp add: submit_def ensure_queue_eq insert_queue_present submit_result_def)
qed

text \<open>One statement of a thread is a run of at most one whole call, with the same answer.\<close>

lemma submit_statement_sim:
  assumes "submit_point_ok z db (At p)" and "submit_statement env z p db = (q, db')"
  shows "db' = run (thread_calls env \<lparr>th_method = SubmitMethod z, th_progress = At p\<rparr> db) db \<and>
    submit_point_ok z db' q \<and>
    (\<forall>sub. q = Returned (Submitted (Ok sub)) \<longrightarrow>
      thread_calls env \<lparr>th_method = SubmitMethod z, th_progress = At p\<rparr> db = [(env, Submit z)] \<and>
      fst (submit env z db) = Ok sub)"
proof (cases p)
  case EnsureInsert
  with assms show ?thesis
    by (auto simp: submit_statement_def thread_calls_def ensure_queue_eq queue_names_insert_queue)
next
  case EnsureSelect
  with assms show ?thesis
    by (auto simp: submit_statement_def thread_calls_def split: option.splits)
next
  case (KeyLookup key)
  with assms show ?thesis
    by (cases "select_by_key (z_queue z) key db") (auto simp: submit_statement_def thread_calls_def submit_at_lookup)
next
  case (KeyReread key)
  with assms show ?thesis
    by (cases "select_by_key (z_queue z) key db") (auto simp: submit_statement_def thread_calls_def submit_at_lookup)
next
  case JobInsert
  obtain res db1 where ins: "insert_job (pe_now env) (pe_uuid env) z db = (res, db1)" by fastforce
  show ?thesis
  proof (cases res)
    case (Ok r)
    with JobInsert assms ins submit_at_insert [of z db env r db1] show ?thesis
      by (auto simp: submit_statement_def thread_calls_def)
  next
    case (Err e)
    with ins have "db1 = db" by (auto simp: insert_job_def Let_def split: if_splits)
    with Err JobInsert assms ins show ?thesis
      by (auto simp: submit_statement_def thread_calls_def split: if_splits option.splits)
  qed (use ins in \<open>auto simp: insert_job_def Let_def split: if_splits\<close>)
qed (use assms in auto)

lemma cancel_statement_sim:
  assumes "cancel_point_ok (At p)" and "cancel_statement env i p db = (q, db')"
  shows "db' = run (thread_calls env \<lparr>th_method = CancelMethod i, th_progress = At p\<rparr> db) db \<and> cancel_point_ok q"
  using assms
  by (cases p) (auto simp: cancel_statement_def thread_calls_def cancel_job_def Let_def split: option.splits)

lemma thread_step_sim:
  assumes "thread_ok db t" and "thread_step env t db = (t', db')"
  shows "db' = run (thread_calls env t db) db" and "thread_ok db' t'" and "th_method t' = th_method t"
    and "th_method t = SubmitMethod z \<Longrightarrow> th_progress t' = Returned (Submitted (Ok sub)) \<Longrightarrow>
      t' = t \<or> thread_calls env t db = [(env, Submit z)] \<and> fst (submit env z db) = Ok sub"
proof -
  obtain m p where t: "t = \<lparr>th_method = m, th_progress = p\<rparr>" by (cases t) simp
  have "db' = run (thread_calls env t db) db \<and> thread_ok db' t' \<and> th_method t' = th_method t \<and>
    (th_method t = SubmitMethod z \<longrightarrow> th_progress t' = Returned (Submitted (Ok sub)) \<longrightarrow>
      t' = t \<or> thread_calls env t db = [(env, Submit z)] \<and> fst (submit env z db) = Ok sub)"
  proof (cases p)
    case (Returned a)
    with assms t show ?thesis by (auto simp: thread_step_def thread_calls_def split: store_method.splits)
  next
    case (At pt)
    obtain q where q: "statement env m pt db = (q, db')" "t' = \<lparr>th_method = m, th_progress = q\<rparr>"
      using assms(2) t At by (auto simp: thread_step_def split: prod.splits)
    show ?thesis
    proof (cases m)
      case (SubmitMethod y)
      with assms(1) t At q submit_statement_sim [of y db pt env q db'] show ?thesis by (auto simp: thread_ok_def)
    next
      case (CancelMethod i)
      with assms(1) t At q cancel_statement_sim [of pt env i db q db'] show ?thesis by (auto simp: thread_ok_def)
    qed (use assms(1) t in \<open>auto simp: thread_ok_def\<close>)
  qed
  then show "db' = run (thread_calls env t db) db" "thread_ok db' t'" "th_method t' = th_method t"
    "th_method t = SubmitMethod z \<Longrightarrow> th_progress t' = Returned (Submitted (Ok sub)) \<Longrightarrow>
      t' = t \<or> thread_calls env t db = [(env, Submit z)] \<and> fst (submit env z db) = Ok sub"
    by blast+
qed

lemma thread_calls_ok: "thread_ok db t \<Longrightarrow> calls_ok (thread_calls env t db)"
  by (auto simp: thread_calls_def thread_ok_def split: store_method.splits progress.splits point.splits)

lemma queue_names_run:
  "db_ok db \<Longrightarrow> calls_ok calls \<Longrightarrow> q_name ` set (queues db) \<subseteq> q_name ` set (queues (run calls db))"
proof (induction calls arbitrary: db)
  case (Cons c calls)
  obtain env op where "c = (env, op)" by fastforce
  with Cons.prems Cons.IH [of "exec env op db"] db_ok_exec [of db op env] queue_names_exec [of db op env] show ?case by auto
qed simp

text \<open>A returned submission has its whole call in the trail, with its answer.\<close>

definition served :: "'j db \<Rightarrow> (nat option \<times> 'j call) list \<Rightarrow> nat \<Rightarrow> 'j thread \<Rightarrow> bool" where
  "served db trail k t \<longleftrightarrow>
    (\<forall>z sub. th_method t = SubmitMethod z \<and> th_progress t = Returned (Submitted (Ok sub)) \<longrightarrow>
      (\<exists>pre env post. trail = pre @ (Some k, env, Submit z) # post \<and>
        fst (submit env z (run (map snd pre) db)) = Ok sub))"

lemma served_more: "served db trail k t \<Longrightarrow> served db (trail @ trail') k t"
  unfolding served_def by (metis append.assoc append_Cons)

definition simulated :: "'j db \<Rightarrow> (nat option \<times> 'j call) list \<Rightarrow> 'j shared \<Rightarrow> bool" where
  "simulated db0 trail s \<longleftrightarrow>
    calls_ok (map snd trail) \<and> snd s = run (map snd trail) db0 \<and>
    (\<forall>k < length (fst s). thread_ok (snd s) (fst s ! k) \<and> served db0 trail k (fst s ! k))"

lemma simulated_calls:
  assumes "simulated db0 trail (ts, db)" and "db_ok db0" and "calls_ok calls"
  shows "simulated db0 (trail @ map (Pair x) calls) (ts, run calls db)"
proof -
  have db: "db = run (map snd trail) db0" "calls_ok (map snd trail)" using assms(1) by (simp_all add: simulated_def)
  have "q_name ` set (queues db) \<subseteq> q_name ` set (queues (run calls db))"
    unfolding db(1) by (rule queue_names_run [OF db_ok_run [OF assms(2) db(2)] assms(3)])
  with assms db show ?thesis
    by (auto simp: simulated_def calls_ok_append run_append comp_def intro: thread_ok_mono served_more)
qed

lemma simulated_step:
  assumes "simulated db0 trail (ts, db)" and "db_ok db0" and "event_ok ev"
  shows "simulated db0 (trail @ event_calls ev (ts, db)) (shared_step ev (ts, db))"
proof (cases ev)
  case (Begin m)
  with assms show ?thesis
    by (cases m) (auto simp: simulated_def thread_ok_def served_def nth_append less_Suc_eq)
next
  case (Whole env op)
  with assms simulated_calls [OF assms(1,2), of "[(env, op)]" None] show ?thesis by simp
next
  case (Statement k env)
  show ?thesis
  proof (cases "k < length ts")
    case True
    obtain t' db' where step: "thread_step env (ts ! k) db = (t', db')" by fastforce
    let ?calls = "thread_calls env (ts ! k) db"
    have t: "thread_ok db (ts ! k)" "served db0 trail k (ts ! k)" "db = run (map snd trail) db0"
      using assms(1) True by (auto simp: simulated_def)
    note sim = thread_step_sim [OF t(1) step]
    have rest: "simulated db0 (trail @ map (Pair (Some k)) ?calls) (ts, db')"
      using simulated_calls [OF assms(1,2) thread_calls_ok [OF t(1)]] sim(1) by simp
    have "served db0 (trail @ map (Pair (Some k)) ?calls) k t'"
      unfolding served_def
    proof (intro allI impI)
      fix z sub
      assume ret: "th_method t' = SubmitMethod z \<and> th_progress t' = Returned (Submitted (Ok sub))"
      with sim(3) sim(4) [of z sub] consider "t' = ts ! k" | "?calls = [(env, Submit z)]" "fst (submit env z db) = Ok sub"
        by auto
      then show "\<exists>pre env post. trail @ map (Pair (Some k)) ?calls = pre @ (Some k, env, Submit z) # post \<and>
          fst (submit env z (run (map snd pre) db0)) = Ok sub"
      proof cases
        case 1
        with ret served_more [OF t(2)] show ?thesis by (simp add: served_def)
      next
        case 2
        then show ?thesis using t(3) by auto
      qed
    qed
    with rest sim(2) True Statement step show ?thesis by (auto simp: simulated_def nth_list_update)
  qed (use assms(1) Statement in simp)
qed

lemma simulated_run:
  assumes "simulated db0 trail s" and "db_ok db0" and "list_all event_ok es"
  shows "simulated db0 (trail @ shared_calls es s) (shared_run es s)"
  using assms(1,3)
proof (induction es arbitrary: trail s)
  case (Cons ev es)
  obtain ts db where "s = (ts, db)" by fastforce
  with Cons.prems simulated_step [OF _ assms(2), of trail ts db ev]
    Cons.IH [of "trail @ event_calls ev s" "shared_step ev s"] show ?case by simp
qed simp

lemma shared_simulated:
  assumes "list_all event_ok es" and "shared_run es ([], empty_db) = (ts, db)"
  shows "simulated empty_db (shared_calls es ([], empty_db)) (ts, db)"
proof -
  have "simulated empty_db [] ([], empty_db)" by (simp add: simulated_def)
  from simulated_run [OF this db_ok_empty assms(1)] assms(2) show ?thesis by simp
qed

lemma simulated_served:
  assumes "simulated db0 trail (ts, db)" and "k < length ts" and "th_method (ts ! k) = SubmitMethod z"
    and "th_progress (ts ! k) = Returned (Submitted (Ok sub))"
  shows "\<exists>pre env post. trail = pre @ (Some k, env, Submit z) # post \<and> fst (submit env z (run (map snd pre) db0)) = Ok sub"
proof -
  have "served db0 trail k (ts ! k)" using assms(1,2) by (simp add: simulated_def)
  with assms(3,4) show ?thesis unfolding served_def by blast
qed

section \<open>Concurrent submissions\<close>

text \<open>
  C9. Interleaving the statements of submissions and cancellations is harmless.  However the statements of any number
  of calls of \<open>submit\<close> and \<open>cancel_job\<close> are interleaved with each other and with other calls, the database reached is one that
  a sequence of whole calls reaches, so the invariant and every guarantee over runs hold of it, and every submission
  that returned a job returned what its whole call, at its place in that sequence, returns.
\<close>

theorem concurrent_submissions_linearize:
  assumes "list_all event_ok es" and "shared_run es ([], empty_db) = (ts, db)"
  shows "let trail = shared_calls es ([], empty_db); calls = map snd trail
    in calls_ok calls \<and> db = run calls empty_db \<and> store_ok db \<and>
      (\<forall>k z sub. k < length ts \<and> th_method (ts ! k) = SubmitMethod z \<and>
          th_progress (ts ! k) = Returned (Submitted (Ok sub)) \<longrightarrow>
        (\<exists>pre env post. trail = pre @ (Some k, env, Submit z) # post \<and>
          fst (submit env z (run (map snd pre) empty_db)) = Ok sub))"
proof -
  have "simulated empty_db (shared_calls es ([], empty_db)) (ts, db)"
    by (rule shared_simulated [OF assms(1,2)])
  then show ?thesis by (simp add: simulated_def served_def store_ok_reached Let_def)
qed

lemma no_purge_shared:
  "\<forall>ev \<in> set es. \<forall>env op. ev = Whole env op \<longrightarrow> \<not> is_purge op \<Longrightarrow> no_purge (map snd (shared_calls es s))"
proof (induction es arbitrary: s)
  case (Cons ev es)
  obtain ts db where s: "s = (ts, db)" by fastforce
  have "no_purge (thread_calls env t db)" for env t
    by (auto simp: no_purge_def thread_calls_def split: store_method.splits progress.splits point.splits)
  then have "no_purge (map snd (event_calls ev s))"
    using Cons.prems s by (cases ev) (auto simp: no_purge_def comp_def)
  with Cons show ?case by (auto simp: no_purge_def)
qed (simp add: no_purge_def)

lemma two_positions:
  assumes "xs = p1 @ a # q1" and "xs = p2 @ b # q2" and "a \<noteq> b"
  obtains m where "xs = p1 @ a # m @ b # q2" and "p2 = p1 @ a # m"
  | m where "xs = p2 @ b # m @ a # q1" and "p1 = p2 @ b # m"
proof -
  have "p1 @ a # q1 = p2 @ b # q2" using assms(1,2) by simp
  then consider us where "p1 = p2 @ us" "us @ a # q1 = b # q2" | us where "p1 @ us = p2" "a # q1 = us @ b # q2"
    by (auto simp: append_eq_append_conv2)
  then show thesis
  proof cases
    case (1 us)
    with assms that(2) show ?thesis by (cases us) auto
  next
    case (2 us)
    with assms that(1) show ?thesis by (cases us) auto
  qed
qed

lemma later_submission:
  assumes "calls_ok calls" and "no_purge calls"
    and "calls = p @ (env, Submit z) # m @ (env', Submit z') # q" and "z_idempotency_key z \<noteq> None"
    and "z_queue z' = z_queue z" and "z_idempotency_key z' = z_idempotency_key z"
    and "fst (submit env z (run p empty_db)) = Ok s"
    and "fst (submit env' z' (run (p @ (env, Submit z) # m) empty_db)) = Ok s'"
  shows "j_id (sub_job s') = j_id (sub_job s) \<and> \<not> sub_created s'"
proof -
  have ok: "calls_ok p" "normalized_ok z" "calls_ok m" "normalized_ok z'" "no_purge m"
    using assms(1-3) by (simp_all add: calls_ok_append no_purge_def)
  from submit_again [OF db_ok_reached [OF ok(1)] ok(2) assms(4,7) ok(3,5,4) assms(5,6), of env'] assms(8)
  show ?thesis by (auto simp: Let_def split: prod.splits)
qed

text \<open>
  C10. Racing submissions with one idempotency key make one job.  Whatever the interleaving of the statements of
  submissions, as long as nothing is purged, two submissions with the same queue and key that both return a job return
  the same job, and at most one of them says it created it.
\<close>

theorem racing_submissions_agree:
  assumes "list_all event_ok es" and "\<forall>ev \<in> set es. \<forall>env op. ev = Whole env op \<longrightarrow> \<not> is_purge op"
    and "shared_run es ([], empty_db) = (ts, db)" and "i < length ts" and "k < length ts" and "i \<noteq> k"
    and "th_method (ts ! i) = SubmitMethod z" and "th_progress (ts ! i) = Returned (Submitted (Ok s))"
    and "th_method (ts ! k) = SubmitMethod z'" and "th_progress (ts ! k) = Returned (Submitted (Ok s'))"
    and "z_queue z' = z_queue z" and "z_idempotency_key z' = z_idempotency_key z" and "z_idempotency_key z \<noteq> None"
  shows "j_id (sub_job s') = j_id (sub_job s) \<and> \<not> (sub_created s \<and> sub_created s')"
proof -
  let ?trail = "shared_calls es ([], empty_db)"
  have sim: "simulated empty_db ?trail (ts, db)"
    by (rule shared_simulated [OF assms(1,3)])
  have ok: "calls_ok (map snd ?trail)" "no_purge (map snd ?trail)"
    using sim no_purge_shared [OF assms(2)] by (simp_all add: simulated_def)
  obtain p1 e1 q1 where 1: "?trail = p1 @ (Some i, e1, Submit z) # q1"
    "fst (submit e1 z (run (map snd p1) empty_db)) = Ok s"
    using simulated_served [OF sim assms(4,7,8)] by blast
  obtain p2 e2 q2 where 2: "?trail = p2 @ (Some k, e2, Submit z') # q2"
    "fst (submit e2 z' (run (map snd p2) empty_db)) = Ok s'"
    using simulated_served [OF sim assms(5,9,10)] by blast
  show ?thesis
  proof (rule two_positions [OF 1(1) 2(1)])
    fix m
    assume m: "?trail = p1 @ (Some i, e1, Submit z) # m @ (Some k, e2, Submit z') # q2" "p2 = p1 @ (Some i, e1, Submit z) # m"
    have "map snd ?trail = map snd p1 @ (e1, Submit z) # map snd m @ (e2, Submit z') # map snd q2" by (simp add: m(1))
    moreover have "fst (submit e2 z' (run (map snd p1 @ (e1, Submit z) # map snd m) empty_db)) = Ok s'"
      using 2(2) by (simp add: m(2))
    ultimately show ?thesis using later_submission [OF ok _ assms(13,11,12) 1(2)] by blast
  next
    fix m
    assume m: "?trail = p2 @ (Some k, e2, Submit z') # m @ (Some i, e1, Submit z) # q1" "p1 = p2 @ (Some k, e2, Submit z') # m"
    have "map snd ?trail = map snd p2 @ (e2, Submit z') # map snd m @ (e1, Submit z) # map snd q1" by (simp add: m(1))
    moreover have "fst (submit e1 z (run (map snd p2 @ (e2, Submit z') # map snd m) empty_db)) = Ok s"
      using 1(2) by (simp add: m(2))
    moreover have "z_idempotency_key z' \<noteq> None" using assms(12,13) by simp
    ultimately show ?thesis
      using later_submission [OF ok _ _ assms(11) [symmetric] assms(12) [symmetric] 2(2)] by metis
  qed (use assms(6) in simp)
qed

text \<open>Two submissions that both miss the key, and insert one after the other.\<close>

definition race_events :: "unit event list" where
  "race_events =
    [Begin (SubmitMethod keyed_job), Begin (SubmitMethod keyed_job)] @
    concat (replicate 4 [Statement 0 (sample_env 0 1), Statement 1 (sample_env 0 2)]) @ [Statement 1 (sample_env 0 2)]"

definition race_answer :: "nat \<Rightarrow> unit submission" where
  "race_answer k =
    (case th_progress (fst (shared_run race_events ([], empty_db)) ! k) of
       Returned (Submitted (Ok sub)) \<Rightarrow> sub | _ \<Rightarrow> undefined)"

lemma race_facts:
  "list_all event_ok race_events" "list_all (\<lambda>ev. case ev of Whole env op \<Rightarrow> False | _ \<Rightarrow> True) race_events"
  "length (fst (shared_run race_events ([], empty_db))) = 2"
  "fst (shared_run race_events ([], empty_db)) =
    [\<lparr>th_method = SubmitMethod keyed_job, th_progress = Returned (Submitted (Ok (race_answer 0)))\<rparr>,
     \<lparr>th_method = SubmitMethod keyed_job, th_progress = Returned (Submitted (Ok (race_answer 1)))\<rparr>]"
  "z_idempotency_key keyed_job \<noteq> None"
  by code_simp+

theorem racing_submissions_agree_witness:
  "j_id (sub_job (race_answer 1)) = j_id (sub_job (race_answer 0)) \<and>
   \<not> (sub_created (race_answer 0) \<and> sub_created (race_answer 1))"
proof -
  obtain db where run: "shared_run race_events ([], empty_db) = (fst (shared_run race_events ([], empty_db)), db)"
    by (metis prod.collapse)
  have "\<forall>ev \<in> set race_events. \<forall>env op. ev = Whole env op \<longrightarrow> \<not> is_purge op"
    using race_facts(2) by (auto simp: list_all_iff)
  from racing_submissions_agree [OF race_facts(1) this run, of 0 1 keyed_job "race_answer 0" keyed_job "race_answer 1"]
  show ?thesis using race_facts(4,5) by simp
qed

theorem concurrent_submissions_linearize_witness:
  "\<exists>pre env post. shared_calls race_events ([], empty_db) = pre @ (Some 1, env, Submit keyed_job) # post \<and>
    fst (submit env keyed_job (run (map snd pre) empty_db)) = Ok (race_answer 1)"
proof -
  obtain db where run: "shared_run race_events ([], empty_db) = (fst (shared_run race_events ([], empty_db)), db)"
    by (metis prod.collapse)
  from concurrent_submissions_linearize [OF race_facts(1) run] race_facts(4) show ?thesis by (auto simp: Let_def)
qed

section \<open>Interleavings that lose information\<close>

text \<open>
  A manual retry between whose statements the job runs and is dead-lettered again; a sweep of the reaper between whose
  statements a recovered job is leased again.
\<close>

definition retry_race :: "unit event list" where
  "retry_race =
    [Whole (sample_env 0 1) (Submit (sample_job 0 1 True)), Whole (sample_env 1 0) (LeaseNext 7 [''q''] 30),
     Whole (sample_env 2 0) (FailJob 1 7 ''first'' False),
     Begin (RetryMethod 1), Statement 0 (sample_env 3 0),
     Whole (sample_env 4 0) (LeaseNext 7 [''q''] 30), Whole (sample_env 5 0) (FailJob 1 7 ''second'' False),
     Statement 0 (sample_env 6 0)]"

definition reaper_race :: "unit event list" where
  "reaper_race =
    [Whole (sample_env 0 1) (Submit (sample_job 0 3 True)), Whole (sample_env 1 0) (LeaseNext 7 [''q''] 30),
     Begin (RecoverMethod 100)] @
    replicate 3 (Statement 0 (sample_env 31000000 0)) @
    [Whole (sample_env 40000000 0) (LeaseNext 8 [''q''] 30), Statement 0 (sample_env 40000001 0),
     Whole (sample_env 41000000 0) (CompleteJob 1 8 None)]"


end
