(* ===== verification/Store_Reports.thy ===== *)
theory Store_Reports
  imports Attempt_Log
begin

text \<open>
  Reports on a lease (completion, failure, renewal) and the reaper: who may report, what a report does
  on every branch, and that the reaper treats an abandoned attempt as the worker's failure report
  would have.
\<close>

section \<open>Who may report\<close>

definition is_held :: "uuid \<Rightarrow> uuid \<Rightarrow> 'j db \<Rightarrow> bool" where
  "is_held i w db \<longleftrightarrow> (\<exists>r. row_of i db = Some r \<and> held_by i w r)"

definition refusal :: "string \<Rightarrow> uuid \<Rightarrow> 'j db \<Rightarrow> ('a, queue_error) outcome" where
  "refusal op i db =
    (case row_of i db of
       None \<Rightarrow> Err (JobNotFound i)
     | Some r \<Rightarrow> Err (InvalidOperation op (status_of r)))"

text \<open>
  C6. Only the holder's reports count.  In every reachable state a completion, a failure report and a
  renewal by worker \<open>w\<close> succeed exactly when the job is \<open>Processing\<close> under \<open>w\<close>'s lock; every other report changes
  nothing at all and is answered with \<open>JobNotFound\<close> or with \<open>InvalidOperation\<close> naming the job's actual
  status (\<open>renew_lease\<close> always says \<open>Processing\<close>).
\<close>

theorem reports_need_the_lease:
  assumes "calls_ok calls"
  shows "let db = run calls empty_db; c = complete_job env i w res db;
      f = fail_job env i w err timed_out db; n = renew_lease env i w secs db
    in if is_held i w db then is_ok (fst c) \<and> is_ok (fst f) \<and> is_ok (fst n)
       else c = (refusal ''complete'' i db, db) \<and> f = (refusal ''fail'' i db, db) \<and>
         n = (Err (InvalidOperation ''renew_lease'' Processing), db)"
proof -
  have ok: "db_ok (run calls empty_db)" by (rule db_ok_reached [OF assms])
  show ?thesis
    by (auto simp: Let_def complete_job_eq [OF ok] fail_job_eq [OF ok] renew_lease_eq [OF ok]
        is_held_def refusal_def split: option.splits)
qed

theorem reports_need_the_lease_witness:
  "complete_job (sample_env 9 0) 1 7 None (run sample_calls empty_db) =
     (Err (InvalidOperation ''complete'' Processing), run sample_calls empty_db) \<and>
   is_ok (fst (complete_job (sample_env 9 0) 1 8 None (run sample_calls empty_db)))"
proof -
  have facts: "calls_ok sample_calls"
    "row_of 1 (run sample_calls empty_db) = Some (sample_row 1 sample_calls)"
    "held_by 1 8 (sample_row 1 sample_calls)" "\<not> held_by 1 7 (sample_row 1 sample_calls)"
    "status_of (sample_row 1 sample_calls) = Processing"
    by code_simp+
  then show ?thesis
    using reports_need_the_lease [OF facts(1), of "sample_env 9 0" 1 7 None "[]" False 0]
      reports_need_the_lease [OF facts(1), of "sample_env 9 0" 1 8 None "[]" False 0]
    by (simp add: is_held_def refusal_def Let_def)
qed

section \<open>What a report does\<close>

definition closes_attempt ::
  "uuid \<Rightarrow> string \<Rightarrow> string option \<Rightarrow> time \<Rightarrow> attempt_row list \<Rightarrow> attempt_row list \<Rightarrow> bool" where
  "closes_attempt i status err now as as' \<longleftrightarrow>
    as' = map (\<lambda>a. if a_job_id a = i \<and> a_status a = ''running''
      then a\<lparr>a_status := status, a_finished_at := Some now,
             a_error := (case err of None \<Rightarrow> a_error a | Some e \<Rightarrow> Some e)\<rparr>
      else a) as"

definition lock_cleared :: "'j job \<Rightarrow> bool" where
  "lock_cleared j \<longleftrightarrow> j_locked_by j = None \<and> j_locked_at j = None \<and> j_lease_expires_at j = None"

lemma closes_attempt_succeed:
  "closes_attempt i ''succeeded'' None now as (update_where (running_of i) (succeed_attempt now) as)"
  by (simp add: closes_attempt_def update_where_def running_of_def is_running_def succeed_attempt_def)

lemma closes_attempt_fail:
  "closes_attempt i s (Some e) now as (update_where (running_of i) (fail_attempt now s e) as)"
  by (simp add: closes_attempt_def update_where_def running_of_def is_running_def fail_attempt_def)

text \<open>
  C7. A completion by the holder.  It returns the job as \<open>Completed\<close> with the reported result, the completion
  time and no lock and no error; the same row is now in the table; no other job changes; and the
  running attempt is closed as succeeded.
\<close>

theorem complete_job_exact:
  assumes "calls_ok calls" and "is_held i w (run calls empty_db)"
  shows "let db = run calls empty_db; (out, db') = complete_job env i w res db
    in \<exists>j. out = Ok j \<and> get_job i db' = Ok (Some j) \<and> j_id j = i \<and> j_status j = Completed \<and>
      j_result j = res \<and> j_completed_at j = Some (pe_now env) \<and> j_last_error j = None \<and>
      lock_cleared j \<and> (\<forall>k. k \<noteq> i \<longrightarrow> row_of k db' = row_of k db) \<and>
      closes_attempt i ''succeeded'' None (pe_now env) (job_attempts db) (job_attempts db')"
proof -
  let ?db = "run calls empty_db" and ?f = "complete_set (pe_now env) res"
  have ok: "db_ok ?db" by (rule db_ok_reached [OF assms(1)])
  obtain r where r: "row_of i ?db = Some r" "held_by i w r" using assms(2) by (auto simp: is_held_def)
  have eq: "complete_job env i w res ?db = (Ok (job_of (?f r)), (update_job i ?f ?db)
      \<lparr>job_attempts := update_where (running_of i) (succeed_attempt (pe_now env)) (job_attempts ?db)\<rparr>)"
    using r by (simp add: complete_job_eq [OF ok])
  have ok': "db_ok (snd (complete_job env i w res ?db))" by (rule db_ok_complete_job [OF ok])
  have "get_job i (snd (complete_job env i w res ?db)) = Ok (Some (job_of (?f r)))"
    using fetch_job_eq [OF ok', of i] r by (simp add: get_job_def eq row_of_update_job)
  moreover have "j_id (job_of (?f r)) = i"
    using row_of_in [OF r(1)] by (simp add: job_of_fields [OF status_after(4)]) (simp add: complete_set_def clear_lock_def)
  ultimately show ?thesis
    by (simp add: eq Let_def lock_cleared_def row_of_update_job closes_attempt_succeed
        job_of_fields [OF status_after(4)]) (simp add: complete_set_def clear_lock_def)
qed

theorem complete_job_exact_witness:
  "\<exists>j. fst (complete_job (sample_env 9 0) 1 8 (Some ()) (run sample_calls empty_db)) = Ok j \<and>
    j_status j = Completed \<and> j_result j = Some ()"
proof -
  have facts: "calls_ok sample_calls"
    "row_of 1 (run sample_calls empty_db) = Some (sample_row 1 sample_calls)"
    "held_by 1 8 (sample_row 1 sample_calls)"
    by code_simp+
  then have "is_held 1 8 (run sample_calls empty_db)" by (auto simp: is_held_def)
  from complete_job_exact [OF facts(1) this, of "sample_env 9 0" "Some ()"]
  show ?thesis by (auto simp: Let_def split: prod.splits)
qed

lemma fail_set_row:
  "r_last_error (fail_set now err r) = Some err" "r_attempts (fail_set now err r) = r_attempts r"
  "r_payload (fail_set now err r) = r_payload r" "r_locked_by (fail_set now err r) = None"
  "r_locked_at (fail_set now err r) = None" "r_lease_expires_at (fail_set now err r) = None"
  "r_run_at (fail_set now err r) = (if r_attempts r < r_max_attempts r
    then now + 1000000 * min (r_backoff_base_secs r * 2 ^ nat (r_attempts r - 1)) (r_backoff_max_secs r)
    else r_run_at r)"
  by (simp_all add: fail_set_def row_updates backoff_secs_def interval_secs_def usecs_per_sec_def)

lemma fail_set_has_status: "\<exists>s. has_status (fail_set now err r) s"
  using status_after by (metis fail_set_def)

lemma dead_letter_at_fail_db:
  "k \<noteq> r_id r \<Longrightarrow> dead_letter_at k (fail_db now err t r db) = dead_letter_at k db"
  by (simp add: fail_db_def dead_letters_after_def find_insert_dead_letter split: option.splits)

lemma dead_lettered_entry:
  assumes "dlq_ok db" and "row_of i db = Some r" and "status_of r = DeadLettered" and "row_ok r"
  shows "\<exists>d. dead_letter_at i db = Some d \<and> dl_last_error d = r_last_error r \<and>
    dl_attempts d = r_attempts r \<and> dl_payload d = r_payload r"
proof -
  have "has_status r DeadLettered" using assms(3,4) by (simp add: has_status_iff)
  then show ?thesis using dlq_okD [OF assms(1), of i] assms(2) by (auto simp: mirrors_def)
qed

text \<open>
  C5. A failure report by the holder, on every branch.  While attempts remain the job becomes \<open>Retrying\<close> and is due
  after \<open>min (base * 2 ^ (attempts - 1)) max\<close> seconds (the \<open>f64\<close> computation of \<open>BackoffPolicy\<close> is exact
  here); when they are used up it becomes \<open>DeadLettered\<close>, with an entry in the dead-letter table, or \<open>Failed\<close> if the
  job opted out of dead-lettering.  The error is recorded, the lock is cleared, the attempt counter
  is kept, no other job changes, and the running attempt is closed as failed or timed out.
\<close>

theorem fail_job_exact:
  assumes "calls_ok calls" and "row_of i (run calls empty_db) = Some r" and "held_by i w r"
  shows "let db = run calls empty_db; (out, db') = fail_job env i w err timed_out db
    in \<exists>j. out = Ok j \<and> get_job i db' = Ok (Some j) \<and>
      j_status j = (if r_attempts r < r_max_attempts r then Retrying
        else if r_dead_letter r then DeadLettered else Failed) \<and>
      j_run_at j = (if r_attempts r < r_max_attempts r
        then pe_now env + 1000000 *
          min (r_backoff_base_secs r * 2 ^ nat (r_attempts r - 1)) (r_backoff_max_secs r)
        else r_run_at r) \<and>
      j_last_error j = Some err \<and> j_attempts j = r_attempts r \<and> lock_cleared j \<and>
      (j_status j = DeadLettered \<longrightarrow> (\<exists>d. dead_letter_at i db' = Some d \<and>
        dl_last_error d = Some err \<and> dl_attempts d = r_attempts r \<and> dl_payload d = r_payload r)) \<and>
      (\<forall>k. k \<noteq> i \<longrightarrow> row_of k db' = row_of k db \<and> dead_letter_at k db' = dead_letter_at k db) \<and>
      closes_attempt i (if timed_out then ''timeout'' else ''failed'') (Some err) (pe_now env)
        (job_attempts db) (job_attempts db')"
proof -
  let ?db = "run calls empty_db"
  have store: "store_ok ?db" by (rule store_ok_reached [OF assms(1)])
  then have ok: "db_ok ?db" by (simp add: store_ok_def)
  have ri: "r_id r = i" using assms(2) row_of_in by blast
  let ?r' = "fail_set (pe_now env) err r"
  define db' where "db' = fail_db (pe_now env) err timed_out r ?db"
  have eq: "fail_job env i w err timed_out ?db = (Ok (job_of ?r'), db')"
    using assms by (simp add: fail_job_eq [OF ok] db'_def)
  have store': "store_ok db'"
    using store_ok_exec [OF store, of "FailJob i w err timed_out" env] eq by simp
  then have ok': "db_ok db'" "dlq_ok db'" by (simp_all add: store_ok_def)
  have rows: "row_of k db' = (if k = i then Some ?r' else row_of k ?db)" for k
    unfolding db'_def by (rule row_of_fail_db [OF assms(2)])
  have row': "row_ok ?r'" using db_ok_row_of [OF ok'(1), of i ?r'] rows by simp
  note fields = job_of_fields(9,10,15,16,17,18) [OF status_of_row [OF row']]
  have get: "get_job i db' = Ok (Some (job_of ?r'))"
    by (simp add: get_job_def fetch_job_eq [OF ok'(1)] rows)
  have entry: "\<exists>d. dead_letter_at i db' = Some d \<and> dl_last_error d = Some err \<and>
      dl_attempts d = r_attempts r \<and> dl_payload d = r_payload r" if "status_of ?r' = DeadLettered"
    using dead_lettered_entry [OF ok'(2), of i ?r'] rows that row' by (simp add: fail_set_row)
  have others: "row_of k db' = row_of k ?db \<and> dead_letter_at k db' = dead_letter_at k ?db"
    if "k \<noteq> i" for k
    using that rows ri by (simp add: db'_def dead_letter_at_fail_db)
  have log: "closes_attempt i (if timed_out then ''timeout'' else ''failed'') (Some err) (pe_now env)
      (job_attempts ?db) (job_attempts db')"
    using closes_attempt_fail [of i "failed_attempt_status timed_out" err "pe_now env" "job_attempts ?db"]
    by (simp add: db'_def fail_db_def ri failed_attempt_status_def)
  have status: "status_of ?r' = (if r_attempts r < r_max_attempts r then Retrying
      else if r_dead_letter r then DeadLettered else Failed)"
    by (simp add: status_of_fail_set retryable_def)
  show ?thesis
    unfolding Let_def eq prod.case
    by (rule exI [of _ "job_of ?r'"])
      (use get entry others log status in \<open>simp add: fields lock_cleared_def fail_set_row\<close>)
qed

theorem fail_job_exact_witness:
  "\<exists>j. fst (fail_job (sample_env 9 0) 1 8 ''boom'' True (run sample_calls empty_db)) = Ok j \<and>
    j_status j = DeadLettered \<and> j_last_error j = Some ''boom''"
proof -
  have facts: "calls_ok sample_calls"
    "row_of 1 (run sample_calls empty_db) = Some (sample_row 1 sample_calls)"
    "held_by 1 8 (sample_row 1 sample_calls)"
    "r_dead_letter (sample_row 1 sample_calls)"
    "\<not> r_attempts (sample_row 1 sample_calls) < r_max_attempts (sample_row 1 sample_calls)"
    by code_simp+
  from fail_job_exact [OF facts(1-3), of "sample_env 9 0" "''boom''" True] facts(4,5)
  show ?thesis by (auto simp: Let_def split: prod.splits)
qed

section \<open>The reaper\<close>

lemma sql_backoff_eq:
  assumes "row_ok r" and "has_status r Processing"
  shows "sql_backoff_secs r = backoff_secs (r_backoff_base_secs r) (r_backoff_max_secs r) (r_attempts r)"
proof -
  have "1 \<le> r_attempts r" using assms by (simp add: row_ok_iff)
  then show ?thesis by (simp add: sql_backoff_secs_def backoff_secs_def min.commute)
qed

text \<open>
  C23. The reaper agrees with the failure report.  For a \<open>Processing\<close> job of any reachable state, the backoff the reaper
  computes in SQL equals the one \<open>fail_job\<close> computes with \<open>BackoffPolicy\<close>, and at the same instant the reaper takes
  the job to the same status, due time and counters; the two differ only in the recorded error, which
  the reaper sets to \<open>lease expired\<close> unless an earlier attempt left one.
\<close>

theorem reaper_agrees_with_fail:
  assumes "calls_ok calls" and "row_of i (run calls empty_db) = Some r" and "has_status r Processing"
  shows "delay_for_attempt (exponential (as_u64 (max (r_backoff_base_secs r) 1))
      (as_u64 (max (r_backoff_max_secs r) 1))) (as_u32 (r_attempts r)) =
        (Ok (from_secs (sql_backoff_secs r)) :: (duration, queue_error) outcome) \<and>
    reap_set now r = (fail_set now err r)
      \<lparr>r_last_error := Some (coalesce (r_last_error r) ''lease expired'')\<rparr>"
proof -
  have ok: "row_ok r"
    using db_ok_row_of [OF db_ok_reached [OF assms(1)] assms(2)] .
  have "reap_set now r = (fail_set now err r)
      \<lparr>r_last_error := Some (coalesce (r_last_error r) ''lease expired'')\<rparr>"
    using sql_backoff_eq [OF ok assms(3)]
    by (auto simp: reap_set_def fail_set_def retryable_def row_updates lease_expired_text_def)
  then show ?thesis
    using row_delay [OF ok assms(3)] sql_backoff_eq [OF ok assms(3)] by simp
qed

theorem reaper_agrees_with_fail_witness:
  "reap_set 5 (sample_row 1 sample_calls) = (fail_set 5 ''x'' (sample_row 1 sample_calls))
      \<lparr>r_last_error := Some (coalesce (r_last_error (sample_row 1 sample_calls)) ''lease expired'')\<rparr>"
proof -
  have facts: "calls_ok sample_calls"
    "row_of 1 (run sample_calls empty_db) = Some (sample_row 1 sample_calls)"
    "has_status (sample_row 1 sample_calls) Processing"
    by code_simp+
  from reaper_agrees_with_fail [OF facts] show ?thesis by blast
qed

lemma expired_class:
  "\<exists>c \<in> {retryable, exhausted_dead_letter, exhausted_failed}. c r"
  by (auto simp: retryable_def exhausted_dead_letter_def exhausted_failed_def)

lemma reaper_clears_row:
  assumes "db_ok db"
    and "\<And>c. c \<in> {retryable, exhausted_dead_letter, exhausted_failed} \<Longrightarrow>
      int (length (class_rows env c db)) \<le> n"
    and "row_of i db = Some r" and "expired env r"
  shows "i \<in> recovered_ids env n db"
proof -
  obtain c where c: "c \<in> {retryable, exhausted_dead_letter, exhausted_failed}" "c r"
    using expired_class by blast
  have "r \<in> set (class_rows env c db)"
    using row_of_in [OF assms(3)] assms(4) c(2) by (simp add: class_rows_def)
  then have "i \<in> set (expired_ids env c n db)"
    using expired_ids_all [OF assms(2) [OF c(1)]] row_of_in [OF assms(3)] by blast
  with c(1) show ?thesis by (auto simp: recovered_ids_def)
qed

text \<open>
  C22. A sweep of the reaper.  With a batch limit of \<open>n \<ge> 0\<close> it succeeds and returns, without repetition, the ids of
  the jobs it recovered.  Those were \<open>Processing\<close> with a lease that had expired; each is moved as an abandoned attempt
  and keeps no running attempt; every other job keeps its row.  If no class (retryable, dead-letter,
  fail) holds more than \<open>n\<close> expired jobs, then afterwards no expired lease is left except on rows a
  concurrent transaction has locked.
\<close>

theorem reaper_sweep_exact:
  assumes "calls_ok calls" and "0 \<le> n"
  shows "let db = run calls empty_db; (out, db') = recover_expired_leases env n db
    in \<exists>ids. out = Ok ids \<and> distinct ids \<and>
      (\<forall>i. i \<in> set ids \<longrightarrow> (\<exists>r t. row_of i db = Some r \<and> has_status r Processing \<and>
        r_lease_expires_at r = Some t \<and> t < pe_now env \<and>
        row_of i db' = Some (reap_set (pe_now env) r) \<and> running_attempts i db' = [])) \<and>
      (\<forall>i. i \<notin> set ids \<longrightarrow> row_of i db' = row_of i db) \<and>
      ((\<forall>c. c \<in> {retryable, exhausted_dead_letter, exhausted_failed} \<longrightarrow>
          int (length (class_rows env c db)) \<le> n) \<longrightarrow>
        (\<forall>i r. row_of i db' = Some r \<longrightarrow> \<not> expired env r))"
proof -
  let ?db = "run calls empty_db" and ?ids = "recovered_list env n (run calls empty_db)"
  have store: "store_ok ?db" by (rule store_ok_reached [OF assms(1)])
  then have ok: "db_ok ?db" by (simp add: store_ok_def)
  define db' where "db' = snd (recover_expired_leases env n ?db)"
  have eq: "recover_expired_leases env n ?db = (Ok ?ids, db')"
    using recover_expired_leases_run [OF ok assms(2), of env] by (simp add: db'_def)
  have ids: "set ?ids = recovered_ids env n ?db" by (rule set_recovered_list [OF ok])
  have rows: "row_of i db' =
      map_option (\<lambda>r. if i \<in> set ?ids then reap_set (pe_now env) r else r) (row_of i ?db)" for i
    using recover_expired_leases_run [OF ok assms(2), of env]
    by (simp add: db'_def row_of_reaped [OF ok] ids)
  have "attempts_ok db'"
    using store_ok_exec [OF store, of "RecoverExpired n" env] by (simp add: db'_def store_ok_def)
  then have log: "row_attempts_ok r (running_attempts i db')" if "row_of i db' = Some r" for i r
    using that by (rule attempts_okD)
  have hit: "\<exists>r t. row_of i ?db = Some r \<and> has_status r Processing \<and>
        r_lease_expires_at r = Some t \<and> t < pe_now env \<and>
        row_of i db' = Some (reap_set (pe_now env) r) \<and> running_attempts i db' = []"
    if i: "i \<in> set ?ids" for i
  proof -
    obtain r where r: "row_of i ?db = Some r" "expired env r"
      using i ids by (auto simp: recovered_ids_def elim!: expired_idsD [OF ok])
    then have "row_of i db' = Some (reap_set (pe_now env) r)" using i by (simp add: rows)
    moreover from log [OF this] have "running_attempts i db' = []"
      by (simp add: row_attempts_ok_def reap_set_status)
    ultimately show ?thesis using r by (auto simp: expired_def null_less_iff)
  qed
  have clear: "\<not> expired env s" if all: "\<And>c. c \<in> {retryable, exhausted_dead_letter, exhausted_failed} \<Longrightarrow>
      int (length (class_rows env c ?db)) \<le> n" and s: "row_of i db' = Some s" for i s
  proof
    assume e: "expired env s"
    then have "i \<notin> set ?ids" using s by (auto simp: rows expired_def reap_set_status)
    with s have "row_of i ?db = Some s" by (simp add: rows)
    then have "i \<in> set ?ids" using reaper_clears_row [OF ok all] e by (simp add: ids)
    with \<open>i \<notin> set ?ids\<close> show False by simp
  qed
  show ?thesis
    unfolding Let_def eq prod.case
  proof (intro exI [of _ ?ids] conjI allI impI)
    show "distinct ?ids" by (rule distinct_recovered_list [OF ok])
    show "row_of i db' = row_of i ?db" if "i \<notin> set ?ids" for i
      using that by (simp add: rows option.map_ident)
  qed (use hit clear in blast)+
qed

theorem reaper_sweep_exact_witness:
  "\<exists>ids. fst (recover_expired_leases (sample_env 40000000 0) 100 (run sample_calls empty_db)) = Ok ids \<and>
    ids = [1, 2] \<and>
    (\<forall>i r. row_of i (snd (recover_expired_leases (sample_env 40000000 0) 100
      (run sample_calls empty_db))) = Some r \<longrightarrow> \<not> expired (sample_env 40000000 0) r)"
proof -
  let ?env = "sample_env 40000000 0" and ?db = "run sample_calls empty_db"
  have facts: "calls_ok sample_calls"
    "fst (recover_expired_leases ?env 100 ?db) = Ok [1, 2]"
    "int (length (class_rows ?env retryable ?db)) \<le> 100"
    "int (length (class_rows ?env exhausted_dead_letter ?db)) \<le> 100"
    "int (length (class_rows ?env exhausted_failed ?db)) \<le> 100"
    by code_simp+
  from reaper_sweep_exact [OF facts(1), of 100 ?env] facts(2-5) show ?thesis
    by (auto simp: Let_def split: prod.splits)
qed

end
