(* ===== verification/Lease_Order.thy ===== *)
theory Lease_Order
  imports Lease_Protocol
begin

text \<open>
  What \<open>lease_next\<close> hands out: one call returns a best eligible job and locks exactly that row, and
  repeated calls return every eligible job once, best first, until none is left.
\<close>

section \<open>One call\<close>

definition eligible_rows :: "pg_env \<Rightarrow> string list \<Rightarrow> 'j db \<Rightarrow> 'j job_row list" where
  "eligible_rows env qs db = select_where (lease_eligible env qs db) (jobs db)"

lemma row_of_leased:
  assumes "db_ok db" and "lease_candidate env qs db = Some c"
  shows "row_of i (snd (lease_next env w qs secs db)) =
    (if i = r_id c then Some (lease_set (pe_now env) w secs c) else row_of i db)"
proof -
  have "row_of (r_id c) db = Some c"
    using lease_candidate_SomeD(1) [OF assms(2)] by (simp add: db_ok_find [OF assms(1)])
  then show ?thesis
    using assms(2) by (simp add: lease_next_eq [OF assms(1)] Let_def row_of_update_job)
qed

text \<open>The conditions for a job to be handed out, and the order of preference, as documented.\<close>

definition can_lease :: "pg_env \<Rightarrow> string list \<Rightarrow> 'j db \<Rightarrow> 'j job_row \<Rightarrow> bool" where
  "can_lease env qs db r \<longleftrightarrow>
    r_queue r \<in> set qs \<and> (case queue_of (r_queue r) db of Some q \<Rightarrow> \<not> q_paused q | None \<Rightarrow> False) \<and>
    is_leaseable (status_of r) \<and> r_run_at r \<le> pe_now env \<and> r_id r \<notin> set (pe_locked env)"

definition not_after :: "'j job_row \<Rightarrow> 'j job_row \<Rightarrow> bool" where
  "not_after r s \<longleftrightarrow>
    r_priority s < r_priority r \<or>
    r_priority s = r_priority r \<and>
      (r_run_at r < r_run_at s \<or> r_run_at r = r_run_at s \<and> r_created_at r \<le> r_created_at s)"

lemma not_after_key: "not_after r s \<longleftrightarrow> lease_key r \<le> lease_key s"
  by (auto simp: not_after_def lease_key_def less_eq_prod_def)

lemma queue_open_iff:
  assumes "db_ok db"
  shows "queue_open name db \<longleftrightarrow> (case queue_of name db of Some q \<Rightarrow> \<not> q_paused q | None \<Rightarrow> False)"
proof -
  have "distinct (map q_name (queues db))" using assms by (simp add: db_ok_def)
  then have "queue_open name db \<longleftrightarrow> (\<exists>q. queue_of name db = Some q \<and> \<not> q_paused q)"
    by (auto simp: queue_open_def list_ex_iff find_by_distinct)
  then show ?thesis by (auto split: option.splits)
qed

lemma can_lease_iff:
  assumes "db_ok db" and "r \<in> set (jobs db)"
  shows "can_lease env qs db r \<longleftrightarrow> lease_eligible env qs db r"
proof -
  have "status_in r [Queued, Scheduled, Retrying] \<longleftrightarrow> is_leaseable (status_of r)"
    unfolding status_in_status_of [OF db_ok_row [OF assms]] by (auto simp: is_leaseable_def)
  then show ?thesis
    by (simp only: can_lease_def lease_eligible_def queue_open_iff [OF assms(1)])
qed

lemma eligible_rows_can_lease:
  assumes "db_ok db"
  shows "eligible_rows env qs db = filter (can_lease env qs db) (jobs db)"
  unfolding eligible_rows_def select_where_def
  using can_lease_iff [OF assms] by (intro filter_cong) auto

definition leased_as :: "time \<Rightarrow> uuid \<Rightarrow> int \<Rightarrow> 'j job_row \<Rightarrow> 'j job \<Rightarrow> bool" where
  "leased_as now w secs r j \<longleftrightarrow>
    j_id j = r_id r \<and> j_queue j = r_queue r \<and> j_job_type j = r_job_type r \<and>
    j_payload j = r_payload r \<and> j_timeout_secs j = r_timeout_secs r \<and>
    j_status j = Processing \<and> j_locked_by j = Some w \<and> j_locked_at j = Some now \<and>
    j_lease_expires_at j = Some (now + 1000000 * secs) \<and> j_attempts j = r_attempts r + 1"

lemma leased_as_lease_set: "leased_as now w secs r (job_of (lease_set now w secs r))"
  unfolding leased_as_def job_of_fields [OF status_after(3)]
  by (simp add: lease_set_def interval_secs_def usecs_per_sec_def)

text \<open>
  C3. What \<open>lease_next\<close> does in every reachable state.  It never fails.  It returns nothing exactly when no job can be
  leased (in one of the requested queues, the queue not paused, in a leaseable status, due, and not
  locked by a concurrent transaction), and then changes nothing.  Otherwise it returns a leasable job
  that no leasable job precedes in the order of priority, due time and age; that job, and no other,
  becomes \<open>Processing\<close> under the caller's lock with a lease of \<open>secs\<close> seconds and its attempt counted, and one
  running attempt is recorded for it.
\<close>

theorem lease_next_best:
  assumes "calls_ok calls"
  shows "let db = run calls empty_db; (res, db') = lease_next env w qs secs db
    in if \<not> (\<exists>i r. row_of i db = Some r \<and> can_lease env qs db r) then res = Ok None \<and> db' = db
       else \<exists>r j a. row_of (r_id r) db = Some r \<and> can_lease env qs db r \<and>
         (\<forall>k s. row_of k db = Some s \<and> can_lease env qs db s \<longrightarrow> not_after r s) \<and>
         res = Ok (Some j) \<and> leased_as (pe_now env) w secs r j \<and> get_job (r_id r) db' = Ok (Some j) \<and>
         (\<forall>k. k \<noteq> r_id r \<longrightarrow> row_of k db' = row_of k db) \<and>
         job_attempts db' = job_attempts db @ [a] \<and> a_job_id a = r_id r \<and> a_worker_id a = Some w \<and>
         a_attempt a = r_attempts r + 1 \<and> a_status a = ''running''"
proof -
  let ?db = "run calls empty_db"
  have ok: "db_ok ?db" by (rule db_ok_reached [OF assms])
  have eligible: "row_of i ?db = Some r \<Longrightarrow> can_lease env qs ?db r \<longleftrightarrow> lease_eligible env qs ?db r" for i r
    using can_lease_iff [OF ok] row_of_in by blast
  show ?thesis
  proof (cases "lease_candidate env qs ?db")
    case None
    then have "\<not> (\<exists>i r. row_of i ?db = Some r \<and> can_lease env qs ?db r)"
      using eligible row_of_in unfolding lease_candidate_None_iff by blast
    with None show ?thesis by (simp add: lease_next_def)
  next
    case (Some c)
    note cand = lease_candidate_SomeD [OF Some]
    let ?j = "job_of (lease_set (pe_now env) w secs c)"
    define db' where "db' = snd (lease_next env w qs secs ?db)"
    have c: "row_of (r_id c) ?db = Some c" using cand(1) by (simp add: db_ok_find [OF ok])
    have best: "not_after c s" if "row_of k ?db = Some s" "can_lease env qs ?db s" for k s
      using cand(3) that eligible [OF that(1)] row_of_in [OF that(1)] by (simp add: not_after_key)
    have rows: "row_of k db' = (if k = r_id c then Some (lease_set (pe_now env) w secs c) else row_of k ?db)" for k
      unfolding db'_def by (rule row_of_leased [OF ok Some])
    have get: "get_job (r_id c) db' = Ok (Some ?j)"
      using fetch_job_eq [OF db_ok_lease_next [OF ok, of env w qs secs], of "r_id c"] rows
      by (simp add: get_job_def db'_def [symmetric])
    have run: "lease_next env w qs secs ?db = (Ok (Some ?j), db')"
      and log: "job_attempts db' = job_attempts ?db @ [running_attempt (pe_now env) w ?j (attempt_seq ?db)]"
      using Some by (simp_all add: lease_next_eq [OF ok] Let_def db'_def)
    have "j_attempts ?j = r_attempts c + 1" "j_id ?j = r_id c"
      using leased_as_lease_set [of "pe_now env" w secs c] by (simp_all add: leased_as_def)
    then show ?thesis
      unfolding Let_def run prod.case
      using c best rows get log leased_as_lease_set eligible [OF c] cand(2)
      by (auto simp: running_attempt_def intro!: exI [of _ c])
  qed
qed

theorem lease_next_best_witness:
  "\<exists>r j. fst (lease_next (sample_env 2 0) 7 [''q''] 30 (run (take 2 sample_calls) empty_db)) =
      Ok (Some j) \<and> leased_as 2 7 30 r j \<and> j_id j = 2"
proof -
  let ?db = "run (take 2 sample_calls) empty_db" and ?r = "sample_row 2 (take 2 sample_calls)"
  have facts: "calls_ok (take 2 sample_calls)" "row_of 2 ?db = Some ?r"
    "can_lease (sample_env 2 0) [''q''] ?db ?r" "pe_now (sample_env 2 0) = 2"
    "map_option j_id (case fst (lease_next (sample_env 2 0) 7 [''q''] 30 ?db) of Ok x \<Rightarrow> x | _ \<Rightarrow> None) = Some 2"
    by code_simp+
  then have some: "\<not> \<not> (\<exists>i r. row_of i ?db = Some r \<and> can_lease (sample_env 2 0) [''q''] ?db r)" by blast
  obtain res db' where run: "lease_next (sample_env 2 0) 7 [''q''] 30 ?db = (res, db')" by fastforce
  from lease_next_best [OF facts(1), of "sample_env 2 0" 7 "[''q'']" 30, unfolded Let_def run prod.case
      if_not_P [OF some] facts(4)]
  obtain r j where "res = Ok (Some j)" "leased_as 2 7 30 r j" by blast
  with facts(5) show ?thesis by (auto simp: run)
qed

section \<open>Draining a queue\<close>

text \<open>A worker that calls \<open>lease_next\<close> again and again at one instant.\<close>

fun drain ::
  "nat \<Rightarrow> pg_env \<Rightarrow> uuid \<Rightarrow> string list \<Rightarrow> int \<Rightarrow> 'j db \<Rightarrow> 'j job list \<times> 'j db" where
  "drain 0 env w qs secs db = ([], db)"
| "drain (Suc n) env w qs secs db =
    (case lease_next env w qs secs db of
       (Ok (Some j), db') \<Rightarrow> let (js, db'') = drain n env w qs secs db' in (j # js, db'')
     | (_, db') \<Rightarrow> ([], db'))"

definition job_key :: "'j job \<Rightarrow> int \<times> int \<times> int" where
  "job_key j = (- j_priority j, j_run_at j, j_created_at j)"

lemma job_key_leased [simp]: "job_key (job_of (lease_set now w secs r)) = lease_key r"
  by (simp add: job_key_def job_of_fields [OF status_after(3)]) (simp add: lease_set_def lease_key_def)

lemma filter_update_where_away:
  assumes "\<And>r. r \<in> set rows \<Longrightarrow> p r \<Longrightarrow> \<not> q (f r)"
  shows "filter q (update_where p f rows) = filter (\<lambda>r. \<not> p r) (filter q rows)"
  using assms by (induction rows) auto

lemma lease_next_tables:
  assumes "db_ok db" and "lease_candidate env qs db = Some c"
  shows "queues (snd (lease_next env w qs secs db)) = queues db"
    and "jobs (snd (lease_next env w qs secs db)) =
      update_where (\<lambda>x. r_id x = r_id c) (lease_set (pe_now env) w secs) (jobs db)"
  using assms(2) by (simp_all add: lease_next_eq [OF assms(1)] update_job_def Let_def)

lemma lease_eligible_cong:
  "queues db = queues db' \<Longrightarrow> lease_eligible env qs db = lease_eligible env qs db'"
  by (rule ext) (simp add: lease_eligible_def queue_open_def)

lemma eligible_after_lease:
  assumes "db_ok db" and "lease_candidate env qs db = Some c"
  shows "eligible_rows env qs (snd (lease_next env w qs secs db)) =
    filter (\<lambda>r. r_id r \<noteq> r_id c) (eligible_rows env qs db)"
proof -
  let ?db' = "snd (lease_next env w qs secs db)"
  have "lease_eligible env qs ?db' = lease_eligible env qs db"
    by (rule lease_eligible_cong) (rule lease_next_tables [OF assms])
  moreover have "\<not> lease_eligible env qs db (lease_set (pe_now env) w secs r)" for r
    by (simp add: lease_eligible_def lease_set_def)
  ultimately show ?thesis
    by (simp add: eligible_rows_def lease_next_tables(2) [OF assms] select_where_def
        filter_update_where_away)
qed

lemma eligible_distinct: "db_ok db \<Longrightarrow> distinct (map r_id (eligible_rows env qs db))"
  by (simp add: eligible_rows_def distinct_select_ids)

lemma mset_remove_key:
  assumes "distinct (map k xs)" and "x \<in> set xs"
  shows "mset (map k xs) = add_mset (k x) (mset (map k (filter (\<lambda>y. k y \<noteq> k x) xs)))"
  using assms
proof (induction xs)
  case (Cons y ys)
  show ?case
  proof (cases "k y = k x")
    case True
    with Cons.prems have "filter (\<lambda>y. k y \<noteq> k x) ys = ys"
      by (intro filter_True) (auto simp: image_iff)
    with True show ?thesis by simp
  next
    case False
    with Cons show ?thesis by auto
  qed
qed simp

lemma db_ok_drain: "db_ok db \<Longrightarrow> db_ok (snd (drain n env w qs secs db))"
proof (induction n arbitrary: db)
  case (Suc n)
  then have "db_ok (snd (lease_next env w qs secs db))" by (simp add: db_ok_lease_next)
  then show ?case
    using Suc.IH by (auto split: prod.splits outcome.splits option.splits) (metis snd_conv)
qed simp

text \<open>What draining returns, from any well-formed state.\<close>

definition drains_to :: "'j job_row list \<Rightarrow> 'j job list \<Rightarrow> bool" where
  "drains_to rows js \<longleftrightarrow>
    mset (map j_id js) = mset (map r_id rows) \<and> sorted (map job_key js) \<and>
    job_key ` set js \<subseteq> lease_key ` set rows"

lemma drains_to_Cons:
  assumes "distinct (map r_id rows)" and "c \<in> set rows" and "\<And>r. r \<in> set rows \<Longrightarrow> lease_key c \<le> lease_key r"
    and "drains_to (filter (\<lambda>r. r_id r \<noteq> r_id c) rows) js"
  shows "drains_to rows (job_of (lease_set now w secs c) # js)"
proof -
  let ?rest = "filter (\<lambda>r. r_id r \<noteq> r_id c) rows"
  have keys: "job_key ` set js \<subseteq> lease_key ` set ?rest"
    and js: "mset (map j_id js) = mset (map r_id ?rest)" "sorted (map job_key js)"
    using assms(4) by (simp_all add: drains_to_def)
  have "lease_key c \<le> job_key j" if "j \<in> set js" for j
  proof -
    from keys that obtain r where "r \<in> set ?rest" "job_key j = lease_key r" by blast
    with assms(3) show ?thesis by simp
  qed
  moreover have "job_key ` set (job_of (lease_set now w secs c) # js) \<subseteq> lease_key ` set rows"
    using keys assms(2) by auto
  ultimately show ?thesis
    using js mset_remove_key [OF assms(1,2)] by (simp add: drains_to_def)
qed

lemma drain_all:
  assumes "db_ok db" and "length (eligible_rows env qs db) \<le> n"
  shows "drains_to (eligible_rows env qs db) (fst (drain n env w qs secs db)) \<and>
    eligible_rows env qs (snd (drain n env w qs secs db)) = []"
  using assms
proof (induction n arbitrary: db)
  case 0
  then show ?case by (simp add: drains_to_def)
next
  case (Suc n)
  show ?case
  proof (cases "lease_candidate env qs db")
    case None
    then have "eligible_rows env qs db = []"
      by (simp add: eligible_rows_def select_where_def filter_empty_conv lease_candidate_None_iff)
    moreover from None have "lease_next env w qs secs db = (Ok None, db)"
      by (simp add: lease_next_def)
    ultimately show ?thesis by (simp add: drains_to_def)
  next
    case (Some c)
    let ?E = "eligible_rows env qs db"
    define db' where "db' = snd (lease_next env w qs secs db)"
    have c: "c \<in> set ?E" "\<And>r. r \<in> set ?E \<Longrightarrow> lease_key c \<le> lease_key r"
      using lease_candidate_SomeD [OF Some] by (auto simp: eligible_rows_def)
    have E': "eligible_rows env qs db' = filter (\<lambda>r. r_id r \<noteq> r_id c) ?E"
      unfolding db'_def by (rule eligible_after_lease [OF Suc.prems(1) Some])
    then have "length (eligible_rows env qs db') < length ?E"
      using c(1) by (simp add: length_filter_less)
    then have IH: "drains_to (filter (\<lambda>r. r_id r \<noteq> r_id c) ?E) (fst (drain n env w qs secs db'))"
      "eligible_rows env qs (snd (drain n env w qs secs db')) = []"
      using Suc.IH [of db'] db_ok_lease_next [OF Suc.prems(1), of env w qs secs] Suc.prems(2) E'
      by (simp_all add: db'_def [symmetric])
    have lease: "lease_next env w qs secs db = (Ok (Some (job_of (lease_set (pe_now env) w secs c))), db')"
      using Some by (simp add: db'_def lease_next_eq [OF Suc.prems(1)] Let_def)
    have split: "drain (Suc n) env w qs secs db =
        (job_of (lease_set (pe_now env) w secs c) # fst (drain n env w qs secs db'),
         snd (drain n env w qs secs db'))"
      by (simp add: lease split: prod.split)
    show ?thesis
      using drains_to_Cons [OF eligible_distinct [OF Suc.prems(1)] c IH(1)] IH(2)
      by (simp only: split fst_conv snd_conv)
  qed
qed

text \<open>
  C28. Leasing makes progress and respects the order.  In every reachable state, a worker that calls
  \<open>lease_next\<close> as often as there are eligible jobs receives each of them exactly once, in non-decreasing
  order of (priority descending, due time, age), and afterwards no eligible job is left.
\<close>

theorem drain_returns_all_in_order:
  assumes "calls_ok calls"
    and "length (filter (can_lease env qs (run calls empty_db)) (jobs (run calls empty_db))) \<le> n"
  shows "let db = run calls empty_db; (js, db') = drain n env w qs secs db
    in mset (map j_id js) = mset (map r_id (filter (can_lease env qs db) (jobs db))) \<and>
       distinct (map j_id js) \<and> sorted (map job_key js) \<and> filter (can_lease env qs db') (jobs db') = []"
proof -
  let ?db = "run calls empty_db"
  have ok: "db_ok ?db" by (rule db_ok_reached [OF assms(1)])
  have "distinct (map j_id js)" if "mset (map j_id js) = mset (map r_id (eligible_rows env qs ?db))" for js :: "'a job list"
    using that eligible_distinct [OF ok] by (metis mset_eq_imp_distinct_iff)
  moreover have few: "length (eligible_rows env qs ?db) \<le> n"
    using assms(2) by (simp add: eligible_rows_can_lease [OF ok])
  moreover have "db_ok (snd (drain n env w qs secs ?db))" by (rule db_ok_drain [OF ok])
  ultimately show ?thesis
    using drain_all [OF ok few, of w secs]
    by (cases "drain n env w qs secs ?db")
      (simp add: drains_to_def Let_def eligible_rows_can_lease ok)
qed

theorem drain_returns_all_in_order_witness:
  "map j_id (fst (drain 2 (sample_env 2 0) 7 [''q''] 30 (run (take 2 sample_calls) empty_db))) = [2, 1] \<and>
   sorted (map job_key (fst (drain 2 (sample_env 2 0) 7 [''q''] 30 (run (take 2 sample_calls) empty_db))))"
proof
  show "map j_id (fst (drain 2 (sample_env 2 0) 7 [''q''] 30 (run (take 2 sample_calls) empty_db))) = [2, 1]"
    by code_simp
  have "calls_ok (take 2 sample_calls)"
    "length (filter (can_lease (sample_env 2 0) [''q''] (run (take 2 sample_calls) empty_db))
      (jobs (run (take 2 sample_calls) empty_db))) \<le> 2"
    by code_simp+
  then show "sorted (map job_key (fst (drain 2 (sample_env 2 0) 7 [''q''] 30
      (run (take 2 sample_calls) empty_db))))"
    using drain_returns_all_in_order [of "take 2 sample_calls" "sample_env 2 0" "[''q'']" 2 7 30]
    by (simp add: Let_def split: prod.splits)
qed

end
