(* ===== verification/Store_Api.thy ===== *)
theory Store_Api
  imports Store_Reports Store_Queries Lease_Order
begin

text \<open>
  The trait \<open>Store\<close> of \<^verbatim>\<open>crates/core/src/store.rs\<close>: a record of its methods, the contract its callers rely on as
  a locale over the jobs as callers see them, and \<open>PgStore\<close> as an instance that meets the contract.
\<close>

section \<open>The trait\<close>

text \<open>
  A method takes the environment of the call, its arguments and the state of the backend, and returns
  its result with the new state.
\<close>

record ('s, 'e, 'j) store_ops =
  so_ensure_queue :: "'e \<Rightarrow> string \<Rightarrow> 's \<Rightarrow> (queue, queue_error) outcome \<times> 's"
  so_get_queue :: "'e \<Rightarrow> string \<Rightarrow> 's \<Rightarrow> (queue option, queue_error) outcome \<times> 's"
  so_list_queues :: "'e \<Rightarrow> 's \<Rightarrow> (queue list, queue_error) outcome \<times> 's"
  so_set_queue_paused :: "'e \<Rightarrow> string \<Rightarrow> bool \<Rightarrow> 's \<Rightarrow> (queue, queue_error) outcome \<times> 's"
  so_queue_stats :: "'e \<Rightarrow> string \<Rightarrow> 's \<Rightarrow> (queue_stats, queue_error) outcome \<times> 's"
  so_submit :: "'e \<Rightarrow> 'j normalized_job \<Rightarrow> 's \<Rightarrow> ('j submission, queue_error) outcome \<times> 's"
  so_get_job :: "'e \<Rightarrow> uuid \<Rightarrow> 's \<Rightarrow> ('j job option, queue_error) outcome \<times> 's"
  so_list_jobs :: "'e \<Rightarrow> string option \<Rightarrow> string option \<Rightarrow> string option \<Rightarrow> int \<Rightarrow> int \<Rightarrow> 's \<Rightarrow>
    ('j job list, queue_error) outcome \<times> 's"
  so_list_attempts :: "'e \<Rightarrow> uuid \<Rightarrow> 's \<Rightarrow> (job_attempt list, queue_error) outcome \<times> 's"
  so_list_dead_letter :: "'e \<Rightarrow> string option \<Rightarrow> int \<Rightarrow> 's \<Rightarrow>
    ('j dead_letter_job list, queue_error) outcome \<times> 's"
  so_cancel_job :: "'e \<Rightarrow> uuid \<Rightarrow> 's \<Rightarrow> ('j job, queue_error) outcome \<times> 's"
  so_retry_job :: "'e \<Rightarrow> uuid \<Rightarrow> 's \<Rightarrow> ('j job, queue_error) outcome \<times> 's"
  so_purge_finished :: "'e \<Rightarrow> time \<Rightarrow> 's \<Rightarrow> (int, queue_error) outcome \<times> 's"
  so_lease_next :: "'e \<Rightarrow> uuid \<Rightarrow> string list \<Rightarrow> int \<Rightarrow> 's \<Rightarrow>
    ('j job option, queue_error) outcome \<times> 's"
  so_complete_job :: "'e \<Rightarrow> uuid \<Rightarrow> uuid \<Rightarrow> 'j option \<Rightarrow> 's \<Rightarrow> ('j job, queue_error) outcome \<times> 's"
  so_fail_job :: "'e \<Rightarrow> uuid \<Rightarrow> uuid \<Rightarrow> string \<Rightarrow> bool \<Rightarrow> 's \<Rightarrow> ('j job, queue_error) outcome \<times> 's"
  so_renew_lease :: "'e \<Rightarrow> uuid \<Rightarrow> uuid \<Rightarrow> int \<Rightarrow> 's \<Rightarrow> (unit, queue_error) outcome \<times> 's"
  so_recover_expired_leases :: "'e \<Rightarrow> int \<Rightarrow> 's \<Rightarrow> (uuid list, queue_error) outcome \<times> 's"
  so_register_worker :: "'e \<Rightarrow> worker \<Rightarrow> 's \<Rightarrow> (unit, queue_error) outcome \<times> 's"
  so_heartbeat :: "'e \<Rightarrow> uuid \<Rightarrow> 's \<Rightarrow> (bool, queue_error) outcome \<times> 's"
  so_deregister_worker :: "'e \<Rightarrow> uuid \<Rightarrow> 's \<Rightarrow> (unit, queue_error) outcome \<times> 's"
  so_list_active_workers :: "'e \<Rightarrow> int \<Rightarrow> 's \<Rightarrow> (worker list, queue_error) outcome \<times> 's"
  so_prune_dead_workers :: "'e \<Rightarrow> int \<Rightarrow> 's \<Rightarrow> (int, queue_error) outcome \<times> 's"

text \<open>\<open>impl Store for PgStore\<close>.\<close>

definition pg_store :: "('j db, pg_env, 'j) store_ops" where
  "pg_store =
    \<lparr>so_ensure_queue = ensure_queue,
     so_get_queue = (\<lambda>env name db. (get_queue name db, db)),
     so_list_queues = (\<lambda>env db. (list_queues env db, db)),
     so_set_queue_paused = (\<lambda>env. set_queue_paused),
     so_queue_stats = (\<lambda>env name db. (queue_stats_of name db, db)),
     so_submit = submit,
     so_get_job = (\<lambda>env i db. (get_job i db, db)),
     so_list_jobs = (\<lambda>env q s t limit offset db. (list_jobs env q s t limit offset db, db)),
     so_list_attempts = (\<lambda>env i db. (list_attempts i db, db)),
     so_list_dead_letter = (\<lambda>env q limit db. (list_dead_letter env q limit db, db)),
     so_cancel_job = cancel_job,
     so_retry_job = retry_job,
     so_purge_finished = (\<lambda>env. purge_finished),
     so_lease_next = lease_next,
     so_complete_job = complete_job,
     so_fail_job = fail_job,
     so_renew_lease = renew_lease,
     so_recover_expired_leases = recover_expired_leases,
     so_register_worker = register_worker,
     so_heartbeat = heartbeat,
     so_deregister_worker = (\<lambda>env. deregister_worker),
     so_list_active_workers = (\<lambda>env secs db. (list_active_workers env secs db, db)),
     so_prune_dead_workers = prune_dead_workers\<rparr>"

section \<open>The contract\<close>

text \<open>Who holds a job, on the domain level.\<close>

definition leased_to :: "uuid \<Rightarrow> 'j job option \<Rightarrow> bool" where
  "leased_to w x \<longleftrightarrow>
    (case x of Some j \<Rightarrow> j_status j = Processing \<and> j_locked_by j = Some w | None \<Rightarrow> False)"

definition is_job_refusal :: "uuid \<Rightarrow> 'j job option \<Rightarrow> ('a, queue_error) outcome \<Rightarrow> bool" where
  "is_job_refusal i x out \<longleftrightarrow>
    (case x of
       None \<Rightarrow> out = Err (JobNotFound i)
     | Some j \<Rightarrow> \<exists>op. out = Err (InvalidOperation op (j_status j)))"

text \<open>The job a request becomes.\<close>

definition submitted_as :: "'j normalized_job \<Rightarrow> 'j job \<Rightarrow> bool" where
  "submitted_as z j \<longleftrightarrow>
    j_queue j = z_queue z \<and> j_job_type j = z_job_type z \<and> j_payload j = z_payload z \<and>
    j_status j = z_status z \<and> j_priority j = z_priority z \<and>
    j_idempotency_key j = z_idempotency_key z \<and> j_max_attempts j = z_max_attempts z \<and>
    j_attempts j = 0 \<and> j_run_at j = z_run_at z \<and> j_timeout_secs j = z_timeout_secs z \<and>
    j_locked_by j = None \<and> j_result j = None"

text \<open>What a failed attempt may become.\<close>

definition failed_as :: "string \<Rightarrow> 'j job \<Rightarrow> 'j job \<Rightarrow> bool" where
  "failed_as err j j' \<longleftrightarrow>
    j_status j' = (if j_attempts j < j_max_attempts j then Retrying
      else if j_dead_letter j then DeadLettered else Failed) \<and>
    j_last_error j' = Some err \<and> j_locked_by j' = None \<and> j_attempts j' = j_attempts j"

locale job_store =
  fixes ops :: "('s, 'e, 'j) store_ops"
    and inv :: "'s \<Rightarrow> bool"
    and view :: "'s \<Rightarrow> uuid \<Rightarrow> 'j job option"
  assumes get_job_law: "inv s \<Longrightarrow> so_get_job ops env i s = (Ok (view s i), s)"
    and view_id: "inv s \<Longrightarrow> view s i = Some j \<Longrightarrow> j_id j = i"
    and submit_law: "inv s \<Longrightarrow> normalized_ok z \<Longrightarrow> so_submit ops env z s = (sub_out, s') \<Longrightarrow>
      inv s' \<and>
      (case sub_out of
         Ok sub \<Rightarrow> view s' = (view s)(j_id (sub_job sub) \<mapsto> sub_job sub) \<and>
           (if sub_created sub
            then view s (j_id (sub_job sub)) = None \<and> submitted_as z (sub_job sub)
            else view s (j_id (sub_job sub)) = Some (sub_job sub) \<and>
              j_queue (sub_job sub) = z_queue z \<and> z_idempotency_key z \<noteq> None \<and>
              j_idempotency_key (sub_job sub) = z_idempotency_key z)
       | Err e \<Rightarrow> category e = Internal \<and> view s' = view s
       | Panic \<Rightarrow> False)"
    and complete_law: "inv s \<Longrightarrow> so_complete_job ops env i w res s = (out, s') \<Longrightarrow>
      inv s' \<and>
      (if leased_to w (view s i)
       then \<exists>j. out = Ok j \<and> view s' = (view s)(i \<mapsto> j) \<and> j_status j = Completed \<and>
         j_result j = res \<and> j_locked_by j = None
       else is_job_refusal i (view s i) out \<and> s' = s)"
    and fail_law: "inv s \<Longrightarrow> so_fail_job ops env i w err timed_out s = (out, s') \<Longrightarrow>
      inv s' \<and>
      (if leased_to w (view s i)
       then \<exists>j. out = Ok j \<and> view s' = (view s)(i \<mapsto> j) \<and> failed_as err (the (view s i)) j
       else is_job_refusal i (view s i) out \<and> s' = s)"

section \<open>\<open>PgStore\<close> meets the contract\<close>

definition pg_view :: "'j db \<Rightarrow> uuid \<Rightarrow> 'j job option" where
  "pg_view db i = map_option job_of (row_of i db)"

lemma store_ok_db [simp]: "store_ok db \<Longrightarrow> db_ok db"
  by (simp add: store_ok_def)

lemma pg_row_fields:
  assumes "db_ok db" and "row_of i db = Some r"
  shows "j_id (job_of r) = i" "j_locked_by (job_of r) = r_locked_by r"
    "j_attempts (job_of r) = r_attempts r" "j_max_attempts (job_of r) = r_max_attempts r"
    "j_dead_letter (job_of r) = r_dead_letter r"
  using job_of_fields(1,8,9,14,15) [OF status_of_row [OF db_ok_row_of [OF assms]]] row_of_in [OF assms(2)]
  by simp_all

lemma pg_leased_to:
  assumes "db_ok db"
  shows "leased_to w (pg_view db i) \<longleftrightarrow> (\<exists>r. row_of i db = Some r \<and> held_by i w r)"
proof (cases "row_of i db")
  case (Some r)
  then show ?thesis
    using pg_row_fields(2) [OF assms Some] row_of_in [OF Some] has_status_iff [OF db_ok_row_of [OF assms Some]]
    by (auto simp: leased_to_def pg_view_def held_by_def)
qed (simp add: leased_to_def pg_view_def)

lemma pg_view_update_job:
  assumes "\<And>x. same_identity x (f x)" and "row_of i db = Some r"
  shows "pg_view (update_job i f db) = (pg_view db)(i \<mapsto> job_of (f r))"
  using assms by (auto simp: pg_view_def row_of_update_job fun_eq_iff)

lemma pg_view_jobs: "jobs db = jobs db' \<Longrightarrow> pg_view db = pg_view db'"
  by (simp add: pg_view_def fun_eq_iff)

lemma pg_get_job: "db_ok db \<Longrightarrow> get_job i db = Ok (pg_view db i)"
  by (simp add: get_job_def fetch_job_eq pg_view_def)

lemma pg_refusal:
  "is_job_refusal i (pg_view db i) (case row_of i db of
      None \<Rightarrow> Err (JobNotFound i) | Some r \<Rightarrow> Err (InvalidOperation op (status_of r)))"
  by (simp add: is_job_refusal_def pg_view_def split: option.splits)

lemma pg_complete_law:
  assumes "store_ok db" and "complete_job env i w res db = (out, db')"
  shows "store_ok db' \<and>
    (if leased_to w (pg_view db i)
     then \<exists>j. out = Ok j \<and> pg_view db' = (pg_view db)(i \<mapsto> j) \<and> j_status j = Completed \<and>
       j_result j = res \<and> j_locked_by j = None
     else is_job_refusal i (pg_view db i) out \<and> db' = db)"
proof
  show "store_ok db'"
    using store_ok_exec [OF assms(1), of "CompleteJob i w res" env] assms(2) by simp
  have ok: "db_ok db" using assms(1) by simp
  show "if leased_to w (pg_view db i)
     then \<exists>j. out = Ok j \<and> pg_view db' = (pg_view db)(i \<mapsto> j) \<and> j_status j = Completed \<and>
       j_result j = res \<and> j_locked_by j = None
     else is_job_refusal i (pg_view db i) out \<and> db' = db"
  proof (cases "leased_to w (pg_view db i)")
    case True
    then obtain r where r: "row_of i db = Some r" "held_by i w r" by (auto simp: pg_leased_to [OF ok])
    let ?f = "complete_set (pe_now env) res"
    have out: "out = Ok (job_of (?f r))" and jobs: "jobs db' = jobs (update_job i ?f db)"
      using assms(2) r by (auto simp: complete_job_eq [OF ok])
    have "pg_view db' = (pg_view db)(i \<mapsto> job_of (?f r))"
      using pg_view_jobs [OF jobs] pg_view_update_job [of ?f i db r] r(1) by simp
    moreover have "j_result (job_of (?f r)) = res" "j_locked_by (job_of (?f r)) = None"
      by (simp_all add: job_of_fields [OF status_after(4)]) (simp_all add: complete_set_def clear_lock_def)
    ultimately show ?thesis using True out by simp
  next
    case False
    then have "\<not> held_by i w r" if "row_of i db = Some r" for r
      using that by (auto simp: pg_leased_to [OF ok])
    then have "complete_job env i w res db = (case row_of i db of
        None \<Rightarrow> Err (JobNotFound i) | Some r \<Rightarrow> Err (InvalidOperation ''complete'' (status_of r)), db)"
      by (simp add: complete_job_eq [OF ok] split: option.splits)
    with False assms(2) pg_refusal [of i db "''complete''"] show ?thesis by auto
  qed
qed

lemma pg_fail_law:
  assumes "store_ok db" and "fail_job env i w err timed_out db = (out, db')"
  shows "store_ok db' \<and>
    (if leased_to w (pg_view db i)
     then \<exists>j. out = Ok j \<and> pg_view db' = (pg_view db)(i \<mapsto> j) \<and> failed_as err (the (pg_view db i)) j
     else is_job_refusal i (pg_view db i) out \<and> db' = db)"
proof
  show "store_ok db'"
    using store_ok_exec [OF assms(1), of "FailJob i w err timed_out" env] assms(2) by simp
  have ok: "db_ok db" using assms(1) by simp
  show "if leased_to w (pg_view db i)
     then \<exists>j. out = Ok j \<and> pg_view db' = (pg_view db)(i \<mapsto> j) \<and> failed_as err (the (pg_view db i)) j
     else is_job_refusal i (pg_view db i) out \<and> db' = db"
  proof (cases "leased_to w (pg_view db i)")
    case True
    then obtain r where r: "row_of i db = Some r" "held_by i w r" by (auto simp: pg_leased_to [OF ok])
    let ?r' = "fail_set (pe_now env) err r"
    have out: "out = Ok (job_of ?r')" and db': "db' = fail_db (pe_now env) err timed_out r db"
      using assms(2) r by (auto simp: fail_job_eq [OF ok])
    have rows: "row_of k db' = (if k = i then Some ?r' else row_of k db)" for k
      unfolding db' by (rule row_of_fail_db [OF r(1)])
    then have view: "pg_view db' = (pg_view db)(i \<mapsto> job_of ?r')"
      by (auto simp: pg_view_def fun_eq_iff)
    obtain s where s: "has_status ?r' s" using fail_set_has_status by blast
    have "failed_as err (job_of r) (job_of ?r')"
      unfolding failed_as_def pg_row_fields(3-5) [OF ok r(1)] status_of_fail_set retryable_def
        job_of_fields(9,15,18) [OF s] fail_set_row by simp
    then show ?thesis using True out view r(1) by (simp add: pg_view_def)
  next
    case False
    then have "\<not> held_by i w r" if "row_of i db = Some r" for r
      using that by (auto simp: pg_leased_to [OF ok])
    then have "fail_job env i w err timed_out db = (case row_of i db of
        None \<Rightarrow> Err (JobNotFound i) | Some r \<Rightarrow> Err (InvalidOperation ''fail'' (status_of r)), db)"
      by (simp add: fail_job_eq [OF ok] split: option.splits)
    with False assms(2) pg_refusal [of i db "''fail''"] show ?thesis by auto
  qed
qed

lemma submitted_as_new_row:
  "submitted_as z (job_of (new_row now i z))"
  unfolding submitted_as_def job_of_fields [OF new_row_status(1)] by (simp add: new_row_def)

lemma pg_submit_law:
  assumes "store_ok db" and "normalized_ok z" and "submit env z db = (out, db')"
  shows "store_ok db' \<and>
    (case out of
       Ok sub \<Rightarrow> pg_view db' = (pg_view db)(j_id (sub_job sub) \<mapsto> sub_job sub) \<and>
         (if sub_created sub
          then pg_view db (j_id (sub_job sub)) = None \<and> submitted_as z (sub_job sub)
          else pg_view db (j_id (sub_job sub)) = Some (sub_job sub) \<and>
            j_queue (sub_job sub) = z_queue z \<and> z_idempotency_key z \<noteq> None \<and>
            j_idempotency_key (sub_job sub) = z_idempotency_key z)
     | Err e \<Rightarrow> category e = Internal \<and> pg_view db' = pg_view db
     | Panic \<Rightarrow> False)"
proof
  show "store_ok db'"
    using store_ok_exec [OF assms(1), of "Submit z" env] assms(2,3) by simp
  have ok: "db_ok db" using assms(1) by simp
  let ?r = "new_row (pe_now env) (pe_uuid env) z"
  have same: "pg_view (insert_queue now n db) = pg_view db" for now n by (rule pg_view_jobs) simp
  show "case out of
       Ok sub \<Rightarrow> pg_view db' = (pg_view db)(j_id (sub_job sub) \<mapsto> sub_job sub) \<and>
         (if sub_created sub
          then pg_view db (j_id (sub_job sub)) = None \<and> submitted_as z (sub_job sub)
          else pg_view db (j_id (sub_job sub)) = Some (sub_job sub) \<and>
            j_queue (sub_job sub) = z_queue z \<and> z_idempotency_key z \<noteq> None \<and>
            j_idempotency_key (sub_job sub) = z_idempotency_key z)
     | Err e \<Rightarrow> category e = Internal \<and> pg_view db' = pg_view db
     | Panic \<Rightarrow> False"
  proof (cases "job_by_key (z_queue z) (z_idempotency_key z) db")
    case (Some x)
    then have x: "x \<in> set (jobs db)" "has_key (z_queue z) (z_idempotency_key z) x"
      using job_by_key_iff [OF ok] by blast+
    then have "row_of (r_id x) db = Some x" by (simp add: db_ok_find [OF ok])
    note fields = job_of_fields(1,2,7) [OF status_of_row [OF db_ok_row [OF ok x(1)]]]
    have "pg_view db (r_id x) = Some (job_of x)"
      using \<open>row_of (r_id x) db = Some x\<close> by (simp add: pg_view_def)
    then show ?thesis
      using assms(3) Some x(2)
      by (auto simp: submit_eq [OF ok assms(2)] Let_def same fields has_key_def fun_upd_idem)
  next
    case None
    have id: "j_id (job_of ?r) = pe_uuid env"
      by (simp add: job_of_fields(1) [OF new_row_status(1)] new_row_status)
    have "pg_view (add_job ?r (insert_queue now n db)) = (pg_view db)(pe_uuid env \<mapsto> job_of ?r)"
      if "row_of (pe_uuid env) db = None" for now n
      using that by (auto simp: pg_view_def fun_eq_iff row_of_add_job new_row_status split: option.splits)
    then show ?thesis
      using assms(3) None id submitted_as_new_row [of z "pe_now env" "pe_uuid env"]
      by (cases "row_of (pe_uuid env) db")
        (auto simp: submit_eq [OF ok assms(2)] Let_def same storage_err_def,
         auto simp: pg_view_def)
  qed
qed

interpretation pg: job_store pg_store store_ok pg_view
proof
  fix db :: "'a db" and env i
  assume "store_ok db"
  then show "so_get_job pg_store env i db = (Ok (pg_view db i), db)"
    by (simp add: pg_store_def pg_get_job)
next
  fix db :: "'a db" and i j
  assume "store_ok db" and "pg_view db i = Some j"
  then show "j_id j = i" using pg_row_fields(1) [of db i] by (auto simp: pg_view_def)
qed (use pg_submit_law pg_complete_law pg_fail_law in \<open>simp_all only: pg_store_def store_ops.simps\<close>)

end
