(* ===== verification/Queue_Service.thy ===== *)
theory Queue_Service
  imports Store_Api
begin

text \<open>
  \<open>QueueService\<close> of \<^verbatim>\<open>crates/queue/src/lib.rs\<close> over any \<open>Store\<close>.  The metrics are the sequence of updates sent to
  the collectors of \<^verbatim>\<open>crates/telemetry/src/lib.rs\<close>.  What the service guarantees is proved in the locale of
  the store's contract and carried over to \<open>PgStore\<close> by its interpretation.
\<close>

section \<open>State and plumbing\<close>

text \<open>The updates of the collectors in \<open>Metrics\<close> that the program makes.\<close>

datatype metric_event =
    JobsSubmitted string
  | JobsCompleted string
  | JobsFailed string
  | JobsRetried string
  | JobsDeadLettered string
  | JobsTimedOut
  | QueueDepth string int
  | ActiveWorkers int
  | ProcessingDuration rat

record 's queue_service =
  sv_store :: 's
  sv_metrics :: "metric_event list"

definition emit :: "metric_event \<Rightarrow> 's queue_service \<Rightarrow> 's queue_service" where
  "emit e sv = sv\<lparr>sv_metrics := sv_metrics sv @ [e]\<rparr>"

definition call_store ::
  "('s \<Rightarrow> ('a, queue_error) outcome \<times> 's) \<Rightarrow> 's queue_service \<Rightarrow>
   ('a, queue_error) outcome \<times> 's queue_service" where
  "call_store f sv = (case f (sv_store sv) of (out, s') \<Rightarrow> (out, sv\<lparr>sv_store := s'\<rparr>))"

text \<open>The \<open>?\<close> operator on a call that also changes state.\<close>

fun then_call ::
  "('a, 'e) outcome \<times> 'st \<Rightarrow> ('a \<Rightarrow> 'st \<Rightarrow> ('b, 'e) outcome \<times> 'st) \<Rightarrow> ('b, 'e) outcome \<times> 'st" where
  "then_call (Ok a, s) f = f a s"
| "then_call (Err e, s) f = (Err e, s)"
| "then_call (Panic, s) f = (Panic, s)"

section \<open>The operations\<close>

definition svc_submit ::
  "('s, 'e, 'j) store_ops \<Rightarrow> chrono_add \<Rightarrow> 'e \<Rightarrow> time \<Rightarrow> 'j new_job \<Rightarrow> 's queue_service \<Rightarrow>
   ('j submission, queue_error) outcome \<times> 's queue_service" where
  "svc_submit ops add_secs env now new sv =
    then_call (normalized add_secs new now, sv) (\<lambda>z sv.
      let queue = z_queue z
      in then_call (call_store (so_submit ops env z) sv) (\<lambda>sub sv.
           (Ok sub, if sub_created sub then emit (JobsSubmitted queue) sv else sv)))"

definition svc_get_job ::
  "('s, 'e, 'j) store_ops \<Rightarrow> 'e \<Rightarrow> uuid \<Rightarrow> 's queue_service \<Rightarrow>
   ('j job, queue_error) outcome \<times> 's queue_service" where
  "svc_get_job ops env i sv =
    then_call (call_store (so_get_job ops env i) sv) (\<lambda>found sv.
      case found of Some j \<Rightarrow> (Ok j, sv) | None \<Rightarrow> (Err (JobNotFound i), sv))"

definition svc_list_jobs ::
  "('s, 'e, 'j) store_ops \<Rightarrow> 'e \<Rightarrow> job_filter \<Rightarrow> 's queue_service \<Rightarrow>
   ('j job list, queue_error) outcome \<times> 's queue_service" where
  "svc_list_jobs ops env f sv =
    (let (limit, offset) = bounded f; status = map_option as_str (jf_status f)
     in call_store (so_list_jobs ops env (jf_queue f) status (jf_job_type f) limit offset) sv)"

definition svc_list_attempts ::
  "('s, 'e, 'j) store_ops \<Rightarrow> 'e \<Rightarrow> 'e \<Rightarrow> uuid \<Rightarrow> 's queue_service \<Rightarrow>
   (job_attempt list, queue_error) outcome \<times> 's queue_service" where
  "svc_list_attempts ops env env' i sv =
    then_call (call_store (so_get_job ops env i) sv) (\<lambda>found sv.
      if found = None then (Err (JobNotFound i), sv)
      else call_store (so_list_attempts ops env' i) sv)"

definition svc_list_dead_letter ::
  "('s, 'e, 'j) store_ops \<Rightarrow> 'e \<Rightarrow> string option \<Rightarrow> int \<Rightarrow> 's queue_service \<Rightarrow>
   ('j dead_letter_job list, queue_error) outcome \<times> 's queue_service" where
  "svc_list_dead_letter ops env queue limit sv =
    call_store (so_list_dead_letter ops env queue (max 1 (min 500 limit))) sv"

definition svc_cancel_job ::
  "('s, 'e, 'j) store_ops \<Rightarrow> 'e \<Rightarrow> uuid \<Rightarrow> 's queue_service \<Rightarrow>
   ('j job, queue_error) outcome \<times> 's queue_service" where
  "svc_cancel_job ops env i sv = call_store (so_cancel_job ops env i) sv"

definition svc_retry_job ::
  "('s, 'e, 'j) store_ops \<Rightarrow> 'e \<Rightarrow> uuid \<Rightarrow> 's queue_service \<Rightarrow>
   ('j job, queue_error) outcome \<times> 's queue_service" where
  "svc_retry_job ops env i sv = call_store (so_retry_job ops env i) sv"

text \<open>
  \<open>Utc::now() - chrono::Duration::seconds(d)\<close> is \<^verbatim>\<open>chrono\<close>'s, with \<open>None\<close> for its documented panic.
\<close>

definition svc_purge_finished ::
  "('s, 'e, 'j) store_ops \<Rightarrow> (time \<Rightarrow> int \<Rightarrow> time option) \<Rightarrow> 'e \<Rightarrow> time \<Rightarrow> int \<Rightarrow> 's queue_service \<Rightarrow>
   (int, queue_error) outcome \<times> 's queue_service" where
  "svc_purge_finished ops sub_secs env now older_than_secs sv =
    (case sub_secs now (max older_than_secs 0) of
       None \<Rightarrow> (Panic, sv)
     | Some cutoff \<Rightarrow> call_store (so_purge_finished ops env cutoff) sv)"

definition svc_ensure_queue ::
  "('s, 'e, 'j) store_ops \<Rightarrow> 'e \<Rightarrow> string \<Rightarrow> 's queue_service \<Rightarrow>
   (queue, queue_error) outcome \<times> 's queue_service" where
  "svc_ensure_queue ops env name sv = call_store (so_ensure_queue ops env name) sv"

definition svc_list_queues ::
  "('s, 'e, 'j) store_ops \<Rightarrow> 'e \<Rightarrow> 's queue_service \<Rightarrow>
   (queue list, queue_error) outcome \<times> 's queue_service" where
  "svc_list_queues ops env sv = call_store (so_list_queues ops env) sv"

definition svc_set_queue_paused ::
  "('s, 'e, 'j) store_ops \<Rightarrow> 'e \<Rightarrow> string \<Rightarrow> bool \<Rightarrow> 's queue_service \<Rightarrow>
   (queue, queue_error) outcome \<times> 's queue_service" where
  "svc_set_queue_paused ops env name paused sv = call_store (so_set_queue_paused ops env name paused) sv"

definition svc_queue_stats ::
  "('s, 'e, 'j) store_ops \<Rightarrow> 'e \<Rightarrow> string \<Rightarrow> 's queue_service \<Rightarrow>
   (queue_stats, queue_error) outcome \<times> 's queue_service" where
  "svc_queue_stats ops env name sv = call_store (so_queue_stats ops env name) sv"

definition svc_lease_next ::
  "('s, 'e, 'j) store_ops \<Rightarrow> 'e \<Rightarrow> uuid \<Rightarrow> string list \<Rightarrow> int \<Rightarrow> 's queue_service \<Rightarrow>
   ('j job option, queue_error) outcome \<times> 's queue_service" where
  "svc_lease_next ops env w qs lease_secs sv = call_store (so_lease_next ops env w qs lease_secs) sv"

definition svc_renew_lease ::
  "('s, 'e, 'j) store_ops \<Rightarrow> 'e \<Rightarrow> uuid \<Rightarrow> uuid \<Rightarrow> int \<Rightarrow> 's queue_service \<Rightarrow>
   (unit, queue_error) outcome \<times> 's queue_service" where
  "svc_renew_lease ops env i w lease_secs sv = call_store (so_renew_lease ops env i w lease_secs) sv"

definition svc_record_failure ::
  "('s, 'e, 'j) store_ops \<Rightarrow> 'e \<Rightarrow> 'j job \<Rightarrow> uuid \<Rightarrow> string \<Rightarrow> bool \<Rightarrow> 's queue_service \<Rightarrow>
   ('j job, queue_error) outcome \<times> 's queue_service" where
  "svc_record_failure ops env job w err timed_out sv =
    then_call (call_store (so_fail_job ops env (j_id job) w err timed_out)
        (emit (JobsFailed (j_queue job)) sv)) (\<lambda>updated sv.
      (Ok updated,
       case j_status updated of
         Retrying \<Rightarrow> emit (JobsRetried (j_queue job)) sv
       | DeadLettered \<Rightarrow> emit (JobsDeadLettered (j_queue job)) sv
       | _ \<Rightarrow> sv))"

definition svc_report_outcome ::
  "('s, 'e, 'j) store_ops \<Rightarrow> 'e \<Rightarrow> 'j job \<Rightarrow> uuid \<Rightarrow> 'j execution_outcome \<Rightarrow> rat \<Rightarrow> 's queue_service \<Rightarrow>
   ('j job, queue_error) outcome \<times> 's queue_service" where
  "svc_report_outcome ops env job w outcome duration_secs sv =
    (let sv = emit (ProcessingDuration duration_secs) sv
     in case outcome of
          Success result \<Rightarrow>
            then_call (call_store (so_complete_job ops env (j_id job) w result) sv) (\<lambda>updated sv.
              (Ok updated, emit (JobsCompleted (j_queue job)) sv))
        | Failure err \<Rightarrow> svc_record_failure ops env job w err False sv
        | Timeout \<Rightarrow>
            svc_record_failure ops env job w ''execution timed out'' True (emit JobsTimedOut sv))"

definition svc_complete_job ::
  "('s, 'e, 'j) store_ops \<Rightarrow> 'e \<Rightarrow> uuid \<Rightarrow> uuid \<Rightarrow> 'j option \<Rightarrow> 's queue_service \<Rightarrow>
   ('j job, queue_error) outcome \<times> 's queue_service" where
  "svc_complete_job ops env i w result sv = call_store (so_complete_job ops env i w result) sv"

section \<open>What the service guarantees over any store that keeps the contract\<close>

lemma emit_simps [simp]:
  "sv_store (emit e sv) = sv_store sv" "sv_metrics (emit e sv) = sv_metrics sv @ [e]"
  by (simp_all add: emit_def)

lemma call_store_eq: "f (sv_store sv) = (out, s') \<Longrightarrow> call_store f sv = (out, sv\<lparr>sv_store := s'\<rparr>)"
  by (simp add: call_store_def)

lemma call_store_read: "f (sv_store sv) = (out, sv_store sv) \<Longrightarrow> call_store f sv = (out, sv)"
  by (simp add: call_store_def)

text \<open>The metric updates a report sends, given the outcome and the job it resulted in (if the store applied it).\<close>

definition retry_events :: "string \<Rightarrow> 'j job option \<Rightarrow> metric_event list" where
  "retry_events q updated =
    (case map_option j_status updated of
       Some Retrying \<Rightarrow> [JobsRetried q]
     | Some DeadLettered \<Rightarrow> [JobsDeadLettered q]
     | _ \<Rightarrow> [])"

definition report_events ::
  "'j execution_outcome \<Rightarrow> string \<Rightarrow> rat \<Rightarrow> 'j job option \<Rightarrow> metric_event list" where
  "report_events outcome q d updated =
    ProcessingDuration d #
    (case outcome of
       Success _ \<Rightarrow> (if updated = None then [] else [JobsCompleted q])
     | Failure _ \<Rightarrow> JobsFailed q # retry_events q updated
     | Timeout \<Rightarrow> JobsTimedOut # JobsFailed q # retry_events q updated)"

text \<open>What an applied report makes of the job.\<close>

definition reported_as :: "'j execution_outcome \<Rightarrow> 'j job \<Rightarrow> 'j job \<Rightarrow> bool" where
  "reported_as outcome j j' \<longleftrightarrow>
    (case outcome of
       Success res \<Rightarrow> j_status j' = Completed \<and> j_result j' = res \<and> j_locked_by j' = None
     | Failure err \<Rightarrow> failed_as err j j'
     | Timeout \<Rightarrow> failed_as ''execution timed out'' j j')"

context job_store
begin

lemma svc_get_job_eq:
  assumes "inv (sv_store sv)"
  shows "svc_get_job ops env i sv =
    (case view (sv_store sv) i of Some j \<Rightarrow> Ok j | None \<Rightarrow> Err (JobNotFound i), sv)"
  using get_job_law [OF assms, of env i]
  by (simp add: svc_get_job_def call_store_read split: option.splits)

lemma svc_list_attempts_missing:
  assumes "inv (sv_store sv)" and "view (sv_store sv) i = None"
  shows "svc_list_attempts ops env env' i sv = (Err (JobNotFound i), sv)"
  using get_job_law [OF assms(1), of env i] assms(2)
  by (simp add: svc_list_attempts_def call_store_read)

lemma svc_submit_rejected:
  assumes "\<not> is_ok (normalized add new now)"
  shows "fst (svc_submit ops add env now new sv) \<noteq> Ok sub \<and> snd (svc_submit ops add env now new sv) = sv"
  using assms by (cases "normalized add new now") (simp_all add: svc_submit_def)

lemma svc_submit_accepted:
  assumes "inv (sv_store sv)" and "normalized add new now = Ok z" and "normalized_ok z"
    and "svc_submit ops add env now new sv = (out, sv')"
  shows "inv (sv_store sv') \<and>
    (case out of
       Ok sub \<Rightarrow>
         view (sv_store sv') = (view (sv_store sv))(j_id (sub_job sub) \<mapsto> sub_job sub) \<and>
         (if sub_created sub
          then view (sv_store sv) (j_id (sub_job sub)) = None \<and> submitted_as z (sub_job sub) \<and>
            sv_metrics sv' = sv_metrics sv @ [JobsSubmitted (z_queue z)]
          else view (sv_store sv) (j_id (sub_job sub)) = Some (sub_job sub) \<and>
            j_queue (sub_job sub) = z_queue z \<and>
            j_idempotency_key (sub_job sub) = z_idempotency_key z \<and> sv_metrics sv' = sv_metrics sv)
     | Err e \<Rightarrow> category e = Internal \<and> view (sv_store sv') = view (sv_store sv) \<and> sv_metrics sv' = sv_metrics sv
     | Panic \<Rightarrow> False)"
proof -
  obtain o1 s1 where call: "so_submit ops env z (sv_store sv) = (o1, s1)" by fastforce
  note law = submit_law [OF assms(1,3) call]
  have run: "svc_submit ops add env now new sv =
      then_call (o1, sv\<lparr>sv_store := s1\<rparr>) (\<lambda>sub sv.
        (Ok sub, if sub_created sub then emit (JobsSubmitted (z_queue z)) sv else sv))"
    by (simp add: svc_submit_def assms(2) call_store_eq [where f = "so_submit ops env z", OF call])
  show ?thesis
    using law assms(4) unfolding run by (cases o1) (auto split: if_splits)
qed

lemma svc_record_failure_eq:
  assumes "inv (sv_store sv)" and "svc_record_failure ops env job w err timed_out sv = (out, sv')"
  shows "inv (sv_store sv') \<and>
    (if leased_to w (view (sv_store sv) (j_id job))
     then \<exists>j. out = Ok j \<and> view (sv_store sv') = (view (sv_store sv))(j_id job \<mapsto> j) \<and>
       failed_as err (the (view (sv_store sv) (j_id job))) j \<and>
       sv_metrics sv' = sv_metrics sv @ JobsFailed (j_queue job) # retry_events (j_queue job) (Some j)
     else is_job_refusal (j_id job) (view (sv_store sv) (j_id job)) out \<and>
       sv_store sv' = sv_store sv \<and> sv_metrics sv' = sv_metrics sv @ [JobsFailed (j_queue job)])"
proof -
  obtain o1 s1 where call: "so_fail_job ops env (j_id job) w err timed_out (sv_store sv) = (o1, s1)"
    by fastforce
  note law = fail_law [OF assms(1) call]
  let ?sv = "emit (JobsFailed (j_queue job)) sv"
  have run: "svc_record_failure ops env job w err timed_out sv =
      then_call (o1, ?sv\<lparr>sv_store := s1\<rparr>) (\<lambda>updated sv. (Ok updated,
        case j_status updated of
          Retrying \<Rightarrow> emit (JobsRetried (j_queue job)) sv
        | DeadLettered \<Rightarrow> emit (JobsDeadLettered (j_queue job)) sv
        | _ \<Rightarrow> sv))"
    unfolding svc_record_failure_def
    using call_store_eq [of "so_fail_job ops env (j_id job) w err timed_out" ?sv] call by simp
  show ?thesis
  proof (cases "leased_to w (view (sv_store sv) (j_id job))")
    case True
    with law obtain j where "o1 = Ok j" "view s1 = (view (sv_store sv))(j_id job \<mapsto> j)"
      "failed_as err (the (view (sv_store sv) (j_id job))) j" by auto
    with True law assms(2) show ?thesis
      unfolding run by (auto simp: retry_events_def split: job_status.splits)
  next
    case False
    with law have ref: "is_job_refusal (j_id job) (view (sv_store sv) (j_id job)) o1" "s1 = sv_store sv" by auto
    then obtain e where "o1 = Err e" by (auto simp: is_job_refusal_def split: option.splits)
    with False law ref assms(2) show ?thesis
      unfolding run by (auto simp: is_job_refusal_def split: option.splits)
  qed
qed

lemma svc_report_outcome_eq:
  assumes "inv (sv_store sv)" and "svc_report_outcome ops env job w outcome d sv = (out, sv')"
  shows "inv (sv_store sv') \<and>
    (if leased_to w (view (sv_store sv) (j_id job))
     then \<exists>j. out = Ok j \<and> view (sv_store sv') = (view (sv_store sv))(j_id job \<mapsto> j) \<and>
       reported_as outcome (the (view (sv_store sv) (j_id job))) j \<and>
       sv_metrics sv' = sv_metrics sv @ report_events outcome (j_queue job) d (Some j)
     else is_job_refusal (j_id job) (view (sv_store sv) (j_id job)) out \<and>
       sv_store sv' = sv_store sv \<and>
       sv_metrics sv' = sv_metrics sv @ report_events outcome (j_queue job) d None)"
proof (cases outcome)
  case (Success res)
  let ?sv = "emit (ProcessingDuration d) sv"
  obtain o1 s1 where call: "so_complete_job ops env (j_id job) w res (sv_store sv) = (o1, s1)"
    by fastforce
  note law = complete_law [OF assms(1) call]
  have run: "svc_report_outcome ops env job w outcome d sv =
      then_call (o1, ?sv\<lparr>sv_store := s1\<rparr>) (\<lambda>updated sv. (Ok updated, emit (JobsCompleted (j_queue job)) sv))"
    unfolding svc_report_outcome_def
    using call_store_eq [of "so_complete_job ops env (j_id job) w res" ?sv] call Success
    by (simp add: Let_def)
  have refused: "\<exists>e. o1 = Err e" if "is_job_refusal (j_id job) (view (sv_store sv) (j_id job)) o1"
    using that by (auto simp: is_job_refusal_def split: option.splits)
  show ?thesis
    using law assms(2) refused unfolding run
    by (cases "leased_to w (view (sv_store sv) (j_id job))"; cases o1)
      (auto simp: report_events_def reported_as_def Success)
next
  case (Failure err)
  let ?sv = "emit (ProcessingDuration d) sv"
  have "svc_record_failure ops env job w err False ?sv = (out, sv')"
    using assms(2) Failure by (simp add: svc_report_outcome_def Let_def)
  from svc_record_failure_eq [OF _ this] assms(1) show ?thesis
    by (auto simp: report_events_def reported_as_def Failure retry_events_def)
next
  case Timeout
  let ?sv = "emit JobsTimedOut (emit (ProcessingDuration d) sv)"
  have "svc_record_failure ops env job w ''execution timed out'' True ?sv = (out, sv')"
    using assms(2) Timeout by (simp add: svc_report_outcome_def Let_def)
  from svc_record_failure_eq [OF _ this] assms(1) show ?thesis
    by (auto simp: report_events_def reported_as_def Timeout retry_events_def)
qed

end

end
