(* ===== verification/Maintenance.thy ===== *)
theory Maintenance
  imports Queue_Service
begin

text \<open>
  The maintenance task of \<^verbatim>\<open>crates/queue/src/maintenance.rs\<close>: one sweep recovers expired leases, prunes dead
  workers and refreshes the gauges, and the loop sweeps at every tick until shutdown.  What a sweep
  achieves is proved from an extension of the store contract.
\<close>

section \<open>The sweep and the loop\<close>

record maintenance_config =
  mc_tick :: duration
  mc_recover_batch :: int
  mc_worker_ttl_secs :: int
  mc_active_window_secs :: int

definition default_maintenance :: maintenance_config where
  "default_maintenance =
    \<lparr>mc_tick = from_secs 5, mc_recover_batch = 100, mc_worker_ttl_secs = 60,
     mc_active_window_secs = 30\<rparr>"

text \<open>A result that is used when it is \<open>Ok\<close> and only logged when it is \<open>Err\<close>; a panic still unwinds the task.\<close>

fun or_log ::
  "('a, queue_error) outcome \<times> 'st \<Rightarrow> ('a \<Rightarrow> 'st \<Rightarrow> (unit, queue_error) outcome \<times> 'st) \<Rightarrow>
   (unit, queue_error) outcome \<times> 'st" where
  "or_log (Ok a, st) f = f a st"
| "or_log (Err e, st) f = (Ok (), st)"
| "or_log (Panic, st) f = (Panic, st)"

text \<open>The loop over the queues; the \<open>k\<close>-th store call of the sweep has environment \<open>envs k\<close>.\<close>

fun refresh_depths ::
  "('s, 'e, 'j) store_ops \<Rightarrow> (nat \<Rightarrow> 'e) \<Rightarrow> nat \<Rightarrow> queue list \<Rightarrow> 's queue_service \<Rightarrow>
   (unit, queue_error) outcome \<times> 's queue_service" where
  "refresh_depths ops envs k [] sv = (Ok (), sv)"
| "refresh_depths ops envs k (q # qs) sv =
    then_call
      (or_log (svc_queue_stats ops (envs k) (q_name q) sv) (\<lambda>stats sv.
        (Ok (), emit (QueueDepth (q_name q)
          (st_queued stats + st_scheduled stats + st_retrying stats)) sv)))
      (\<lambda>_ sv. refresh_depths ops envs (Suc k) qs sv)"

definition sweep ::
  "('s, 'e, 'j) store_ops \<Rightarrow> (nat \<Rightarrow> 'e) \<Rightarrow> maintenance_config \<Rightarrow> 's queue_service \<Rightarrow>
   (unit, queue_error) outcome \<times> 's queue_service" where
  "sweep ops envs cfg sv =
    then_call (or_log (call_store (so_recover_expired_leases ops (envs 0) (mc_recover_batch cfg)) sv)
        (\<lambda>ids sv. (Ok (), sv))) (\<lambda>_ sv.
    then_call (or_log (call_store (so_prune_dead_workers ops (envs 1) (mc_worker_ttl_secs cfg)) sv)
        (\<lambda>n sv. (Ok (), sv))) (\<lambda>_ sv.
    then_call (or_log (call_store (so_list_active_workers ops (envs 2) (mc_active_window_secs cfg)) sv)
        (\<lambda>workers sv. (Ok (), emit (ActiveWorkers (int (length workers))) sv))) (\<lambda>_ sv.
    or_log (svc_list_queues ops (envs 3) sv) (\<lambda>queues sv. refresh_depths ops envs 4 queues sv))))"

text \<open>What \<open>tokio::select!\<close> picks in each turn of the loop: a tick, or the cancellation of the token.\<close>

datatype 'e loop_event = Tick "nat \<Rightarrow> 'e" | Shutdown

fun maintenance_run ::
  "('s, 'e, 'j) store_ops \<Rightarrow> maintenance_config \<Rightarrow> 'e loop_event list \<Rightarrow> 's queue_service \<Rightarrow>
   (unit, queue_error) outcome \<times> 's queue_service" where
  "maintenance_run ops cfg [] sv = (Ok (), sv)"
| "maintenance_run ops cfg (Shutdown # events) sv = (Ok (), sv)"
| "maintenance_run ops cfg (Tick envs # events) sv =
    then_call (sweep ops envs cfg sv) (\<lambda>_ sv. maintenance_run ops cfg events sv)"

section \<open>The contract the sweep relies on\<close>

locale maintained_store = job_store ops inv view
  for ops :: "('s, 'e, 'j) store_ops" and inv and view +
  fixes queue_names :: "'s \<Rightarrow> string set"
    and depth :: "'s \<Rightarrow> string \<Rightarrow> int"
    and active :: "'e \<Rightarrow> int \<Rightarrow> 's \<Rightarrow> int"
  assumes recover_law: "inv s \<Longrightarrow> so_recover_expired_leases ops env n s = (ids, s') \<Longrightarrow>
      inv s' \<and> ids \<noteq> Panic"
    and prune_law: "inv s \<Longrightarrow> so_prune_dead_workers ops env n s = (pruned, s') \<Longrightarrow>
      inv s' \<and> pruned \<noteq> Panic \<and> view s' = view s"
    and active_law: "inv s \<Longrightarrow>
      \<exists>ws. so_list_active_workers ops env n s = (Ok ws, s) \<and> int (length ws) = active env n s"
    and queues_law: "inv s \<Longrightarrow>
      \<exists>qs. so_list_queues ops env s = (Ok qs, s) \<and> q_name ` set qs = queue_names s \<and> distinct (map q_name qs)"
    and stats_law: "inv s \<Longrightarrow> name \<in> queue_names s \<Longrightarrow>
      \<exists>st. so_queue_stats ops env name s = (Ok st, s) \<and>
        st_queued st + st_scheduled st + st_retrying st = depth s name"
begin

lemma refresh_depths_eq:
  assumes "inv (sv_store sv)" and "q_name ` set qs \<subseteq> queue_names (sv_store sv)"
  shows "refresh_depths ops envs k qs sv =
    (Ok (), sv\<lparr>sv_metrics := sv_metrics sv @
      map (\<lambda>q. QueueDepth (q_name q) (depth (sv_store sv) (q_name q))) qs\<rparr>)"
  using assms
proof (induction qs arbitrary: k sv)
  case (Cons q qs)
  obtain st where st: "so_queue_stats ops (envs k) (q_name q) (sv_store sv) = (Ok st, sv_store sv)"
    "st_queued st + st_scheduled st + st_retrying st = depth (sv_store sv) (q_name q)"
    using stats_law [of "sv_store sv" "q_name q" "envs k"] Cons.prems by auto
  have "svc_queue_stats ops (envs k) (q_name q) sv = (Ok st, sv)"
    unfolding svc_queue_stats_def by (rule call_store_read) (rule st(1))
  then show ?case
    using Cons.IH [of "emit (QueueDepth (q_name q) (depth (sv_store sv) (q_name q))) sv" "Suc k"] Cons.prems
    by (simp add: st(2) emit_def)
qed simp

text \<open>
  A sweep never fails and keeps the invariant; the gauges it sets are exact for the state it leaves: the
  number of live workers, and for each queue once the number of waiting jobs.
\<close>

lemma sweep_exact:
  assumes "inv (sv_store sv)"
  shows "\<exists>(qs :: queue list) sv'. sweep ops envs cfg sv = (Ok (), sv') \<and> inv (sv_store sv') \<and>
    q_name ` set qs = queue_names (sv_store sv') \<and> distinct (map q_name qs) \<and>
    view (sv_store sv') =
      view (snd (so_recover_expired_leases ops (envs 0) (mc_recover_batch cfg) (sv_store sv))) \<and>
    sv_metrics sv' = sv_metrics sv @
      ActiveWorkers (active (envs 2) (mc_active_window_secs cfg) (sv_store sv')) #
      map (\<lambda>q. QueueDepth (q_name q) (depth (sv_store sv') (q_name q))) qs"
proof -
  obtain o1 s1 where c1: "so_recover_expired_leases ops (envs 0) (mc_recover_batch cfg) (sv_store sv) = (o1, s1)"
    by fastforce
  then have s1: "inv s1" "o1 \<noteq> Panic" using recover_law [OF assms] by blast+
  obtain o2 s2 where c2: "so_prune_dead_workers ops (envs 1) (mc_worker_ttl_secs cfg) s1 = (o2, s2)"
    by fastforce
  then have s2: "inv s2" "o2 \<noteq> Panic" "view s2 = view s1" using prune_law [OF s1(1)] by blast+
  obtain ws where ws: "so_list_active_workers ops (envs 2) (mc_active_window_secs cfg) s2 = (Ok ws, s2)"
    "int (length ws) = active (envs 2) (mc_active_window_secs cfg) s2" using active_law [OF s2(1)] by blast
  obtain qs where qs: "so_list_queues ops (envs 3) s2 = (Ok qs, s2)" "q_name ` set qs = queue_names s2"
    "distinct (map q_name qs)" using queues_law [OF s2(1)] by blast
  let ?sv2 = "sv\<lparr>sv_store := s2\<rparr>"
  let ?sv3 = "emit (ActiveWorkers (int (length ws))) ?sv2"
  have l1: "or_log (call_store (so_recover_expired_leases ops (envs 0) (mc_recover_batch cfg)) sv)
      (\<lambda>ids sv. (Ok (), sv)) = (Ok (), sv\<lparr>sv_store := s1\<rparr>)"
    using s1(2) by (cases o1) (simp_all add: call_store_def c1)
  have l2: "or_log (call_store (so_prune_dead_workers ops (envs 1) (mc_worker_ttl_secs cfg))
      (sv\<lparr>sv_store := s1\<rparr>)) (\<lambda>n sv. (Ok (), sv)) = (Ok (), ?sv2)"
    using s2(2) by (cases o2) (simp_all add: call_store_def c2 del: One_nat_def)
  have l3: "call_store (so_list_active_workers ops (envs 2) (mc_active_window_secs cfg)) ?sv2 = (Ok ws, ?sv2)"
    by (simp add: call_store_def ws(1))
  have l4: "svc_list_queues ops (envs 3) ?sv3 = (Ok qs, ?sv3)"
    unfolding svc_list_queues_def by (rule call_store_read) (simp add: qs(1))
  have "sweep ops envs cfg sv = refresh_depths ops envs 4 qs ?sv3"
    by (simp add: sweep_def l1 l2 l3 l4 del: One_nat_def)
  also have "\<dots> = (Ok (), ?sv3\<lparr>sv_metrics := sv_metrics ?sv3 @
      map (\<lambda>q. QueueDepth (q_name q) (depth s2 (q_name q))) qs\<rparr>)"
    using refresh_depths_eq [of ?sv3 qs envs 4] s2(1) qs(2) by simp
  finally show ?thesis
    using s2 qs ws(2) c1 by - (rule exI [of _ qs], simp)
qed

lemma maintenance_run_keeps:
  assumes "inv (sv_store sv)"
  shows "fst (maintenance_run ops cfg events sv) = Ok () \<and>
    inv (sv_store (snd (maintenance_run ops cfg events sv)))"
  using assms
proof (induction events arbitrary: sv)
  case (Cons e events)
  show ?case
  proof (cases e)
    case (Tick envs)
    obtain sv' where "sweep ops envs cfg sv = (Ok (), sv')" "inv (sv_store sv')"
      using sweep_exact [OF Cons.prems] by blast
    then show ?thesis using Cons.IH Tick by simp
  qed (simp add: Cons.prems)
qed simp

end

section \<open>\<open>PgStore\<close> meets the extended contract\<close>

definition waiting_jobs :: "'j db \<Rightarrow> string \<Rightarrow> int" where
  "waiting_jobs db name =
    int (length (filter (\<lambda>r. r_queue r = name \<and> status_in r [Queued, Scheduled, Retrying]) (jobs db)))"

definition live_workers :: "pg_env \<Rightarrow> int \<Rightarrow> 'j db \<Rightarrow> int" where
  "live_workers env n db =
    int (length (filter (\<lambda>x. w_last_heartbeat x > pe_now env - interval_secs n) (workers db)))"

lemma filter_three_counts:
  "int (length (filter (\<lambda>r. P r \<and> status_in r [Queued, Scheduled, Retrying]) rows)) =
    int (length (filter (\<lambda>r. P r \<and> has_status r Queued) rows)) +
    int (length (filter (\<lambda>r. P r \<and> has_status r Scheduled) rows)) +
    int (length (filter (\<lambda>r. P r \<and> has_status r Retrying) rows))"
  by (induction rows) auto

lemma waiting_jobs_counts:
  "waiting_jobs db name =
    count_jobs name Queued db + count_jobs name Scheduled db + count_jobs name Retrying db"
  unfolding waiting_jobs_def count_jobs_def by (rule filter_three_counts)

interpretation pgm: maintained_store pg_store store_ok pg_view
  "\<lambda>db. q_name ` set (queues db)" waiting_jobs live_workers
proof
  fix db :: "'a db" and env n out db'
  assume ok: "store_ok db"
  assume "so_recover_expired_leases pg_store env n db = (out, db')"
  then have run: "recover_expired_leases env n db = (out, db')" by (simp add: pg_store_def)
  then have "store_ok db'" using store_ok_exec [OF ok, of "RecoverExpired n" env] by simp
  moreover have "out \<noteq> Panic"
    using run by (auto simp: recover_expired_leases_def Let_def split: if_splits prod.splits)
  ultimately show "store_ok db' \<and> out \<noteq> Panic" ..
next
  fix db :: "'a db" and env n out db'
  assume ok: "store_ok db"
  assume "so_prune_dead_workers pg_store env n db = (out, db')"
  then have run: "prune_dead_workers env n db = (out, db')" by (simp add: pg_store_def)
  then have "store_ok db'" using store_ok_exec [OF ok, of "PruneWorkers n" env] by simp
  moreover have "out \<noteq> Panic" "jobs db' = jobs db"
    using run by (auto simp: prune_dead_workers_def Let_def)
  ultimately show "store_ok db' \<and> out \<noteq> Panic \<and> pg_view db' = pg_view db"
    using pg_view_jobs by blast
next
  fix db :: "'a db" and env n
  show "\<exists>ws. so_list_active_workers pg_store env n db = (Ok ws, db) \<and>
      int (length ws) = live_workers env n db"
    by (simp add: pg_store_def list_active_workers_def live_workers_def select_where_def)
next
  fix db :: "'a db" and env
  assume "store_ok db"
  then have "distinct (map q_name (queues db))" by (simp add: store_ok_def db_ok_def)
  then show "\<exists>qs. so_list_queues pg_store env db = (Ok qs, db) \<and>
      q_name ` set qs = q_name ` set (queues db) \<and> distinct (map q_name qs)"
    by (simp add: pg_store_def list_queues_def)
next
  fix db :: "'a db" and env name
  assume "name \<in> q_name ` set (queues db)"
  then obtain q where "queue_of name db = Some q"
    by (cases "queue_of name db") (auto simp: find_by_None_iff)
  then obtain st where st: "queue_stats_of name db = Ok st"
    and field: "\<And>s. stat_field s st = count_jobs name s db"
    using queue_stats_of_eq by metis
  have "st_queued st + st_scheduled st + st_retrying st = waiting_jobs db name"
    using field [of Queued] field [of Scheduled] field [of Retrying] by (simp add: waiting_jobs_counts)
  with st show "\<exists>st. so_queue_stats pg_store env name db = (Ok st, db) \<and>
      st_queued st + st_scheduled st + st_retrying st = waiting_jobs db name"
    by (simp add: pg_store_def)
qed

section \<open>Properties\<close>

text \<open>
  C37. A sweep of the maintenance task, from any reachable state and with any configuration, never fails:
  errors of its steps do not stop it.  The jobs afterwards are those \<open>recover_expired_leases\<close> leaves,
  and the gauges it sets are exact for the state it leaves: \<open>active_workers\<close> is the number of workers with a
  heartbeat inside the window, and \<open>queue_depth\<close> is set once per queue to the number of its jobs that wait
  to be leased.  It sends no other metric: a job the reaper dead-letters or reschedules is not counted in
  \<open>jobs_dead_lettered\<close> or \<open>jobs_retried\<close>.
\<close>

theorem sweep_refreshes_gauges:
  assumes "calls_ok calls"
  shows "let db = run calls empty_db in
    \<exists>(qs :: queue list) db'. sweep pg_store envs cfg \<lparr>sv_store = db, sv_metrics = ms\<rparr> =
      (Ok (), \<lparr>sv_store = db', sv_metrics = ms @
        ActiveWorkers (live_workers (envs 2) (mc_active_window_secs cfg) db') #
        map (\<lambda>q. QueueDepth (q_name q) (waiting_jobs db' (q_name q))) qs\<rparr>) \<and>
      store_ok db' \<and> q_name ` set qs = q_name ` set (queues db') \<and> distinct (map q_name qs) \<and>
      pg_view db' = pg_view (snd (recover_expired_leases (envs 0) (mc_recover_batch cfg) db))"
proof -
  let ?sv = "\<lparr>sv_store = run calls empty_db, sv_metrics = ms\<rparr>"
  have "store_ok (sv_store ?sv)" by (simp add: store_ok_reached [OF assms])
  from pgm.sweep_exact [OF this, of envs cfg] obtain qs :: "queue list" and sv' where sv':
    "sweep pg_store envs cfg ?sv = (Ok (), sv')" "store_ok (sv_store sv')"
    "q_name ` set qs = q_name ` set (queues (sv_store sv'))" "distinct (map q_name qs)"
    "pg_view (sv_store sv') = pg_view (snd (recover_expired_leases (envs 0) (mc_recover_batch cfg)
      (run calls empty_db)))"
    "sv_metrics sv' = ms @ ActiveWorkers (live_workers (envs 2) (mc_active_window_secs cfg) (sv_store sv')) #
      map (\<lambda>q. QueueDepth (q_name q) (waiting_jobs (sv_store sv') (q_name q))) qs"
    by (auto simp: pg_store_def)
  then show ?thesis
    unfolding Let_def by - (rule exI [of _ qs], rule exI [of _ "sv_store sv'"], simp)
qed

theorem sweep_refreshes_gauges_witness:
  "\<exists>(qs :: queue list) db'. sweep pg_store (\<lambda>k. sample_env (40000000 + int k) 0) default_maintenance
      \<lparr>sv_store = run sample_calls empty_db, sv_metrics = []\<rparr> =
    (Ok (), \<lparr>sv_store = db', sv_metrics =
      ActiveWorkers (live_workers (sample_env 40000002 0) 30 db') #
      map (\<lambda>q. QueueDepth (q_name q) (waiting_jobs db' (q_name q))) qs\<rparr>)"
proof -
  have "calls_ok sample_calls" by code_simp
  from sweep_refreshes_gauges [OF this, of "\<lambda>k. sample_env (40000000 + int k) 0" default_maintenance "[]"]
  show ?thesis by (auto simp: Let_def default_maintenance_def)
qed

text \<open>
  The maintenance task runs until it is told to stop: over any sequence of ticks, with any environments,
  the loop does not fail, the store keeps its invariant, and at the shutdown event it returns at once,
  ignoring whatever comes after.
\<close>

theorem maintenance_loop_total:
  assumes "calls_ok calls"
  shows "let sv = \<lparr>sv_store = run calls empty_db, sv_metrics = ms\<rparr>;
      (out, sv') = maintenance_run pg_store cfg (map Tick ticks @ Shutdown # rest) sv
    in out = Ok () \<and> store_ok (sv_store sv') \<and>
      maintenance_run pg_store cfg (map Tick ticks) sv = (Ok (), sv')"
proof -
  let ?sv = "\<lparr>sv_store = run calls empty_db, sv_metrics = ms\<rparr>"
  have inv: "store_ok (sv_store ?sv)" by (simp add: store_ok_reached [OF assms])
  have stop: "maintenance_run pg_store cfg (map Tick ticks @ Shutdown # rest) sv =
      maintenance_run pg_store cfg (map Tick ticks) sv" if "store_ok (sv_store sv)" for sv :: "'a db queue_service"
    using that
  proof (induction ticks arbitrary: sv)
    case (Cons envs ticks)
    obtain sv' where "sweep pg_store envs cfg sv = (Ok (), sv')" "store_ok (sv_store sv')"
      using pgm.sweep_exact [OF Cons.prems] by blast
    then show ?case using Cons.IH by simp
  qed simp
  show ?thesis
    using pgm.maintenance_run_keeps [OF inv, of cfg "map Tick ticks"] stop [OF inv]
    by (cases "maintenance_run pg_store cfg (map Tick ticks) ?sv") (simp add: Let_def)
qed

theorem maintenance_loop_total_witness:
  "fst (maintenance_run pg_store default_maintenance
      (map Tick [\<lambda>k. sample_env 40000000 0, \<lambda>k. sample_env 45000000 0] @ Shutdown # [])
      \<lparr>sv_store = run sample_calls empty_db, sv_metrics = []\<rparr>) = Ok ()"
proof -
  have "calls_ok sample_calls" by code_simp
  from maintenance_loop_total [OF this, of "[]" default_maintenance
      "[\<lambda>k. sample_env 40000000 0, \<lambda>k. sample_env 45000000 0]" "[]"]
  show ?thesis by (auto simp: Let_def split: prod.splits)
qed

end
