(* ===== verification/Telemetry.thy ===== *)
theory Telemetry
  imports Djq_Prelude Float64
begin

text \<open>
  The collectors of \<^verbatim>\<open>crates/telemetry/src/lib.rs\<close> and their registration.  Building a collector from its
  options and registering it are the \<^verbatim>\<open>prometheus\<close> crate's: the parameters \<open>accepts\<close> and \<open>reg\<close>, with \<open>None\<close> for their
  errors, on which \<open>Metrics::new\<close> panics.
\<close>

section \<open>The collectors\<close>

datatype collector_kind = IntCounterVec | IntCounter | IntGaugeVec | IntGauge | Gauge | Histogram "rat list"

record collector =
  co_kind :: collector_kind
  co_name :: string
  co_help :: string
  co_labels :: "string list"
  co_const_labels :: "(string \<times> string) list"
  co_value :: rat

definition simple_collector :: "collector_kind \<Rightarrow> string \<Rightarrow> string \<Rightarrow> string list \<Rightarrow> collector" where
  "simple_collector kind name help labels =
    \<lparr>co_kind = kind, co_name = name, co_help = help, co_labels = labels,
     co_const_labels = [], co_value = 0\<rparr>"

text \<open>In the order in which they are registered; \<open>version\<close> is the package version the build sets.  Only \<open>build_info\<close> is given
  a value before it is registered.\<close>

definition collectors :: "string \<Rightarrow> collector list" where
  "collectors version =
    [simple_collector IntCounterVec ''djq_jobs_submitted_total'' ''Jobs accepted at the API'' [''queue''],
     simple_collector IntCounterVec ''djq_jobs_completed_total'' ''Jobs completed successfully'' [''queue''],
     simple_collector IntCounterVec ''djq_jobs_failed_total'' ''Job attempts that failed'' [''queue''],
     simple_collector IntCounterVec ''djq_jobs_retried_total'' ''Retries scheduled'' [''queue''],
     simple_collector IntCounterVec ''djq_jobs_dead_lettered_total'' ''Jobs sent to the DLQ'' [''queue''],
     simple_collector IntCounter ''djq_jobs_timed_out_total'' ''Attempts timed out'' [],
     simple_collector IntGaugeVec ''djq_queue_depth'' ''Leaseable jobs currently waiting'' [''queue''],
     simple_collector IntGauge ''djq_active_workers'' ''Workers alive in window'' [],
     simple_collector (Histogram [5/1000, 1/100, 25/1000, 5/100, 1/10, 25/100, 5/10, 1, 25/10, 5, 10, 30, 60])
       ''djq_processing_duration_seconds'' ''Job processing duration in seconds'' [],
     simple_collector (Histogram [1/100, 5/100, 1/10, 25/100, 5/10, 1, 25/10, 5, 10, 30, 60, 300])
       ''djq_lease_wait_seconds'' ''Time spent leaseable before pickup'' [],
     (simple_collector Gauge ''djq_build_info'' ''Build info'' [])\<lparr>co_const_labels := [(''version'', version)], co_value := 1\<rparr>]"

section \<open>Construction\<close>

text \<open>\<open>.expect(...)\<close> on each constructor, and then on each registration.\<close>

fun make_all :: "(collector \<Rightarrow> bool) \<Rightarrow> collector list \<Rightarrow> (unit, unit) outcome" where
  "make_all accepts [] = Ok ()"
| "make_all accepts (c # cs) = (if accepts c then make_all accepts cs else Panic)"

fun register_all :: "(collector \<Rightarrow> 'r \<Rightarrow> 'r option) \<Rightarrow> collector list \<Rightarrow> 'r \<Rightarrow> ('r, unit) outcome" where
  "register_all reg [] r = Ok r"
| "register_all reg (c # cs) r = (case reg c r of Some r' \<Rightarrow> register_all reg cs r' | None \<Rightarrow> Panic)"

text \<open>The registry that \<open>Metrics::new\<close> fills, starting from \<open>Registry::new()\<close>.\<close>

definition metrics_new ::
  "(collector \<Rightarrow> bool) \<Rightarrow> (collector \<Rightarrow> 'r \<Rightarrow> 'r option) \<Rightarrow> 'r \<Rightarrow> string \<Rightarrow> ('r, unit) outcome" where
  "metrics_new accepts reg fresh version =
    and_then (make_all accepts (collectors version)) (\<lambda>_. register_all reg (collectors version) fresh)"

text \<open>\<open>String::from_utf8\<close>: the table of well-formed byte sequences of the Unicode standard.\<close>

definition byte_in :: "nat \<Rightarrow> nat \<Rightarrow> char \<Rightarrow> bool" where
  "byte_in a b c \<longleftrightarrow> a \<le> of_char c \<and> of_char c \<le> b"

abbreviation continuation :: "char \<Rightarrow> bool" where
  "continuation \<equiv> byte_in 0x80 0xBF"

definition lead_three :: "char \<Rightarrow> char \<Rightarrow> bool" where
  "lead_three b c \<longleftrightarrow>
    (if b = CHR 0xE0 then byte_in 0xA0 0xBF c else if b = CHR 0xED then byte_in 0x80 0x9F c
     else byte_in 0xE1 0xEF b \<and> continuation c)"

definition lead_four :: "char \<Rightarrow> char \<Rightarrow> bool" where
  "lead_four b c \<longleftrightarrow>
    (if b = CHR 0xF0 then byte_in 0x90 0xBF c else if b = CHR 0xF4 then byte_in 0x80 0x8F c
     else byte_in 0xF1 0xF3 b \<and> continuation c)"

fun utf8_valid :: "string \<Rightarrow> bool" where
  "utf8_valid [] = True"
| "utf8_valid (b # bs) =
    (if byte_in 0x00 0x7F b then utf8_valid bs
     else if byte_in 0xC2 0xDF b then
       (case bs of c # r \<Rightarrow> continuation c \<and> utf8_valid r | [] \<Rightarrow> False)
     else if byte_in 0xE0 0xEF b then
       (case bs of c # d # r \<Rightarrow> lead_three b c \<and> continuation d \<and> utf8_valid r | _ \<Rightarrow> False)
     else
       (case bs of c # d # e # r \<Rightarrow> lead_four b c \<and> continuation d \<and> continuation e \<and> utf8_valid r | _ \<Rightarrow> False))"

definition from_utf8 :: "string \<Rightarrow> string option" where
  "from_utf8 bytes = (if utf8_valid bytes then Some bytes else None)"

text \<open>
  \<open>render\<close>: the crate's \<open>gather\<close> and text encoder write bytes into a buffer; an error and bytes that are not UTF-8
  give the empty text.
\<close>

definition render :: "('r \<Rightarrow> string option) \<Rightarrow> 'r \<Rightarrow> string" where
  "render encode r =
    (case encode r of
       None \<Rightarrow> []
     | Some buf \<Rightarrow> (case from_utf8 buf of Some t \<Rightarrow> t | None \<Rightarrow> []))"

section \<open>Construction does not panic\<close>

text \<open>
  The documented rules of the crate: a metric name is letters, digits, underscores and colons and does not start with a
  digit; a label is the same without colons; bucket bounds increase strictly; a registry refuses a name it already has.
\<close>

definition name_char :: "bool \<Rightarrow> char \<Rightarrow> bool" where
  "name_char colon c \<longleftrightarrow>
    (let n = of_char c :: nat
     in 97 \<le> n \<and> n \<le> 122 \<or> 65 \<le> n \<and> n \<le> 90 \<or> n = 95 \<or> 48 \<le> n \<and> n \<le> 57 \<or> colon \<and> n = 58)"

definition valid_name :: "bool \<Rightarrow> string \<Rightarrow> bool" where
  "valid_name colon s \<longleftrightarrow>
    s \<noteq> [] \<and> list_all (name_char colon) s \<and> \<not> (48 \<le> (of_char (hd s) :: nat) \<and> (of_char (hd s) :: nat) \<le> 57)"

definition valid_collector :: "collector \<Rightarrow> bool" where
  "valid_collector c \<longleftrightarrow>
    valid_name True (co_name c) \<and> co_help c \<noteq> [] \<and>
    list_all (valid_name False) (co_labels c @ map fst (co_const_labels c)) \<and>
    distinct (co_labels c @ map fst (co_const_labels c)) \<and>
    (case co_kind c of Histogram bs \<Rightarrow> sorted_wrt (<) bs | _ \<Rightarrow> True)"

lemma collectors_valid: "list_all valid_collector (collectors version)"
  unfolding collectors_def by code_simp

lemma collectors_distinct: "distinct (map co_name (collectors version))"
  unfolding collectors_def by code_simp

lemma make_all_ok: "list_all accepts cs \<Longrightarrow> make_all accepts cs = Ok ()"
  by (induction cs) simp_all

lemma register_all_ok:
  assumes "\<And>c r. co_name c \<notin> names r \<Longrightarrow> \<exists>r'. reg c r = Some r' \<and> names r' = insert (co_name c) (names r)"
    and "distinct (map co_name cs)" and "co_name ` set cs \<inter> names r = {}"
  shows "\<exists>r'. register_all reg cs r = Ok r' \<and> names r' = names r \<union> co_name ` set cs"
  using assms(2,3)
proof (induction cs arbitrary: r)
  case (Cons c cs)
  then obtain r1 where r1: "reg c r = Some r1" "names r1 = insert (co_name c) (names r)" using assms(1) [of c r] by auto
  with Cons.IH [of r1] Cons.prems show ?case by auto
qed simp

text \<open>
  \<open>Metrics::new\<close> does not panic: with a crate that accepts valid collectors and registers a name once, all eleven
  collectors are built and registered.
\<close>

lemma metrics_new_total:
  assumes "\<And>c. valid_collector c \<Longrightarrow> accepts c"
    and "\<And>c r. co_name c \<notin> names r \<Longrightarrow> \<exists>r'. reg c r = Some r' \<and> names r' = insert (co_name c) (names r)"
    and "names fresh = {}"
  shows "\<exists>r. metrics_new accepts reg fresh version = Ok r \<and> names r = co_name ` set (collectors version) \<and> card (names r) = 11"
proof -
  have "list_all accepts (collectors version)"
    using collectors_valid [of version] assms(1) by (auto simp: list_all_iff)
  moreover obtain r where "register_all reg (collectors version) fresh = Ok r" "names r = co_name ` set (collectors version)"
    using register_all_ok [where names = names and reg = reg, OF assms(2) collectors_distinct, of version fresh] assms(3) by auto
  moreover have "card (co_name ` set (collectors version)) = 11"
    using distinct_card [OF collectors_distinct [of version]] by (simp add: collectors_def)
  ultimately show ?thesis by (simp add: metrics_new_def make_all_ok)
qed

text \<open>Whatever the encoder writes, the exposition is well-formed text; ASCII, which is what it writes, is passed on unchanged.\<close>

lemma render_valid: "utf8_valid (render encode r)"
  by (simp add: render_def from_utf8_def split: option.split)

lemma utf8_valid_ascii: "list_all (byte_in 0x00 0x7F) s \<Longrightarrow> utf8_valid s"
  by (induction s) simp_all

lemma render_ascii: "encode r = Some t \<Longrightarrow> list_all (byte_in 0x00 0x7F) t \<Longrightarrow> render encode r = t"
  by (simp add: render_def from_utf8_def utf8_valid_ascii)

end
