(* ===== verification/Rust_Parse.thy ===== *)
theory Rust_Parse
  imports Rust_String
begin

text \<open>
  The parts of Rust's \<open>str\<close> and integer library the configuration and the handlers use: decimal \<open>parse\<close> and
  \<open>Display\<close> of integers, and \<open>split\<close> at a character.
\<close>

section \<open>Decimal digits\<close>

definition digit_value :: "char \<Rightarrow> int" where
  "digit_value c = int (of_char c) - 48"

definition is_digit :: "char \<Rightarrow> bool" where
  "is_digit c \<longleftrightarrow> 0 \<le> digit_value c \<and> digit_value c \<le> 9"

definition digit_char :: "nat \<Rightarrow> char" where
  "digit_char n = char_of (48 + n)"

definition digits_value :: "string \<Rightarrow> int" where
  "digits_value s = foldl (\<lambda>n c. 10 * n + digit_value c) 0 s"

text \<open>One or more digits; anything else, the empty text included, is a parse error.\<close>

definition parse_digits :: "string \<Rightarrow> int option" where
  "parse_digits s = (if s \<noteq> [] \<and> list_all is_digit s then Some (digits_value s) else None)"

definition in_range :: "int \<Rightarrow> int \<Rightarrow> int option \<Rightarrow> int option" where
  "in_range lo hi x =
    (case x of Some n \<Rightarrow> if lo \<le> n \<and> n \<le> hi then Some n else None | None \<Rightarrow> None)"

text \<open>
  \<open>str::parse::<i64>()\<close> accepts one leading sign; \<open>str::parse\<close> to an unsigned type accepts only a plus sign.
  A value outside the type is an error, as is a sign alone.
\<close>

definition parse_i64 :: "string \<Rightarrow> int option" where
  "parse_i64 s = in_range (- (2 ^ 63)) (2 ^ 63 - 1)
    (case s of
       [] \<Rightarrow> None
     | c # ds \<Rightarrow>
         if c = CHR ''-'' then map_option uminus (parse_digits ds)
         else if c = CHR ''+'' then parse_digits ds
         else parse_digits s)"

definition parse_unsigned :: "nat \<Rightarrow> string \<Rightarrow> int option" where
  "parse_unsigned bits s = in_range 0 (2 ^ bits - 1)
    (case s of [] \<Rightarrow> None | c # ds \<Rightarrow> if c = CHR ''+'' then parse_digits ds else parse_digits s)"

text \<open>\<open>Display\<close> of an integer.\<close>

fun show_nat :: "nat \<Rightarrow> string" where
  "show_nat n = (if n < 10 then [digit_char n] else show_nat (n div 10) @ [digit_char (n mod 10)])"

declare show_nat.simps [simp del]

definition show_int :: "int \<Rightarrow> string" where
  "show_int n = (if n < 0 then CHR ''-'' # show_nat (nat (- n)) else show_nat (nat n))"

text \<open>\<open>s.split(c)\<close>: the pieces between the separators, the empty ones included.\<close>

fun split_on :: "char \<Rightarrow> string \<Rightarrow> string list" where
  "split_on c [] = [[]]"
| "split_on c (d # s) =
    (if d = c then [] # split_on c s
     else case split_on c s of [] \<Rightarrow> [[d]] | p # ps \<Rightarrow> (d # p) # ps)"

section \<open>Facts\<close>

lemma in_range_SomeD: "in_range lo hi x = Some n \<Longrightarrow> lo \<le> n \<and> n \<le> hi \<and> x = Some n"
  by (auto simp: in_range_def split: option.splits if_splits)

lemma parse_i64_range: "parse_i64 s = Some n \<Longrightarrow> is_i64 n"
  unfolding parse_i64_def is_i64_def by (drule in_range_SomeD) simp

lemma parse_unsigned_range: "parse_unsigned bits s = Some n \<Longrightarrow> 0 \<le> n \<and> n < 2 ^ bits"
  unfolding parse_unsigned_def by (drule in_range_SomeD) simp

lemma digit_char_value: "n < 10 \<Longrightarrow> digit_value (digit_char n) = int n"
  by (simp add: digit_value_def digit_char_def of_char_of)

lemma digit_char_is_digit: "n < 10 \<Longrightarrow> is_digit (digit_char n)"
  by (simp add: is_digit_def digit_char_value)

lemma is_digit_no_sign: "is_digit c \<Longrightarrow> c \<noteq> CHR ''-'' \<and> c \<noteq> CHR ''+''"
  by (auto simp: is_digit_def digit_value_def)

lemma digits_value_snoc: "digits_value (s @ [c]) = 10 * digits_value s + digit_value c"
  by (simp add: digits_value_def)

lemma show_nat_digits: "show_nat n \<noteq> [] \<and> list_all is_digit (show_nat n) \<and> digits_value (show_nat n) = int n"
proof (induction n rule: show_nat.induct)
  case (1 n)
  show ?case
  proof (cases "n < 10")
    case True
    then show ?thesis
      by (simp add: show_nat.simps [of n] digit_char_is_digit digits_value_def digit_char_value)
  next
    case False
    have "10 * int (n div 10) + int (n mod 10) = int n" by presburger
    with False 1 show ?thesis
      by (simp add: show_nat.simps [of n] digits_value_snoc digit_char_value digit_char_is_digit)
  qed
qed

lemma parse_digits_show_nat: "parse_digits (show_nat n) = Some (int n)"
  using show_nat_digits by (simp add: parse_digits_def)

lemma show_nat_no_sign:
  obtains c ds where "show_nat n = c # ds" "c \<noteq> CHR ''-''" "c \<noteq> CHR ''+''"
  using show_nat_digits [of n] is_digit_no_sign by (cases "show_nat n") auto

text \<open>Printing an integer and parsing the text gives the integer back.\<close>

lemma parse_i64_show_int:
  assumes "is_i64 n"
  shows "parse_i64 (show_int n) = Some n"
proof (cases "n < 0")
  case True
  with assms show ?thesis
    by (simp add: parse_i64_def show_int_def parse_digits_show_nat in_range_def is_i64_def)
next
  case False
  obtain c ds where c: "show_nat (nat n) = c # ds" "c \<noteq> CHR ''-''" "c \<noteq> CHR ''+''"
    by (rule show_nat_no_sign)
  have "parse_digits (c # ds) = Some n" using parse_digits_show_nat [of "nat n"] c False by simp
  with assms False c show ?thesis
    by (simp add: parse_i64_def show_int_def in_range_def is_i64_def)
qed

lemma parse_unsigned_show:
  assumes "0 \<le> n" and "n < 2 ^ bits"
  shows "parse_unsigned bits (show_int n) = Some n"
proof -
  obtain c ds where c: "show_nat (nat n) = c # ds" "c \<noteq> CHR ''-''" "c \<noteq> CHR ''+''"
    by (rule show_nat_no_sign)
  have "parse_digits (c # ds) = Some n" using parse_digits_show_nat [of "nat n"] c assms by simp
  with assms c show ?thesis by (simp add: parse_unsigned_def show_int_def in_range_def)
qed

lemma split_on_nonempty: "split_on c s \<noteq> []"
  by (cases s) (auto split: list.splits)

lemma split_on_plain: "c \<notin> set s \<Longrightarrow> split_on c s = [s]"
  by (induction s) auto

lemma split_on_append: "c \<notin> set p \<Longrightarrow> split_on c (p @ c # s) = p # split_on c s"
  by (induction p) (auto split: list.splits)

text \<open>Joining pieces without the separator by it and splitting again gives the pieces back.\<close>

fun join_with :: "char \<Rightarrow> string list \<Rightarrow> string" where
  "join_with c [] = []"
| "join_with c [p] = p"
| "join_with c (p # q # ps) = p @ c # join_with c (q # ps)"

lemma split_on_join:
  "ps \<noteq> [] \<Longrightarrow> list_all (\<lambda>p. c \<notin> set p) ps \<Longrightarrow> split_on c (join_with c ps) = ps"
  by (induction c ps rule: join_with.induct) (simp_all add: split_on_plain split_on_append)

text \<open>A text without a byte of a white space character is not changed by \<open>trim\<close>.\<close>

lemma drop_prefixes_id:
  assumes "\<And>w c. w \<in> set ws \<Longrightarrow> c \<in> set w \<Longrightarrow> c \<notin> set s"
  shows "drop_prefixes ws s = s"
proof -
  have "\<not> (w \<noteq> [] \<and> prefix w s)" if "w \<in> set ws" for w
    using assms [OF that, of "hd w"] set_mono_prefix [of w s] hd_in_set [of w] by blast
  then have "find (\<lambda>w. w \<noteq> [] \<and> prefix w s) ws = None" by (auto simp: find_None_iff)
  then show ?thesis by (simp add: drop_prefixes.simps [of ws s])
qed

lemma trim_id:
  assumes "set s \<inter> set white_bytes = {}"
  shows "trim s = s"
proof -
  have "c \<notin> set s" if "w \<in> set white_space" "c \<in> set w" for w c
    using assms that by (auto simp: white_bytes_def)
  then have "drop_prefixes white_space s = s" "drop_prefixes (map rev white_space) (rev s) = rev s"
    by (intro drop_prefixes_id; force)+
  then show ?thesis by (simp add: trim_def trim_start_def trim_end_def)
qed

lemma digit_not_white: "is_digit c \<or> c = CHR ''-'' \<Longrightarrow> c \<notin> set white_bytes"
  by (auto simp: white_bytes_def white_space_def is_digit_def digit_value_def)

lemma trim_show_int: "trim (show_int n) = show_int n"
proof (rule trim_id)
  have "list_all (\<lambda>c. is_digit c \<or> c = CHR ''-'') (show_int n)"
    using show_nat_digits by (auto simp: show_int_def list_all_iff)
  then show "set (show_int n) \<inter> set white_bytes = {}"
    using digit_not_white by (auto simp: list_all_iff)
qed

end
