(* ===== verification/Worker_Config.thy ===== *)
theory Worker_Config
  imports Rust_Parse Float64
begin

text \<open>
  \<open>WorkerConfig\<close> of \<^verbatim>\<open>crates/worker/src/config.rs\<close>.  The process environment is a map from names to values; a
  variable that is unset or not Unicode is absent.  The generated worker id is a parameter.
\<close>

section \<open>The struct and its defaults\<close>

record worker_config =
  wc_id :: uuid
  wc_hostname :: string
  wc_queues :: "string list"
  wc_concurrency :: int
  wc_lease_secs :: int
  wc_poll_interval :: duration
  wc_heartbeat_interval :: duration
  wc_shutdown_grace :: duration

definition from_millis :: "int \<Rightarrow> duration" where
  "from_millis ms = \<lparr>d_secs = ms div 1000, d_nanos = ms mod 1000 * 1000000\<rparr>"

definition default_worker_config :: "uuid \<Rightarrow> worker_config" where
  "default_worker_config i =
    \<lparr>wc_id = i, wc_hostname = ''unknown'', wc_queues = [''default''], wc_concurrency = 8,
     wc_lease_secs = 30, wc_poll_interval = from_millis 500, wc_heartbeat_interval = from_secs 10,
     wc_shutdown_grace = from_secs 30\<rparr>"

section \<open>Reading the environment\<close>

type_synonym environment = "string \<Rightarrow> string option"

definition env_parse :: "environment \<Rightarrow> string \<Rightarrow> int option" where
  "env_parse env key = (case env key of Some v \<Rightarrow> parse_i64 (trim v) | None \<Rightarrow> None)"

definition parse_queues :: "string \<Rightarrow> string list" where
  "parse_queues q = filter (\<lambda>s. s \<noteq> []) (map trim (split_on (CHR '','') q))"

text \<open>\<open>if let Some(x) = v { cfg = f x }\<close>.\<close>

fun if_some :: "'a option \<Rightarrow> ('a \<Rightarrow> 'c \<Rightarrow> 'c) \<Rightarrow> 'c \<Rightarrow> 'c" where
  "if_some None f cfg = cfg"
| "if_some (Some x) f cfg = f x cfg"

definition worker_config_from_env :: "environment \<Rightarrow> uuid \<Rightarrow> worker_config" where
  "worker_config_from_env env i =
    (let cfg = default_worker_config i;
         cfg = if_some (env ''HOSTNAME'') (\<lambda>h cfg.
           if h \<noteq> [] then cfg\<lparr>wc_hostname := h\<rparr> else cfg) cfg;
         cfg = if_some (env ''WORKER_QUEUES'') (\<lambda>q cfg.
           let queues = parse_queues q in if queues \<noteq> [] then cfg\<lparr>wc_queues := queues\<rparr> else cfg) cfg;
         cfg = if_some (env_parse env ''WORKER_CONCURRENCY'') (\<lambda>n cfg.
           cfg\<lparr>wc_concurrency := max (as_u64 n) 1\<rparr>) cfg;
         cfg = if_some (env_parse env ''WORKER_LEASE_SECS'') (\<lambda>n cfg.
           cfg\<lparr>wc_lease_secs := max n 1\<rparr>) cfg;
         cfg = if_some (env_parse env ''WORKER_POLL_MS'') (\<lambda>n cfg.
           cfg\<lparr>wc_poll_interval := from_millis (as_u64 (max n 10))\<rparr>) cfg;
         cfg = if_some (env_parse env ''WORKER_HEARTBEAT_SECS'') (\<lambda>n cfg.
           cfg\<lparr>wc_heartbeat_interval := from_secs (as_u64 (max n 1))\<rparr>) cfg;
         cfg = if_some (env_parse env ''WORKER_SHUTDOWN_GRACE_SECS'') (\<lambda>n cfg.
           cfg\<lparr>wc_shutdown_grace := from_secs (as_u64 (max n 1))\<rparr>) cfg
     in cfg)"

section \<open>What the environment can set\<close>

text \<open>\<open>Duration\<close> in milliseconds, rounded down.\<close>

definition as_millis :: "duration \<Rightarrow> int" where
  "as_millis d = d_secs d * 1000 + d_nanos d div 1000000"

lemma as_millis_from_millis [simp]: "as_millis (from_millis ms) = ms"
  by (simp add: as_millis_def from_millis_def)

text \<open>The fields, each from its own variable.\<close>

lemma if_some_sets:
  "if_some x (\<lambda>a cfg. if P a then cfg\<lparr>wc_hostname := h a\<rparr> else cfg) cfg =
    cfg\<lparr>wc_hostname := (case x of Some a \<Rightarrow> if P a then h a else wc_hostname cfg | None \<Rightarrow> wc_hostname cfg)\<rparr>"
  "if_some x (\<lambda>a cfg. if P a then cfg\<lparr>wc_queues := qs a\<rparr> else cfg) cfg =
    cfg\<lparr>wc_queues := (case x of Some a \<Rightarrow> if P a then qs a else wc_queues cfg | None \<Rightarrow> wc_queues cfg)\<rparr>"
  "if_some y (\<lambda>n cfg. cfg\<lparr>wc_concurrency := k n\<rparr>) cfg =
    cfg\<lparr>wc_concurrency := (case y of Some n \<Rightarrow> k n | None \<Rightarrow> wc_concurrency cfg)\<rparr>"
  "if_some y (\<lambda>n cfg. cfg\<lparr>wc_lease_secs := k n\<rparr>) cfg =
    cfg\<lparr>wc_lease_secs := (case y of Some n \<Rightarrow> k n | None \<Rightarrow> wc_lease_secs cfg)\<rparr>"
  "if_some y (\<lambda>n cfg. cfg\<lparr>wc_poll_interval := d n\<rparr>) cfg =
    cfg\<lparr>wc_poll_interval := (case y of Some n \<Rightarrow> d n | None \<Rightarrow> wc_poll_interval cfg)\<rparr>"
  "if_some y (\<lambda>n cfg. cfg\<lparr>wc_heartbeat_interval := d n\<rparr>) cfg =
    cfg\<lparr>wc_heartbeat_interval := (case y of Some n \<Rightarrow> d n | None \<Rightarrow> wc_heartbeat_interval cfg)\<rparr>"
  "if_some y (\<lambda>n cfg. cfg\<lparr>wc_shutdown_grace := d n\<rparr>) cfg =
    cfg\<lparr>wc_shutdown_grace := (case y of Some n \<Rightarrow> d n | None \<Rightarrow> wc_shutdown_grace cfg)\<rparr>"
  by (cases x; simp)+ (cases y; simp)+

lemma worker_config_fields:
  "wc_id (worker_config_from_env env i) = i"
  "wc_hostname (worker_config_from_env env i) =
    (case env ''HOSTNAME'' of Some h \<Rightarrow> if h = [] then ''unknown'' else h | None \<Rightarrow> ''unknown'')"
  "wc_queues (worker_config_from_env env i) =
    (case env ''WORKER_QUEUES'' of
       Some q \<Rightarrow> if parse_queues q = [] then [''default''] else parse_queues q
     | None \<Rightarrow> [''default''])"
  "wc_concurrency (worker_config_from_env env i) =
    (case env_parse env ''WORKER_CONCURRENCY'' of Some n \<Rightarrow> max (as_u64 n) 1 | None \<Rightarrow> 8)"
  "wc_lease_secs (worker_config_from_env env i) =
    (case env_parse env ''WORKER_LEASE_SECS'' of Some n \<Rightarrow> max n 1 | None \<Rightarrow> 30)"
  "wc_poll_interval (worker_config_from_env env i) = from_millis
    (case env_parse env ''WORKER_POLL_MS'' of Some n \<Rightarrow> as_u64 (max n 10) | None \<Rightarrow> 500)"
  "wc_heartbeat_interval (worker_config_from_env env i) = from_secs
    (case env_parse env ''WORKER_HEARTBEAT_SECS'' of Some n \<Rightarrow> as_u64 (max n 1) | None \<Rightarrow> 10)"
  "wc_shutdown_grace (worker_config_from_env env i) = from_secs
    (case env_parse env ''WORKER_SHUTDOWN_GRACE_SECS'' of Some n \<Rightarrow> as_u64 (max n 1) | None \<Rightarrow> 30)"
  by (simp_all add: worker_config_from_env_def default_worker_config_def if_some_sets Let_def
      split: option.split)

lemma env_parse_i64: "env_parse env key = Some n \<Longrightarrow> is_i64 n"
  by (auto simp: env_parse_def parse_i64_range split: option.splits)

text \<open>The casts of the clamped values lose nothing.\<close>

lemma as_u64_clamped: "is_i64 n \<Longrightarrow> 0 \<le> k \<Longrightarrow> k < 2 ^ 63 \<Longrightarrow> as_u64 (max n k) = max n k"
  by (rule as_u64_id) (auto simp: is_i64_def)

lemma env_clamped:
  "env_parse env key = Some n \<Longrightarrow> 0 \<le> k \<Longrightarrow> k < 2 ^ 63 \<Longrightarrow> as_u64 (max n k) = max n k"
  using as_u64_clamped env_parse_i64 by blast

lemma env_parse_show: "env key = Some (show_int n) \<Longrightarrow> is_i64 n \<Longrightarrow> env_parse env key = Some n"
  by (simp add: env_parse_def trim_show_int parse_i64_show_int)

text \<open>A list of queue names without commas and white space survives the trip through the variable.\<close>

definition plain_name :: "string \<Rightarrow> bool" where
  "plain_name s \<longleftrightarrow> s \<noteq> [] \<and> CHR '','' \<notin> set s \<and> set s \<inter> set white_bytes = {}"

lemma parse_queues_join:
  assumes "qs \<noteq> []" and "list_all plain_name qs"
  shows "parse_queues (join_with (CHR '','') qs) = qs"
proof -
  have "split_on (CHR '','') (join_with (CHR '','') qs) = qs"
    using assms by (intro split_on_join) (auto simp: list_all_iff plain_name_def)
  moreover have "map trim qs = qs" "filter (\<lambda>s. s \<noteq> []) qs = qs"
    using assms(2) by (auto simp: list_all_iff plain_name_def trim_id intro: map_idI)
  ultimately show ?thesis by (simp add: parse_queues_def)
qed

lemma parse_queues_nonempty: "q \<in> set (parse_queues s) \<Longrightarrow> q \<noteq> []"
  by (auto simp: parse_queues_def)

lemma worker_config_queues:
  "wc_queues (worker_config_from_env env i) \<noteq> [] \<and> [] \<notin> set (wc_queues (worker_config_from_env env i))"
  using parse_queues_nonempty by (auto simp: worker_config_fields(3) split: option.splits)

lemma worker_config_limits:
  "1 \<le> wc_concurrency (worker_config_from_env env i)" "wc_concurrency (worker_config_from_env env i) < 2 ^ 64"
  "1 \<le> wc_lease_secs (worker_config_from_env env i)" "is_i64 (wc_lease_secs (worker_config_from_env env i))"
  "10 \<le> as_millis (wc_poll_interval (worker_config_from_env env i))"
  "1 \<le> d_secs (wc_heartbeat_interval (worker_config_from_env env i))"
  "1 \<le> d_secs (wc_shutdown_grace (worker_config_from_env env i))"
  using as_u64_range env_parse_i64
  by (auto simp: worker_config_fields env_clamped is_i64_def split: option.splits)

end
