(* ===== verification/Worker_Handlers.thy ===== *)
theory Worker_Handlers
  imports Rust_Parse Float64 Job_Model "HOL-Library.AList" "HOL-Library.List_Lexorder" "HOL-Library.Char_ord"
begin

text \<open>
  The handler registry of \<^verbatim>\<open>crates/worker/src/lib.rs\<close> and the example handlers of
  \<^verbatim>\<open>crates/worker/src/handlers.rs\<close>.  The operations of \<open>serde_json::Value\<close> the handlers use are a parameter.
\<close>

section \<open>Handlers and the registry\<close>

text \<open>
  A run of a handler: the milliseconds it sleeps before it returns, and what it returns.  \<open>Ok(Some(json))\<close>
  attaches a result, \<open>Ok(None)\<close> is success without one, \<open>Err(message)\<close> fails the attempt; a handler that
  panics unwinds its task.
\<close>

type_synonym 'j handler_result = "('j option, string) outcome"
type_synonym 'j handler = "'j job \<Rightarrow> int \<times> 'j handler_result"

text \<open>The \<open>HashMap\<close> of handlers is an association list with distinct keys, in an arbitrary order.\<close>

record 'j handler_registry =
  hr_handlers :: "(string \<times> 'j handler) list"

definition registry_new :: "'j handler_registry" where
  "registry_new = \<lparr>hr_handlers = []\<rparr>"

definition register :: "string \<Rightarrow> 'j handler \<Rightarrow> 'j handler_registry \<Rightarrow> 'j handler_registry" where
  "register job_type h reg = reg\<lparr>hr_handlers := AList.update job_type h (hr_handlers reg)\<rparr>"

definition registry_get :: "'j handler_registry \<Rightarrow> string \<Rightarrow> 'j handler option" where
  "registry_get reg job_type = map_of (hr_handlers reg) job_type"

definition job_types :: "'j handler_registry \<Rightarrow> string list" where
  "job_types reg = sort (map fst (hr_handlers reg))"

section \<open>The example handlers\<close>

text \<open>The accessors and constructors of \<open>serde_json::Value\<close> the handlers call.\<close>

record 'j json_api =
  js_get :: "'j \<Rightarrow> string \<Rightarrow> 'j option"
  js_as_array :: "'j \<Rightarrow> 'j list option"
  js_as_f64 :: "'j \<Rightarrow> rat option"
  js_as_u64 :: "'j \<Rightarrow> int option"
  js_as_i64 :: "'j \<Rightarrow> int option"
  js_as_str :: "'j \<Rightarrow> string option"
  js_f64 :: "rat \<Rightarrow> 'j"
  js_int :: "int \<Rightarrow> 'j"
  js_object :: "(string \<times> 'j) list \<Rightarrow> 'j"
  js_display :: "'j \<Rightarrow> string"

text \<open>\<open>payload.get(key).and_then(f)\<close>.\<close>

definition js_field :: "'j json_api \<Rightarrow> ('j \<Rightarrow> 'a option) \<Rightarrow> 'j \<Rightarrow> string \<Rightarrow> 'a option" where
  "js_field js f v key = Option.bind (js_get js v key) f"

definition echo_handler :: "'j handler" where
  "echo_handler job = (0, Ok (Some (j_payload job)))"

fun sum_loop :: "'j json_api \<Rightarrow> rat \<Rightarrow> 'j list \<Rightarrow> (rat, string) outcome" where
  "sum_loop js acc [] = Ok acc"
| "sum_loop js acc (n # ns) =
    (case js_as_f64 js n of
       Some x \<Rightarrow> sum_loop js (f64_add acc x) ns
     | None \<Rightarrow> Err (''non-numeric element: '' @ js_display js n))"

definition sum_handler :: "'j json_api \<Rightarrow> 'j handler" where
  "sum_handler js job =
    (0, case js_field js (js_as_array js) (j_payload job) ''numbers'' of
          None \<Rightarrow> Err ''payload.numbers must be an array''
        | Some numbers \<Rightarrow>
            and_then (sum_loop js 0 numbers) (\<lambda>total. Ok (Some (js_object js [(''sum'', js_f64 js total)]))))"

definition sleep_handler :: "'j json_api \<Rightarrow> 'j handler" where
  "sleep_handler js job =
    (let ms = unwrap_or (js_field js (js_as_u64 js) (j_payload job) ''ms'') 100
     in (ms, Ok (Some (js_object js [(''slept_ms'', js_int js ms)]))))"

definition fail_handler :: "'j json_api \<Rightarrow> 'j handler" where
  "fail_handler js job =
    (0, Err (unwrap_or (js_field js (js_as_str js) (j_payload job) ''message'') ''intentional failure''))"

definition flaky_handler :: "'j json_api \<Rightarrow> 'j handler" where
  "flaky_handler js job =
    (let fail_until = unwrap_or (js_field js (js_as_i64 js) (j_payload job) ''fail_until'') 2
     in (0, if j_attempts job < fail_until
            then Err (''flaky failure on attempt '' @ show_int (j_attempts job) @ '' (< '' @
              show_int fail_until @ '')'')
            else Ok (Some (js_object js [(''succeeded_on_attempt'', js_int js (j_attempts job))]))))"

definition with_examples :: "'j json_api \<Rightarrow> 'j handler_registry \<Rightarrow> 'j handler_registry" where
  "with_examples js reg =
    register ''flaky'' (flaky_handler js)
      (register ''fail'' (fail_handler js)
        (register ''sleep'' (sleep_handler js)
          (register ''sum'' (sum_handler js)
            (register ''echo'' echo_handler reg))))"

section \<open>Facts\<close>

definition registry_ok :: "'j handler_registry \<Rightarrow> bool" where
  "registry_ok reg \<longleftrightarrow> distinct (map fst (hr_handlers reg))"

lemma registry_ok_new [simp]: "registry_ok registry_new"
  by (simp add: registry_ok_def registry_new_def)

lemma registry_ok_register [simp]: "registry_ok reg \<Longrightarrow> registry_ok (register t h reg)"
  by (simp add: registry_ok_def register_def distinct_update)

lemma registry_get_new [simp]: "registry_get registry_new t = None"
  by (simp add: registry_get_def registry_new_def)

lemma registry_get_register [simp]:
  "registry_get (register t h reg) u = (if u = t then Some h else registry_get reg u)"
  by (simp add: registry_get_def register_def update_conv)

lemma registry_get_examples:
  "registry_get (with_examples js reg) t =
    (if t = ''flaky'' then Some (flaky_handler js)
     else if t = ''fail'' then Some (fail_handler js)
     else if t = ''sleep'' then Some (sleep_handler js)
     else if t = ''sum'' then Some (sum_handler js)
     else if t = ''echo'' then Some echo_handler
     else registry_get reg t)"
  by (simp add: with_examples_def)

lemma job_types_registered: "set (job_types reg) = {t. registry_get reg t \<noteq> None}"
  by (auto simp: job_types_def registry_get_def map_of_eq_None_iff)

lemma job_types_sorted: "registry_ok reg \<Longrightarrow> sorted (job_types reg) \<and> distinct (job_types reg)"
  by (simp add: job_types_def registry_ok_def)

text \<open>The sum is the left-to-right sum of the numbers, up to the first element that is not one.\<close>

lemma sum_loop_numbers:
  "map (js_as_f64 js) ns = map Some xs \<Longrightarrow> sum_loop js acc ns = Ok (foldl f64_add acc xs)"
  by (induction ns arbitrary: acc xs) auto

lemma sum_loop_rejects:
  "list_all (\<lambda>n. js_as_f64 js n \<noteq> None) ns \<Longrightarrow> js_as_f64 js n = None \<Longrightarrow>
    sum_loop js acc (ns @ n # rest) = Err (''non-numeric element: '' @ js_display js n)"
  by (induction ns arbitrary: acc) auto

end
