(* ===== verification/Worker_Runtime.thy ===== *)
theory Worker_Runtime
  imports Worker_Config Worker_Handlers Queue_Service
begin

text \<open>
  The worker process of \<^verbatim>\<open>crates/worker/src/runtime.rs\<close>: the lease loop, the tasks that execute jobs, and the
  heartbeat task, which run concurrently and meet only in the store.  Between two \<open>await\<close> points a task
  runs without interference, so the process is a state machine whose events are the completions of the
  awaited operations.  What a completion depends on (the environment of a store call, how long a handler
  took, which branch of a \<open>select!\<close> is taken) is part of the event.
\<close>

section \<open>State\<close>

text \<open>Where the body of \<open>run\<close> waits.\<close>

datatype phase =
    Acquiring      \<comment> \<open>for a permit or the shutdown\<close>
  | Leasing        \<comment> \<open>for \<open>lease_next\<close>, holding a permit\<close>
  | Polling        \<comment> \<open>for the poll interval or the shutdown\<close>
  | Draining       \<comment> \<open>for the tasks in flight or the grace period\<close>
  | Deregistering  \<comment> \<open>for \<open>deregister_worker\<close>\<close>
  | Stopped        \<comment> \<open>returned\<close>
  | Crashed        \<comment> \<open>unwound by a panic\<close>

text \<open>Where the body of \<open>execute_job\<close> waits.\<close>

datatype 'j stage =
    Renewing
  | Handling
  | Reporting "'j execution_outcome" rat
  | Finished

text \<open>A task of the \<open>JoinSet\<close>.  An aborted task stops at its current \<open>await\<close>.\<close>

record 'j task =
  tk_id :: nat
  tk_job :: "'j job"
  tk_stage :: "'j stage"
  tk_aborted :: bool

text \<open>Where the heartbeat task waits.\<close>

datatype beat =
    BeatWaiting       \<comment> \<open>for the ticker, the \<open>heartbeat\<close> call or the shutdown\<close>
  | BeatMissing       \<comment> \<open>for \<open>register_worker\<close>, after the row was found missing\<close>
  | BeatLast          \<comment> \<open>aborted there, with the statement sent\<close>
  | BeatEnded

record 'j worker_state =
  ws_phase :: phase
  ws_permits :: int
  ws_tasks :: "'j task list"
  ws_next :: nat
  ws_beat :: beat
  ws_shutdown :: bool

fun is_finished :: "'j task \<Rightarrow> bool" where
  "is_finished t = (case tk_stage t of Finished \<Rightarrow> True | _ \<Rightarrow> False)"

definition task_at :: "nat \<Rightarrow> 'j worker_state \<Rightarrow> 'j task option" where
  "task_at k ws = find_by tk_id k (ws_tasks ws)"

text \<open>\<open>drop(permit)\<close>.\<close>

definition release :: "'j worker_state \<Rightarrow> 'j worker_state" where
  "release ws = ws\<lparr>ws_permits := ws_permits ws + 1\<rparr>"

text \<open>\<open>tasks.spawn(...)\<close>; the permit moves into the task.\<close>

definition spawn :: "'j job \<Rightarrow> 'j worker_state \<Rightarrow> 'j worker_state" where
  "spawn job ws = ws\<lparr>ws_tasks := ws_tasks ws @
      [\<lparr>tk_id = ws_next ws, tk_job = job, tk_stage = Renewing, tk_aborted = False\<rparr>],
    ws_next := Suc (ws_next ws)\<rparr>"

text \<open>\<open>while tasks.try_join_next().is_some() {}\<close>.\<close>

definition reap_tasks :: "'j worker_state \<Rightarrow> 'j worker_state" where
  "reap_tasks ws = ws\<lparr>ws_tasks := delete_where is_finished (ws_tasks ws)\<rparr>"

text \<open>\<open>tasks.abort_all()\<close>; dropping the \<open>JoinSet\<close> does the same.\<close>

definition abort_all :: "'j worker_state \<Rightarrow> 'j worker_state" where
  "abort_all ws = ws\<lparr>ws_tasks :=
    update_where (\<lambda>t. \<not> is_finished t) (\<lambda>t. t\<lparr>tk_aborted := True\<rparr>) (ws_tasks ws)\<rparr>"

text \<open>\<open>hb.abort()\<close>.\<close>

definition abort_beat :: "'j worker_state \<Rightarrow> 'j worker_state" where
  "abort_beat ws = ws\<lparr>ws_beat := (if ws_beat ws = BeatMissing then BeatLast else BeatEnded)\<rparr>"

text \<open>A task leaves the set and its permit is dropped with it: it was aborted.\<close>

definition drop_task :: "nat \<Rightarrow> 'j worker_state \<Rightarrow> 'j worker_state" where
  "drop_task k ws = release (ws\<lparr>ws_tasks := delete_where (\<lambda>t. tk_id t = k) (ws_tasks ws)\<rparr>)"

text \<open>A task reaches its next \<open>await\<close>, unless it was aborted meanwhile.\<close>

definition advance :: "nat \<Rightarrow> 'j stage \<Rightarrow> 'j worker_state \<Rightarrow> 'j worker_state" where
  "advance k st ws =
    (case task_at k ws of
       None \<Rightarrow> ws
     | Some t \<Rightarrow>
         if tk_aborted t then drop_task k ws
         else ws\<lparr>ws_tasks := update_where (\<lambda>t. tk_id t = k) (\<lambda>t. t\<lparr>tk_stage := st\<rparr>) (ws_tasks ws)\<rparr>)"

text \<open>A task returns or unwinds: the permit is dropped, and the result waits to be joined.\<close>

definition finish :: "nat \<Rightarrow> 'j worker_state \<Rightarrow> 'j worker_state" where
  "finish k ws =
    (case task_at k ws of
       None \<Rightarrow> ws
     | Some t \<Rightarrow> if tk_aborted t then drop_task k ws else release (advance k Finished ws))"

section \<open>Start\<close>

text \<open>\<open>Semaphore::new\<close> panics above \<open>Semaphore::MAX_PERMITS\<close>, which is tokio's: the parameter \<open>max_permits\<close>.\<close>

definition worker_of_config :: "worker_config \<Rightarrow> time \<Rightarrow> worker" where
  "worker_of_config cfg now =
    \<lparr>w_id = wc_id cfg, w_hostname = wc_hostname cfg, w_queues = wc_queues cfg,
     w_concurrency = as_i32 (wc_concurrency cfg), w_registered_at = now, w_last_heartbeat = now\<rparr>"

definition worker_start ::
  "('s, 'e, 'j) store_ops \<Rightarrow> int \<Rightarrow> worker_config \<Rightarrow> 'e \<Rightarrow> time \<Rightarrow> 's queue_service \<Rightarrow>
   ('j worker_state, queue_error) outcome \<times> 's queue_service" where
  "worker_start ops max_permits cfg env now sv =
    then_call (call_store (so_register_worker ops env (worker_of_config cfg now)) sv) (\<lambda>_ sv.
      if max_permits < wc_concurrency cfg then (Panic, sv)
      else (Ok \<lparr>ws_phase = Acquiring, ws_permits = wc_concurrency cfg, ws_tasks = [], ws_next = 0,
                ws_beat = BeatWaiting, ws_shutdown = False\<rparr>, sv))"

section \<open>The lease loop\<close>

type_synonym ('s, 'j) worker_cell = "'j worker_state \<times> 's queue_service"

definition on_permit :: "('s, 'j) worker_cell \<Rightarrow> ('s, 'j) worker_cell option" where
  "on_permit c = (case c of (ws, sv) \<Rightarrow>
    if ws_phase ws = Acquiring \<and> 0 < ws_permits ws
    then Some (ws\<lparr>ws_phase := Leasing, ws_permits := ws_permits ws - 1\<rparr>, sv) else None)"

definition on_lease ::
  "('s, 'e, 'j) store_ops \<Rightarrow> worker_config \<Rightarrow> 'e \<Rightarrow> ('s, 'j) worker_cell \<Rightarrow>
   ('s, 'j) worker_cell option" where
  "on_lease ops cfg env c = (case c of (ws, sv) \<Rightarrow>
    if ws_phase ws \<noteq> Leasing then None
    else case svc_lease_next ops env (wc_id cfg) (wc_queues cfg) (wc_lease_secs cfg) sv of
        (Ok (Some job), sv) \<Rightarrow> Some (reap_tasks (spawn job (ws\<lparr>ws_phase := Acquiring\<rparr>)), sv)
      | (Ok None, sv) \<Rightarrow> Some (release (ws\<lparr>ws_phase := Polling\<rparr>), sv)
      | (Err e, sv) \<Rightarrow> Some (release (ws\<lparr>ws_phase := Polling\<rparr>), sv)
      | (Panic, sv) \<Rightarrow> Some (abort_all (release (ws\<lparr>ws_phase := Crashed\<rparr>)), sv))"

definition on_poll_elapsed :: "('s, 'j) worker_cell \<Rightarrow> ('s, 'j) worker_cell option" where
  "on_poll_elapsed c = (case c of (ws, sv) \<Rightarrow>
    if ws_phase ws = Polling then Some (reap_tasks (ws\<lparr>ws_phase := Acquiring\<rparr>), sv) else None)"

definition on_break :: "('s, 'j) worker_cell \<Rightarrow> ('s, 'j) worker_cell option" where
  "on_break c = (case c of (ws, sv) \<Rightarrow>
    if ws_shutdown ws \<and> (ws_phase ws = Acquiring \<or> ws_phase ws = Polling)
    then Some (ws\<lparr>ws_phase := Draining\<rparr>, sv) else None)"

section \<open>Drain and deregistration\<close>

definition on_join_next :: "nat \<Rightarrow> ('s, 'j) worker_cell \<Rightarrow> ('s, 'j) worker_cell option" where
  "on_join_next k c = (case c of (ws, sv) \<Rightarrow>
    case task_at k ws of
      Some t \<Rightarrow>
        if ws_phase ws = Draining \<and> is_finished t
        then Some (ws\<lparr>ws_tasks := delete_where (\<lambda>t. tk_id t = k) (ws_tasks ws)\<rparr>, sv) else None
    | None \<Rightarrow> None)"

definition on_drained :: "('s, 'j) worker_cell \<Rightarrow> ('s, 'j) worker_cell option" where
  "on_drained c = (case c of (ws, sv) \<Rightarrow>
    if ws_phase ws = Draining \<and> ws_tasks ws = []
    then Some (abort_beat (ws\<lparr>ws_phase := Deregistering\<rparr>), sv) else None)"

text \<open>The grace period is over while a task is still running.\<close>

definition on_grace_elapsed :: "('s, 'j) worker_cell \<Rightarrow> ('s, 'j) worker_cell option" where
  "on_grace_elapsed c = (case c of (ws, sv) \<Rightarrow>
    if ws_phase ws = Draining \<and> \<not> list_all is_finished (ws_tasks ws)
    then Some (abort_beat (abort_all (ws\<lparr>ws_phase := Deregistering\<rparr>)), sv) else None)"

definition on_deregister ::
  "('s, 'e, 'j) store_ops \<Rightarrow> worker_config \<Rightarrow> 'e \<Rightarrow> ('s, 'j) worker_cell \<Rightarrow>
   ('s, 'j) worker_cell option" where
  "on_deregister ops cfg env c = (case c of (ws, sv) \<Rightarrow>
    if ws_phase ws \<noteq> Deregistering then None
    else case call_store (so_deregister_worker ops env (wc_id cfg)) sv of
        (Panic, sv) \<Rightarrow> Some (ws\<lparr>ws_phase := Crashed\<rparr>, sv)
      | (_, sv) \<Rightarrow> Some (ws\<lparr>ws_phase := Stopped\<rparr>, sv))"

section \<open>Executing a job\<close>

definition lease_cover :: "'j job \<Rightarrow> int" where
  "lease_cover job = j_timeout_secs job + 30"

text \<open>
  \<open>timeout(dur, handler.handle(&job))\<close>, where the handler became ready after \<open>took\<close> microseconds: the result
  if that is within the limit, and otherwise the elapsed error, with the handler dropped.
\<close>

definition handler_outcome ::
  "'j handler_registry \<Rightarrow> 'j job \<Rightarrow> time \<Rightarrow> ('j execution_outcome, queue_error) outcome" where
  "handler_outcome reg job took =
    (case registry_get reg (j_job_type job) of
       None \<Rightarrow> Ok (Failure (''no handler for job_type '' @ [CHR 0x27] @ j_job_type job @ [CHR 0x27]))
     | Some h \<Rightarrow>
         let dur = from_secs (as_u64 (max (j_timeout_secs job) 1))
         in if interval_secs (d_secs dur) < took then Ok Timeout
            else case snd (h job) of
                Ok result \<Rightarrow> Ok (Success result)
              | Err msg \<Rightarrow> Ok (Failure msg)
              | Panic \<Rightarrow> Panic)"

text \<open>A handler cannot become ready before it has slept.\<close>

definition took_ok :: "'j handler_registry \<Rightarrow> 'j job \<Rightarrow> time \<Rightarrow> bool" where
  "took_ok reg job took \<longleftrightarrow>
    0 \<le> took \<and>
    (case registry_get reg (j_job_type job) of Some h \<Rightarrow> 1000 * fst (h job) \<le> took | None \<Rightarrow> True)"

definition on_renew ::
  "('s, 'e, 'j) store_ops \<Rightarrow> worker_config \<Rightarrow> nat \<Rightarrow> 'e \<Rightarrow> ('s, 'j) worker_cell \<Rightarrow>
   ('s, 'j) worker_cell option" where
  "on_renew ops cfg k env c = (case c of (ws, sv) \<Rightarrow>
    case task_at k ws of
      None \<Rightarrow> None
    | Some t \<Rightarrow>
        (case tk_stage t of
           Renewing \<Rightarrow>
             (case svc_renew_lease ops env (j_id (tk_job t)) (wc_id cfg) (lease_cover (tk_job t)) sv of
                (Ok _, sv) \<Rightarrow> Some (advance k Handling ws, sv)
              | (_, sv) \<Rightarrow> Some (finish k ws, sv))
         | _ \<Rightarrow> None))"

definition on_handled ::
  "'j handler_registry \<Rightarrow> nat \<Rightarrow> time \<Rightarrow> rat \<Rightarrow> ('s, 'j) worker_cell \<Rightarrow> ('s, 'j) worker_cell option" where
  "on_handled reg k took elapsed c = (case c of (ws, sv) \<Rightarrow>
    case task_at k ws of
      None \<Rightarrow> None
    | Some t \<Rightarrow>
        (case tk_stage t of
           Handling \<Rightarrow>
             if tk_aborted t \<or> \<not> took_ok reg (tk_job t) took then None
             else (case handler_outcome reg (tk_job t) took of
                     Ok outcome \<Rightarrow> Some (advance k (Reporting outcome elapsed) ws, sv)
                   | _ \<Rightarrow> Some (finish k ws, sv))
         | _ \<Rightarrow> None))"

definition on_report ::
  "('s, 'e, 'j) store_ops \<Rightarrow> worker_config \<Rightarrow> nat \<Rightarrow> 'e \<Rightarrow> ('s, 'j) worker_cell \<Rightarrow>
   ('s, 'j) worker_cell option" where
  "on_report ops cfg k env c = (case c of (ws, sv) \<Rightarrow>
    case task_at k ws of
      None \<Rightarrow> None
    | Some t \<Rightarrow>
        (case tk_stage t of
           Reporting outcome elapsed \<Rightarrow>
             (case svc_report_outcome ops env (tk_job t) (wc_id cfg) outcome elapsed sv of
                (out, sv) \<Rightarrow> Some (finish k ws, sv))
         | _ \<Rightarrow> None))"

text \<open>An aborted task is dropped without its statement having been executed.\<close>

definition on_dropped :: "nat \<Rightarrow> ('s, 'j) worker_cell \<Rightarrow> ('s, 'j) worker_cell option" where
  "on_dropped k c = (case c of (ws, sv) \<Rightarrow>
    case task_at k ws of
      None \<Rightarrow> None
    | Some t \<Rightarrow> if tk_aborted t then Some (drop_task k ws, sv) else None)"

text \<open>\<open>execute_job\<close> as a whole, when nothing else happens between its awaits.\<close>

definition execute_job ::
  "('s, 'e, 'j) store_ops \<Rightarrow> 'j handler_registry \<Rightarrow> uuid \<Rightarrow> 'j job \<Rightarrow> 'e \<Rightarrow> time \<Rightarrow> rat \<Rightarrow> 'e \<Rightarrow>
   's queue_service \<Rightarrow> (unit, queue_error) outcome \<times> 's queue_service" where
  "execute_job ops reg w job env took elapsed env' sv =
    (case svc_renew_lease ops env (j_id job) w (lease_cover job) sv of
       (Err e, sv) \<Rightarrow> (Ok (), sv)
     | (Panic, sv) \<Rightarrow> (Panic, sv)
     | (Ok _, sv) \<Rightarrow>
         (case handler_outcome reg job took of
            Ok outcome \<Rightarrow>
              (case svc_report_outcome ops env' job w outcome elapsed sv of
                 (Panic, sv) \<Rightarrow> (Panic, sv)
               | (_, sv) \<Rightarrow> (Ok (), sv))
          | Err e \<Rightarrow> (Err e, sv)
          | Panic \<Rightarrow> (Panic, sv)))"

section \<open>The heartbeat task\<close>

definition on_beat ::
  "('s, 'e, 'j) store_ops \<Rightarrow> worker_config \<Rightarrow> 'e \<Rightarrow> ('s, 'j) worker_cell \<Rightarrow>
   ('s, 'j) worker_cell option" where
  "on_beat ops cfg env c = (case c of (ws, sv) \<Rightarrow>
    if ws_beat ws \<noteq> BeatWaiting then None
    else case call_store (so_heartbeat ops env (wc_id cfg)) sv of
        (Ok True, sv) \<Rightarrow> Some (ws, sv)
      | (Ok False, sv) \<Rightarrow> Some (ws\<lparr>ws_beat := BeatMissing\<rparr>, sv)
      | (Err e, sv) \<Rightarrow> Some (ws, sv)
      | (Panic, sv) \<Rightarrow> Some (ws\<lparr>ws_beat := BeatEnded\<rparr>, sv))"

definition on_reregister ::
  "('s, 'e, 'j) store_ops \<Rightarrow> worker_config \<Rightarrow> 'e \<Rightarrow> time \<Rightarrow> ('s, 'j) worker_cell \<Rightarrow>
   ('s, 'j) worker_cell option" where
  "on_reregister ops cfg env now c = (case c of (ws, sv) \<Rightarrow>
    if ws_beat ws \<noteq> BeatMissing \<and> ws_beat ws \<noteq> BeatLast then None
    else case call_store (so_register_worker ops env (worker_of_config cfg now)) sv of
        (Panic, sv) \<Rightarrow> Some (ws\<lparr>ws_beat := BeatEnded\<rparr>, sv)
      | (_, sv) \<Rightarrow>
          Some (ws\<lparr>ws_beat := (if ws_beat ws = BeatMissing then BeatWaiting else BeatEnded)\<rparr>, sv))"

definition on_beat_break :: "('s, 'j) worker_cell \<Rightarrow> ('s, 'j) worker_cell option" where
  "on_beat_break c = (case c of (ws, sv) \<Rightarrow>
    if ws_shutdown ws \<and> ws_beat ws = BeatWaiting \<or> ws_beat ws = BeatLast
    then Some (ws\<lparr>ws_beat := BeatEnded\<rparr>, sv) else None)"

section \<open>The process\<close>

datatype 'e worker_event =
    TokenCancelled           \<comment> \<open>the shutdown token\<close>
  | Permit | Leased 'e | PollElapsed | Break
  | JoinNext nat | Drained | GraceElapsed | Deregistered 'e
  | Renewed nat 'e | Handled nat time rat | Reported nat 'e | Dropped nat
  | Beat 'e | Reregistered 'e | BeatBreak

text \<open>\<open>None\<close>: the event cannot happen in this state.  \<open>now\<close> is the time at which the process started.\<close>

fun worker_step ::
  "('s, 'e, 'j) store_ops \<Rightarrow> 'j handler_registry \<Rightarrow> worker_config \<Rightarrow> time \<Rightarrow> 'e worker_event \<Rightarrow>
   ('s, 'j) worker_cell \<Rightarrow> ('s, 'j) worker_cell option" where
  "worker_step ops reg cfg now TokenCancelled c = Some (apfst (\<lambda>ws. ws\<lparr>ws_shutdown := True\<rparr>) c)"
| "worker_step ops reg cfg now Permit c = on_permit c"
| "worker_step ops reg cfg now (Leased env) c = on_lease ops cfg env c"
| "worker_step ops reg cfg now PollElapsed c = on_poll_elapsed c"
| "worker_step ops reg cfg now Break c = on_break c"
| "worker_step ops reg cfg now (JoinNext k) c = on_join_next k c"
| "worker_step ops reg cfg now Drained c = on_drained c"
| "worker_step ops reg cfg now GraceElapsed c = on_grace_elapsed c"
| "worker_step ops reg cfg now (Deregistered env) c = on_deregister ops cfg env c"
| "worker_step ops reg cfg now (Renewed k env) c = on_renew ops cfg k env c"
| "worker_step ops reg cfg now (Handled k took elapsed) c = on_handled reg k took elapsed c"
| "worker_step ops reg cfg now (Reported k env) c = on_report ops cfg k env c"
| "worker_step ops reg cfg now (Dropped k) c = on_dropped k c"
| "worker_step ops reg cfg now (Beat env) c = on_beat ops cfg env c"
| "worker_step ops reg cfg now (Reregistered env) c = on_reregister ops cfg env now c"
| "worker_step ops reg cfg now BeatBreak c = on_beat_break c"

end
