(* ===== verification/Worker_Invariant.thy ===== *)
theory Worker_Invariant
  imports Worker_Runtime
begin

text \<open>
  What holds of the worker process over any store: the permits account for the jobs in flight, and an
  orderly shutdown ends.
\<close>

section \<open>Jobs in flight\<close>

definition active :: "'j task list \<Rightarrow> int" where
  "active ts = int (length (filter (\<lambda>t. \<not> is_finished t) ts))"

lemma active_simps [simp]:
  "active [] = 0" "active (t # ts) = (if is_finished t then 0 else 1) + active ts"
  "active (ts @ us) = active ts + active us"
  by (simp_all add: active_def)

lemma active_nonneg [simp]: "0 \<le> active ts"
  by (simp add: active_def)

lemma active_reap [simp]: "active (delete_where is_finished ts) = active ts"
  by (induction ts) simp_all

lemma is_finished_aborted [simp]: "is_finished (t\<lparr>tk_aborted := b\<rparr>) = is_finished t"
  by simp

lemma active_abort [simp]: "active (update_where p (\<lambda>t. t\<lparr>tk_aborted := b\<rparr>) ts) = active ts"
  by (induction ts) simp_all

lemma keep_where_absent:
  "find_by k x rows = None \<Longrightarrow> delete_where (\<lambda>r. k r = x) rows = rows"
  "find_by k x rows = None \<Longrightarrow> update_where (\<lambda>r. k r = x) f rows = rows"
  by (induction rows) (auto split: if_splits)

lemma active_delete_task:
  assumes "distinct (map tk_id ts)" and "find_by tk_id k ts = Some t"
  shows "active (delete_where (\<lambda>t. tk_id t = k) ts) = active ts - (if is_finished t then 0 else 1)"
  using assms
proof (induction ts)
  case (Cons u ts)
  show ?case
  proof (cases "tk_id u = k")
    case True
    with Cons.prems have "find_by tk_id k ts = None" "u = t" by (auto simp: find_by_None_iff)
    with True show ?thesis by (simp add: keep_where_absent)
  next
    case False
    with Cons show ?thesis by simp
  qed
qed simp

lemma active_update_task:
  assumes "distinct (map tk_id ts)" and "find_by tk_id k ts = Some t"
  shows "active (update_where (\<lambda>t. tk_id t = k) (\<lambda>t. t\<lparr>tk_stage := st\<rparr>) ts) =
    active ts - (if is_finished t then 0 else 1) + (if st = Finished then 0 else 1)"
  using assms
proof (induction ts)
  case (Cons u ts)
  have fin: "is_finished (u\<lparr>tk_stage := st\<rparr>) \<longleftrightarrow> st = Finished" by (cases st) simp_all
  show ?case
  proof (cases "tk_id u = k")
    case True
    with Cons.prems have "find_by tk_id k ts = None" "u = t" by (auto simp: find_by_None_iff)
    with True fin show ?thesis by (simp add: keep_where_absent del: is_finished.simps)
  next
    case False
    with Cons show ?thesis by simp
  qed
qed simp

section \<open>The invariant\<close>

definition held_permits :: "'j worker_state \<Rightarrow> int" where
  "held_permits ws = active (ws_tasks ws) + (if ws_phase ws = Leasing then 1 else 0)"

definition stopping :: "'j worker_state \<Rightarrow> bool" where
  "stopping ws \<longleftrightarrow> ws_phase ws = Deregistering \<or> ws_phase ws = Stopped \<or> ws_phase ws = Crashed"

definition worker_ok :: "int \<Rightarrow> 'j worker_state \<Rightarrow> bool" where
  "worker_ok concurrency ws \<longleftrightarrow>
    distinct (map tk_id (ws_tasks ws)) \<and>
    (\<forall>t \<in> set (ws_tasks ws). tk_id t < ws_next ws \<and> (tk_aborted t \<longrightarrow> \<not> is_finished t \<and> stopping ws)) \<and>
    0 \<le> ws_permits ws \<and> ws_permits ws + held_permits ws = concurrency"

lemma worker_okD:
  assumes "worker_ok n ws"
  shows "distinct (map tk_id (ws_tasks ws))" "0 \<le> ws_permits ws" "ws_permits ws + held_permits ws = n"
    "t \<in> set (ws_tasks ws) \<Longrightarrow> tk_id t < ws_next ws"
    "t \<in> set (ws_tasks ws) \<Longrightarrow> tk_aborted t \<Longrightarrow> \<not> is_finished t"
    "t \<in> set (ws_tasks ws) \<Longrightarrow> tk_aborted t \<Longrightarrow> stopping ws"
  using assms by (auto simp: worker_ok_def)

lemma task_at_in: "task_at k ws = Some t \<Longrightarrow> t \<in> set (ws_tasks ws) \<and> tk_id t = k"
  unfolding task_at_def by (rule find_by_SomeD)

lemmas worker_ok_defs = worker_ok_def held_permits_def stopping_def

lemma worker_ok_drop_task:
  assumes "worker_ok n ws" and "task_at k ws = Some t" and "\<not> is_finished t"
  shows "worker_ok n (drop_task k ws)"
  using assms active_delete_task [OF worker_okD(1) [OF assms(1)], of k t]
  by (auto simp: worker_ok_defs drop_task_def release_def task_at_def distinct_map_delete_where
      simp del: is_finished.simps)

lemma worker_ok_update_stage:
  assumes "worker_ok n ws" and "task_at k ws = Some t" and "\<not> is_finished t" and "\<not> tk_aborted t"
  shows "worker_ok n (ws\<lparr>ws_tasks := update_where (\<lambda>t. tk_id t = k) (\<lambda>t. t\<lparr>tk_stage := st\<rparr>) (ws_tasks ws),
    ws_permits := ws_permits ws + (if st = Finished then 1 else 0)\<rparr>)"
proof -
  let ?ts = "update_where (\<lambda>t. tk_id t = k) (\<lambda>t. t\<lparr>tk_stage := st\<rparr>) (ws_tasks ws)"
  have "map tk_id ?ts = map tk_id (ws_tasks ws)" by (rule map_key_update_where) simp
  moreover have "active ?ts = active (ws_tasks ws) - (if st = Finished then 1 else 0)"
    using active_update_task [OF worker_okD(1) [OF assms(1)], of k t st] assms(2,3)
    by (simp add: task_at_def del: is_finished.simps)
  moreover have "tk_aborted u \<longrightarrow> \<not> is_finished u \<and> stopping ws" "tk_id u < ws_next ws" if "u \<in> set ?ts" for u
  proof -
    from that consider "u \<in> set (ws_tasks ws)"
      | r where "r \<in> set (ws_tasks ws)" "tk_id r = k" "u = r\<lparr>tk_stage := st\<rparr>"
      by (auto simp: set_update_where)
    then show "tk_aborted u \<longrightarrow> \<not> is_finished u \<and> stopping ws" "tk_id u < ws_next ws"
    proof (atomize (full), cases)
      case 1
      then show "(tk_aborted u \<longrightarrow> \<not> is_finished u \<and> stopping ws) \<and> tk_id u < ws_next ws"
        using worker_okD(4-6) [OF assms(1)] by blast
    next
      case (2 r)
      then have "r = t"
        using assms(2) distinct_key_eq [OF worker_okD(1) [OF assms(1)]] task_at_in by metis
      with 2 assms(4) worker_okD(4) [OF assms(1)] show
        "(tk_aborted u \<longrightarrow> \<not> is_finished u \<and> stopping ws) \<and> tk_id u < ws_next ws" by auto
    qed
  qed
  ultimately show ?thesis
    using assms(1) by (auto simp: worker_ok_defs simp del: is_finished.simps)
qed

lemma worker_ok_advance:
  assumes "worker_ok n ws" and "task_at k ws = Some t" and "\<not> is_finished t" and "st \<noteq> Finished"
  shows "worker_ok n (advance k st ws)"
  using assms worker_ok_drop_task [OF assms(1-3)] worker_ok_update_stage [OF assms(1-3), of st]
  by (simp add: advance_def)

lemma worker_ok_finish:
  assumes "worker_ok n ws" and "task_at k ws = Some t" and "\<not> is_finished t"
  shows "worker_ok n (finish k ws)"
  using assms worker_ok_drop_task [OF assms] worker_ok_update_stage [OF assms, of Finished]
  by (simp add: finish_def advance_def release_def)

lemma worker_ok_same_tasks:
  assumes "worker_ok n ws" and "ws_tasks ws' = ws_tasks ws" and "ws_next ws' = ws_next ws"
    and "0 \<le> ws_permits ws'" and "ws_permits ws' + held_permits ws' = ws_permits ws + held_permits ws"
    and "stopping ws \<Longrightarrow> stopping ws'"
  shows "worker_ok n ws'"
  using assms by (auto simp: worker_ok_def simp del: is_finished.simps)

lemma worker_ok_spawn:
  assumes "worker_ok n ws" and "ws_phase ws = Leasing"
  shows "worker_ok n (spawn job (ws\<lparr>ws_phase := Acquiring\<rparr>))"
  using assms by (auto simp: worker_ok_defs spawn_def less_SucI dest!: bspec)

lemma worker_ok_reap: "worker_ok n ws \<Longrightarrow> worker_ok n (reap_tasks ws)"
  by (auto simp: worker_ok_defs reap_tasks_def distinct_map_delete_where simp del: is_finished.simps)

lemma worker_ok_abort_all:
  assumes "worker_ok n ws" and "stopping ws'" and "ws_tasks ws' = ws_tasks ws" and "ws_next ws' = ws_next ws"
    and "0 \<le> ws_permits ws'" and "ws_permits ws' + held_permits ws' = n"
  shows "worker_ok n (abort_all ws')"
proof -
  let ?ts = "update_where (\<lambda>t. \<not> is_finished t) (\<lambda>t. t\<lparr>tk_aborted := True\<rparr>) (ws_tasks ws)"
  have "map tk_id ?ts = map tk_id (ws_tasks ws)" by (rule map_key_update_where) simp
  then show ?thesis
    using assms by (auto simp: worker_ok_defs abort_all_def set_update_where simp del: is_finished.simps)
qed

lemma worker_ok_abort_beat [simp]: "worker_ok n (abort_beat ws) \<longleftrightarrow> worker_ok n ws"
  by (simp add: worker_ok_defs abort_beat_def)

lemma worker_ok_join:
  assumes "worker_ok n ws" and "task_at k ws = Some t" and "is_finished t"
  shows "worker_ok n (ws\<lparr>ws_tasks := delete_where (\<lambda>t. tk_id t = k) (ws_tasks ws)\<rparr>)"
  using assms active_delete_task [OF worker_okD(1) [OF assms(1)], of k t]
  by (auto simp: worker_ok_defs task_at_def distinct_map_delete_where simp del: is_finished.simps)

lemma worker_ok_loop:
  assumes "worker_ok n ws"
  shows "on_permit (ws, sv) = Some (ws', sv') \<Longrightarrow> worker_ok n ws'"
    and "on_lease ops cfg env (ws, sv) = Some (ws', sv') \<Longrightarrow> worker_ok n ws'"
    and "on_poll_elapsed (ws, sv) = Some (ws', sv') \<Longrightarrow> worker_ok n ws'"
    and "on_break (ws, sv) = Some (ws', sv') \<Longrightarrow> worker_ok n ws'"
proof -
  show "worker_ok n ws'" if "on_permit (ws, sv) = Some (ws', sv')"
    using that by (intro worker_ok_same_tasks [OF assms])
      (auto simp: on_permit_def held_permits_def stopping_def split: if_splits)
  show "worker_ok n ws'" if "on_poll_elapsed (ws, sv) = Some (ws', sv')"
  proof -
    have "worker_ok n (ws\<lparr>ws_phase := Acquiring\<rparr>)" if "ws_phase ws = Polling"
      using that worker_okD(2) [OF assms]
      by (intro worker_ok_same_tasks [OF assms]) (auto simp: held_permits_def stopping_def)
    with that show ?thesis by (auto simp: on_poll_elapsed_def worker_ok_reap split: if_splits)
  qed
  show "worker_ok n ws'" if "on_break (ws, sv) = Some (ws', sv')"
    using that worker_okD(2) [OF assms] by (intro worker_ok_same_tasks [OF assms])
      (auto simp: on_break_def held_permits_def stopping_def split: if_splits)
  show "worker_ok n ws'" if step: "on_lease ops cfg env (ws, sv) = Some (ws', sv')"
  proof -
    have leasing: "ws_phase ws = Leasing" using step by (auto simp: on_lease_def split: if_splits)
    have polled: "worker_ok n (release (ws\<lparr>ws_phase := Polling\<rparr>))"
      using leasing worker_okD(2) [OF assms] by (intro worker_ok_same_tasks [OF assms])
        (auto simp: release_def held_permits_def stopping_def)
    have crashed: "worker_ok n (abort_all (release (ws\<lparr>ws_phase := Crashed\<rparr>)))"
      using leasing worker_okD(2,3) [OF assms] by (intro worker_ok_abort_all [OF assms])
        (auto simp: release_def held_permits_def stopping_def)
    show ?thesis
      using step leasing polled crashed worker_ok_reap [OF worker_ok_spawn [OF assms leasing]]
      by (auto simp: on_lease_def split: prod.splits outcome.splits option.splits)
  qed
qed

lemma worker_ok_stop:
  assumes "worker_ok n ws"
  shows "on_join_next k (ws, sv) = Some (ws', sv') \<Longrightarrow> worker_ok n ws'"
    and "on_drained (ws, sv) = Some (ws', sv') \<Longrightarrow> worker_ok n ws'"
    and "on_grace_elapsed (ws, sv) = Some (ws', sv') \<Longrightarrow> worker_ok n ws'"
    and "on_deregister ops cfg env (ws, sv) = Some (ws', sv') \<Longrightarrow> worker_ok n ws'"
proof -
  show "worker_ok n ws'" if "on_join_next k (ws, sv) = Some (ws', sv')"
    using that worker_ok_join [OF assms] by (auto simp: on_join_next_def split: option.splits if_splits)
  show "worker_ok n ws'" if "on_drained (ws, sv) = Some (ws', sv')"
    using that worker_okD(2) [OF assms] by (intro worker_ok_same_tasks [OF assms])
      (auto simp: on_drained_def abort_beat_def held_permits_def stopping_def split: if_splits)
  show "worker_ok n ws'" if "on_grace_elapsed (ws, sv) = Some (ws', sv')"
  proof -
    have "worker_ok n (abort_all (ws\<lparr>ws_phase := Deregistering\<rparr>))" if "ws_phase ws = Draining"
      using that worker_okD(2,3) [OF assms] by (intro worker_ok_abort_all [OF assms])
        (auto simp: held_permits_def stopping_def)
    with that show ?thesis by (auto simp: on_grace_elapsed_def split: if_splits)
  qed
  show "worker_ok n ws'" if "on_deregister ops cfg env (ws, sv) = Some (ws', sv')"
    using that worker_okD(2) [OF assms] by (intro worker_ok_same_tasks [OF assms])
      (auto simp: on_deregister_def held_permits_def stopping_def split: if_splits prod.splits outcome.splits)
qed

lemma on_renewE:
  assumes "on_renew ops cfg k env (ws, sv) = Some (ws', sv')"
  obtains t where "task_at k ws = Some t" "tk_stage t = Renewing"
      "svc_renew_lease ops env (j_id (tk_job t)) (wc_id cfg) (lease_cover (tk_job t)) sv = (Ok (), sv')"
      "ws' = advance k Handling ws"
    | t out where "task_at k ws = Some t" "tk_stage t = Renewing"
      "svc_renew_lease ops env (j_id (tk_job t)) (wc_id cfg) (lease_cover (tk_job t)) sv = (out, sv')"
      "out \<noteq> Ok ()" "ws' = finish k ws"
proof (cases "task_at k ws")
  case (Some t)
  obtain out sv1 where call:
    "svc_renew_lease ops env (j_id (tk_job t)) (wc_id cfg) (lease_cover (tk_job t)) sv = (out, sv1)"
    by fastforce
  show thesis
    using assms Some call that by (cases "tk_stage t"; cases out) (simp_all add: on_renew_def)
qed (use assms in \<open>simp add: on_renew_def\<close>)

lemma on_handledE:
  assumes "on_handled reg k took elapsed (ws, sv) = Some (ws', sv')"
  obtains t outcome where "task_at k ws = Some t" "tk_stage t = Handling" "\<not> tk_aborted t"
      "took_ok reg (tk_job t) took" "handler_outcome reg (tk_job t) took = Ok outcome" "sv' = sv"
      "ws' = advance k (Reporting outcome elapsed) ws"
    | t where "task_at k ws = Some t" "tk_stage t = Handling" "\<not> tk_aborted t" "sv' = sv" "ws' = finish k ws"
proof (cases "task_at k ws")
  case (Some t)
  show thesis
    using assms Some that
    by (cases "tk_stage t"; cases "handler_outcome reg (tk_job t) took")
      (simp_all add: on_handled_def split: if_splits)
qed (use assms in \<open>simp add: on_handled_def\<close>)

lemma on_reportE:
  assumes "on_report ops cfg k env (ws, sv) = Some (ws', sv')"
  obtains t outcome elapsed out where "task_at k ws = Some t" "tk_stage t = Reporting outcome elapsed"
    "svc_report_outcome ops env (tk_job t) (wc_id cfg) outcome elapsed sv = (out, sv')" "ws' = finish k ws"
proof (cases "task_at k ws")
  case (Some t)
  then show thesis
    using assms that by (cases "tk_stage t") (simp_all add: on_report_def split: prod.splits)
qed (use assms in \<open>simp add: on_report_def\<close>)

lemma worker_ok_task:
  assumes "worker_ok n ws"
  shows "on_renew ops cfg k env (ws, sv) = Some (ws', sv') \<Longrightarrow> worker_ok n ws'"
    and "on_handled reg k took elapsed (ws, sv) = Some (ws', sv') \<Longrightarrow> worker_ok n ws'"
    and "on_report ops cfg k env (ws, sv) = Some (ws', sv') \<Longrightarrow> worker_ok n ws'"
    and "on_dropped k (ws, sv) = Some (ws', sv') \<Longrightarrow> worker_ok n ws'"
proof -
  show "worker_ok n ws'" if "on_renew ops cfg k env (ws, sv) = Some (ws', sv')"
    using that by (auto elim!: on_renewE intro!: worker_ok_advance [OF assms] worker_ok_finish [OF assms])
  show "worker_ok n ws'" if "on_handled reg k took elapsed (ws, sv) = Some (ws', sv')"
    using that by (auto elim!: on_handledE intro!: worker_ok_advance [OF assms] worker_ok_finish [OF assms])
  show "worker_ok n ws'" if "on_report ops cfg k env (ws, sv) = Some (ws', sv')"
    using that by (auto elim!: on_reportE intro!: worker_ok_advance [OF assms] worker_ok_finish [OF assms])
  show "worker_ok n ws'" if step: "on_dropped k (ws, sv) = Some (ws', sv')"
  proof -
    obtain t where t: "task_at k ws = Some t" "tk_aborted t" "ws' = drop_task k ws"
      using step by (auto simp: on_dropped_def split: option.splits if_splits)
    then have "\<not> is_finished t" using worker_okD(5) [OF assms] task_at_in by blast
    with t show ?thesis using worker_ok_drop_task [OF assms] by blast
  qed
qed

lemma worker_ok_beat:
  assumes "worker_ok n ws"
  shows "on_beat ops cfg env (ws, sv) = Some (ws', sv') \<Longrightarrow> worker_ok n ws'"
    and "on_reregister ops cfg env now (ws, sv) = Some (ws', sv') \<Longrightarrow> worker_ok n ws'"
    and "on_beat_break (ws, sv) = Some (ws', sv') \<Longrightarrow> worker_ok n ws'"
proof -
  have beat: "worker_ok n (ws\<lparr>ws_beat := b\<rparr>)" for b
    using assms by (simp add: worker_ok_defs)
  show "worker_ok n ws'" if "on_beat ops cfg env (ws, sv) = Some (ws', sv')"
    using that assms beat by (auto simp: on_beat_def split: if_splits prod.splits outcome.splits bool.splits)
  show "worker_ok n ws'" if "on_reregister ops cfg env now (ws, sv) = Some (ws', sv')"
    using that beat by (auto simp: on_reregister_def split: if_splits prod.splits outcome.splits)
  show "worker_ok n ws'" if "on_beat_break (ws, sv) = Some (ws', sv')"
    using that beat by (auto simp: on_beat_break_def split: if_splits)
qed

lemma worker_ok_step:
  assumes "worker_ok n ws" and "worker_step ops reg cfg now ev (ws, sv) = Some (ws', sv')"
  shows "worker_ok n ws'"
proof (cases ev)
  case TokenCancelled
  with assms show ?thesis by (auto simp: worker_ok_defs)
qed (use assms(2) worker_ok_loop [OF assms(1)] worker_ok_stop [OF assms(1)] worker_ok_task [OF assms(1)]
    worker_ok_beat [OF assms(1)] in auto)

lemma worker_ok_start:
  assumes "worker_start ops m cfg env now sv = (Ok ws, sv')" and "0 \<le> wc_concurrency cfg"
  shows "worker_ok (wc_concurrency cfg) ws"
proof -
  obtain out sv1 where call: "call_store (so_register_worker ops env (worker_of_config cfg now)) sv = (out, sv1)"
    by fastforce
  show ?thesis
    using assms by (cases out) (auto simp: worker_start_def call worker_ok_defs split: if_splits)
qed

end
