(* ===== verification/Worker_System.thy ===== *)
theory Worker_System
  imports Worker_Invariant
begin

text \<open>
  A worker process on a shared \<open>PgStore\<close>: its events interleave with the calls of every other process
  (API servers, other workers, the maintenance task) in any order.
\<close>

section \<open>The system\<close>

datatype 'j system_event = Own "pg_env worker_event" | Other "'j call"

type_synonym 'j system = "('j db, 'j) worker_cell"

fun system_step ::
  "'j handler_registry \<Rightarrow> worker_config \<Rightarrow> time \<Rightarrow> 'j system_event \<Rightarrow> 'j system \<Rightarrow> 'j system option" where
  "system_step reg cfg now (Own ev) c = worker_step pg_store reg cfg now ev c"
| "system_step reg cfg now (Other (env, op)) (ws, sv) =
    Some (ws, sv\<lparr>sv_store := exec env op (sv_store sv)\<rparr>)"

fun system_run ::
  "'j handler_registry \<Rightarrow> worker_config \<Rightarrow> time \<Rightarrow> 'j system_event list \<Rightarrow> 'j system \<Rightarrow> 'j system option" where
  "system_run reg cfg now [] c = Some c"
| "system_run reg cfg now (e # es) c = Option.bind (system_step reg cfg now e c) (system_run reg cfg now es)"

section \<open>The store calls of a run\<close>

fun report_op :: "uuid \<Rightarrow> uuid \<Rightarrow> 'j execution_outcome \<Rightarrow> 'j store_op" where
  "report_op i w (Success res) = CompleteJob i w res"
| "report_op i w (Failure err) = FailJob i w err False"
| "report_op i w Timeout = FailJob i w ''execution timed out'' True"

definition task_call :: "nat \<Rightarrow> 'j worker_state \<Rightarrow> ('j task \<Rightarrow> 'j call list) \<Rightarrow> 'j call list" where
  "task_call k ws f = (case task_at k ws of Some t \<Rightarrow> f t | None \<Rightarrow> [])"

fun own_calls :: "worker_config \<Rightarrow> time \<Rightarrow> pg_env worker_event \<Rightarrow> 'j worker_state \<Rightarrow> 'j call list" where
  "own_calls cfg now (Leased env) ws = [(env, LeaseNext (wc_id cfg) (wc_queues cfg) (wc_lease_secs cfg))]"
| "own_calls cfg now (Renewed k env) ws = task_call k ws (\<lambda>t.
    [(env, RenewLease (j_id (tk_job t)) (wc_id cfg) (lease_cover (tk_job t)))])"
| "own_calls cfg now (Reported k env) ws = task_call k ws (\<lambda>t. case tk_stage t of
    Reporting outcome elapsed \<Rightarrow> [(env, report_op (j_id (tk_job t)) (wc_id cfg) outcome)] | _ \<Rightarrow> [])"
| "own_calls cfg now (Deregistered env) ws = [(env, DeregisterWorker (wc_id cfg))]"
| "own_calls cfg now (Beat env) ws = [(env, Heartbeat (wc_id cfg))]"
| "own_calls cfg now (Reregistered env) ws = [(env, RegisterWorker (worker_of_config cfg now))]"
| "own_calls cfg now _ ws = []"

fun event_calls :: "worker_config \<Rightarrow> time \<Rightarrow> 'j system_event \<Rightarrow> 'j worker_state \<Rightarrow> 'j call list" where
  "event_calls cfg now (Own ev) ws = own_calls cfg now ev ws"
| "event_calls cfg now (Other c) ws = [c]"

fun system_calls ::
  "'j handler_registry \<Rightarrow> worker_config \<Rightarrow> time \<Rightarrow> 'j system_event list \<Rightarrow> 'j system \<Rightarrow> 'j call list" where
  "system_calls reg cfg now [] c = []"
| "system_calls reg cfg now (e # es) c =
    event_calls cfg now e (fst c) @
    (case system_step reg cfg now e c of Some c' \<Rightarrow> system_calls reg cfg now es c' | None \<Rightarrow> [])"

lemma call_store_run:
  "call_store f sv = (out, sv') \<Longrightarrow> sv_store sv' = snd (f (sv_store sv)) \<and> out = fst (f (sv_store sv))"
  by (auto simp: call_store_def split: prod.splits)

lemma report_store:
  assumes "svc_report_outcome pg_store env job w outcome d sv = (out, sv')"
  shows "sv_store sv' = exec env (report_op (j_id job) w outcome) (sv_store sv)"
proof (cases outcome)
  case (Success res)
  obtain o1 sv1 where call: "call_store (so_complete_job pg_store env (j_id job) w res)
      (emit (ProcessingDuration d) sv) = (o1, sv1)" by fastforce
  have "sv_store sv' = sv_store sv1"
    using assms Success by (cases o1) (auto simp: svc_report_outcome_def Let_def call)
  with call_store_run [OF call] Success show ?thesis by (simp add: pg_store_def)
next
  case (Failure err)
  obtain o1 sv1 where call: "call_store (so_fail_job pg_store env (j_id job) w err False)
      (emit (JobsFailed (j_queue job)) (emit (ProcessingDuration d) sv)) = (o1, sv1)" by fastforce
  have "sv_store sv' = sv_store sv1"
    using assms Failure by (cases o1)
      (auto simp: svc_report_outcome_def svc_record_failure_def Let_def call split: job_status.splits)
  with call_store_run [OF call] Failure show ?thesis by (simp add: pg_store_def)
next
  case Timeout
  obtain o1 sv1 where call: "call_store (so_fail_job pg_store env (j_id job) w ''execution timed out'' True)
      (emit (JobsFailed (j_queue job)) (emit JobsTimedOut (emit (ProcessingDuration d) sv))) = (o1, sv1)"
    by fastforce
  have "sv_store sv' = sv_store sv1"
    using assms Timeout by (cases o1)
      (auto simp: svc_report_outcome_def svc_record_failure_def Let_def call split: job_status.splits)
  with call_store_run [OF call] Timeout show ?thesis by (simp add: pg_store_def)
qed

lemma loop_store:
  "on_permit (ws, sv) = Some (ws', sv') \<Longrightarrow> sv' = sv"
  "on_poll_elapsed (ws, sv) = Some (ws', sv') \<Longrightarrow> sv' = sv"
  "on_break (ws, sv) = Some (ws', sv') \<Longrightarrow> sv' = sv"
  "on_join_next k (ws, sv) = Some (ws', sv') \<Longrightarrow> sv' = sv"
  "on_drained (ws, sv) = Some (ws', sv') \<Longrightarrow> sv' = sv"
  "on_grace_elapsed (ws, sv) = Some (ws', sv') \<Longrightarrow> sv' = sv"
  "on_dropped k (ws, sv) = Some (ws', sv') \<Longrightarrow> sv' = sv"
  "on_beat_break (ws, sv) = Some (ws', sv') \<Longrightarrow> sv' = sv"
  by (auto simp: on_permit_def on_poll_elapsed_def on_break_def on_join_next_def on_drained_def
      on_grace_elapsed_def on_dropped_def on_beat_break_def split: if_splits option.splits)

lemma call_handler_store:
  "on_lease pg_store cfg env (ws, sv) = Some (ws', sv') \<Longrightarrow>
    sv_store sv' = exec env (LeaseNext (wc_id cfg) (wc_queues cfg) (wc_lease_secs cfg)) (sv_store sv)"
  "on_deregister pg_store cfg env (ws, sv) = Some (ws', sv') \<Longrightarrow>
    sv_store sv' = exec env (DeregisterWorker (wc_id cfg)) (sv_store sv)"
  "on_beat pg_store cfg env (ws, sv) = Some (ws', sv') \<Longrightarrow>
    sv_store sv' = exec env (Heartbeat (wc_id cfg)) (sv_store sv)"
  "on_reregister pg_store cfg env now (ws, sv) = Some (ws', sv') \<Longrightarrow>
    sv_store sv' = exec env (RegisterWorker (worker_of_config cfg now)) (sv_store sv)"
  by (auto simp: on_lease_def on_deregister_def on_beat_def on_reregister_def svc_lease_next_def pg_store_def
      split: if_splits prod.splits outcome.splits option.splits bool.splits dest!: call_store_run)

lemma worker_step_store:
  assumes "worker_step pg_store reg cfg now ev (ws, sv) = Some (ws', sv')"
  shows "sv_store sv' = run (own_calls cfg now ev ws) (sv_store sv)"
proof (cases ev)
  case (Renewed k env)
  with assms show ?thesis
    by (auto elim!: on_renewE simp: task_call_def svc_renew_lease_def pg_store_def dest!: call_store_run)
next
  case (Handled k took elapsed)
  with assms show ?thesis by (auto elim!: on_handledE)
next
  case (Reported k env)
  with assms show ?thesis by (auto elim!: on_reportE simp: task_call_def report_store)
qed (use assms in \<open>auto dest: loop_store call_handler_store\<close>)

lemma system_step_store:
  assumes "system_step reg cfg now e (ws, sv) = Some (ws', sv')"
  shows "sv_store sv' = run (event_calls cfg now e ws) (sv_store sv)"
proof (cases e)
  case (Own ev)
  with assms worker_step_store show ?thesis by fastforce
next
  case (Other c)
  with assms show ?thesis by (cases c) auto
qed

text \<open>
  A run of the system is a run of the store: whatever holds along every run of the store holds with
  workers in it.
\<close>

lemma system_run_store:
  assumes "system_run reg cfg now es (ws, sv) = Some (ws', sv')"
  shows "sv_store sv' = run (system_calls reg cfg now es (ws, sv)) (sv_store sv)"
  using assms
proof (induction es arbitrary: ws sv)
  case (Cons e es)
  then obtain ws1 sv1 where step: "system_step reg cfg now e (ws, sv) = Some (ws1, sv1)"
    "system_run reg cfg now es (ws1, sv1) = Some (ws', sv')"
    by (auto simp: bind_eq_Some_conv)
  with Cons.IH [OF step(2)] system_step_store [OF step(1)] show ?case by simp
qed simp

definition others_ok :: "'j system_event list \<Rightarrow> bool" where
  "others_ok es \<longleftrightarrow> list_all (\<lambda>e. case e of Other (env, op) \<Rightarrow> op_ok op | Own ev \<Rightarrow> True) es"

lemma report_op_ok [simp]: "op_ok (report_op i w outcome)"
  by (cases outcome) simp_all

lemma own_calls_ok: "calls_ok (own_calls cfg now ev ws)"
  by (cases ev) (simp_all add: task_call_def split: option.splits stage.splits)

lemma system_calls_ok: "others_ok es \<Longrightarrow> calls_ok (system_calls reg cfg now es c)"
proof (induction es arbitrary: c)
  case (Cons e es)
  moreover have "calls_ok (event_calls cfg now e (fst c))"
    using Cons.prems by (cases e) (auto simp: others_ok_def own_calls_ok)
  ultimately show ?case by (simp add: others_ok_def split: option.splits)
qed simp

lemma system_run_append:
  "system_run reg cfg now (es @ fs) c = Option.bind (system_run reg cfg now es c) (system_run reg cfg now fs)"
proof (induction es arbitrary: c)
  case (Cons e es)
  then show ?case by (cases "system_step reg cfg now e c") simp_all
qed simp

lemma system_run_worker_ok:
  "system_run reg cfg now es (ws, sv) = Some (ws', sv') \<Longrightarrow> worker_ok n ws \<Longrightarrow> worker_ok n ws'"
proof (induction es arbitrary: ws sv)
  case (Cons e es)
  then obtain ws1 sv1 where step: "system_step reg cfg now e (ws, sv) = Some (ws1, sv1)"
    "system_run reg cfg now es (ws1, sv1) = Some (ws', sv')"
    by (auto simp: bind_eq_Some_conv)
  have "worker_ok n ws1"
  proof (cases e)
    case (Own ev)
    with step(1) Cons.prems(2) show ?thesis using worker_ok_step by fastforce
  next
    case (Other c)
    with step(1) Cons.prems(2) show ?thesis by (cases c) auto
  qed
  with Cons.IH step(2) show ?case by blast
qed simp

end
