(* ===== verification/Lease_Api.thy ===== *)
theory Lease_Api
  imports Worker_Runtime
begin

text \<open>
  The part of the \<open>Store\<close> contract a worker relies on: leases, renewals and the worker registry, as an
  extension of the contract for jobs; what \<open>execute_job\<close> does over any store that keeps it; and \<open>PgStore\<close>
  as an instance.
\<close>

section \<open>The contract\<close>

text \<open>The lease \<open>w\<close> has on a job, with its end.\<close>

definition lease_until :: "uuid \<Rightarrow> time \<Rightarrow> 'j job option \<Rightarrow> bool" where
  "lease_until w t x \<longleftrightarrow> leased_to w x \<and> j_lease_expires_at (the x) = Some t"

locale leasing_store = job_store ops inv view
  for ops :: "('s, 'e, 'j) store_ops" and inv :: "'s \<Rightarrow> bool" and view :: "'s \<Rightarrow> uuid \<Rightarrow> 'j job option" +
  fixes clock :: "'e \<Rightarrow> time"
    and registered :: "'s \<Rightarrow> uuid \<Rightarrow> bool"
  assumes lease_law: "inv s \<Longrightarrow> so_lease_next ops env w qs secs s = (lease_out, s') \<Longrightarrow>
      inv s' \<and>
      (case lease_out of
         Ok None \<Rightarrow> s' = s
       | Ok (Some j) \<Rightarrow> view s' = (view s)(j_id j \<mapsto> j) \<and> j_queue j \<in> set qs \<and>
           lease_until w (clock env + interval_secs secs) (Some j) \<and>
           (\<exists>j0. view s (j_id j) = Some j0 \<and> is_leaseable (j_status j0) \<and> j_job_type j = j_job_type j0 \<and>
             j_payload j = j_payload j0 \<and> j_attempts j = j_attempts j0 + 1)
       | Err e \<Rightarrow> view s' = view s
       | Panic \<Rightarrow> False)"
    and renew_law: "inv s \<Longrightarrow> so_renew_lease ops env i w secs s = (renew_out, s') \<Longrightarrow>
      inv s' \<and>
      (if leased_to w (view s i)
       then renew_out = Ok () \<and> (\<exists>u. view s' = (view s)(i \<mapsto>
         (the (view s i))\<lparr>j_lease_expires_at := Some (clock env + interval_secs secs), j_updated_at := u\<rparr>))
       else (\<exists>e. renew_out = Err e) \<and> s' = s)"
    and heartbeat_law: "inv s \<Longrightarrow> so_heartbeat ops env w s = (beat_out, s') \<Longrightarrow>
      inv s' \<and> view s' = view s \<and> beat_out = Ok (registered s w) \<and> registered s' = registered s"
    and register_law: "inv s \<Longrightarrow> so_register_worker ops env wk s = (reg_out, s') \<Longrightarrow>
      inv s' \<and> view s' = view s \<and> reg_out = Ok () \<and> registered s' = (registered s)(w_id wk := True)"
    and deregister_law: "inv s \<Longrightarrow> so_deregister_worker ops env w s = (reg_out, s') \<Longrightarrow>
      inv s' \<and> view s' = view s \<and> reg_out = Ok () \<and> registered s' = (registered s)(w := False)"
begin

lemma svc_renew_held:
  assumes "inv (sv_store sv)" and "leased_to w (view (sv_store sv) i)"
  obtains sv' u where "svc_renew_lease ops env i w secs sv = (Ok (), sv')" "inv (sv_store sv')"
    "sv_metrics sv' = sv_metrics sv"
    "view (sv_store sv') = (view (sv_store sv))(i \<mapsto> (the (view (sv_store sv) i))
      \<lparr>j_lease_expires_at := Some (clock env + interval_secs secs), j_updated_at := u\<rparr>)"
proof -
  obtain out s' where call: "so_renew_lease ops env i w secs (sv_store sv) = (out, s')" by fastforce
  have "svc_renew_lease ops env i w secs sv = (out, sv\<lparr>sv_store := s'\<rparr>)"
    by (simp add: svc_renew_lease_def call_store_def call)
  with renew_law [OF assms(1) call] assms(2) that show thesis by auto
qed

lemma svc_renew_lost:
  assumes "inv (sv_store sv)" and "\<not> leased_to w (view (sv_store sv) i)"
  obtains e where "svc_renew_lease ops env i w secs sv = (Err e, sv)"
proof -
  obtain out s' where call: "so_renew_lease ops env i w secs (sv_store sv) = (out, s')" by fastforce
  then obtain e where "out = Err e" "s' = sv_store sv" using renew_law [OF assms(1) call] assms(2) by auto
  with call that show thesis by (simp add: svc_renew_lease_def call_store_read)
qed

text \<open>
  \<open>execute_job\<close> without interference: a lost lease leaves everything as it was, and a held one leads to
  the report of the handler's outcome.
\<close>

lemma execute_job_lost:
  assumes "inv (sv_store sv)" and "\<not> leased_to w (view (sv_store sv) (j_id job))"
  shows "execute_job ops reg w job env took elapsed env' sv = (Ok (), sv)"
proof -
  obtain e where "svc_renew_lease ops env (j_id job) w (lease_cover job) sv = (Err e, sv)"
    using svc_renew_lost [OF assms] by blast
  then show ?thesis by (simp add: execute_job_def)
qed

lemma execute_job_held:
  assumes "inv (sv_store sv)" and "leased_to w (view (sv_store sv) (j_id job))"
    and "handler_outcome reg job took = Ok outcome"
  obtains j sv' where "execute_job ops reg w job env took elapsed env' sv = (Ok (), sv')"
    "inv (sv_store sv')" "view (sv_store sv') = (view (sv_store sv))(j_id job \<mapsto> j)"
    "reported_as outcome (the (view (sv_store sv) (j_id job))) j"
    "sv_metrics sv' = sv_metrics sv @ report_events outcome (j_queue job) elapsed (Some j)"
proof -
  obtain sv1 u where renew: "svc_renew_lease ops env (j_id job) w (lease_cover job) sv = (Ok (), sv1)"
    "inv (sv_store sv1)" "sv_metrics sv1 = sv_metrics sv"
    "view (sv_store sv1) = (view (sv_store sv))(j_id job \<mapsto> (the (view (sv_store sv) (j_id job)))
      \<lparr>j_lease_expires_at := Some (clock env + interval_secs (lease_cover job)), j_updated_at := u\<rparr>)"
    using svc_renew_held [OF assms(1,2)] by blast
  obtain out sv2 where report: "svc_report_outcome ops env' job w outcome elapsed sv1 = (out, sv2)" by fastforce
  have "leased_to w (view (sv_store sv1) (j_id job))"
    using assms(2) renew(4) by (auto simp: leased_to_def split: option.splits)
  with svc_report_outcome_eq [OF renew(2) report] obtain j where j: "inv (sv_store sv2)" "out = Ok j"
    "view (sv_store sv2) = (view (sv_store sv1))(j_id job \<mapsto> j)"
    "reported_as outcome (the (view (sv_store sv1) (j_id job))) j"
    "sv_metrics sv2 = sv_metrics sv1 @ report_events outcome (j_queue job) elapsed (Some j)"
    by auto
  have "execute_job ops reg w job env took elapsed env' sv = (Ok (), sv2)"
    using assms(3) renew(1) report j(2) by (simp add: execute_job_def)
  moreover have "reported_as outcome (the (view (sv_store sv) (j_id job))) j"
    using j(4) renew(4) by (cases outcome) (simp_all add: reported_as_def failed_as_def)
  ultimately show thesis using that j renew(3,4) by simp
qed

text \<open>A heartbeat that finds the row missing is followed by a registration.\<close>

lemma beat_registers:
  assumes "inv (sv_store sv)" and "ws_beat ws = BeatWaiting"
  obtains sv1 where "on_beat ops cfg env (ws, sv) =
      Some (if registered (sv_store sv) (wc_id cfg) then ws else ws\<lparr>ws_beat := BeatMissing\<rparr>, sv1)"
    "inv (sv_store sv1)" "view (sv_store sv1) = view (sv_store sv)"
    "registered (sv_store sv1) = registered (sv_store sv)"
proof -
  obtain out s' where call: "so_heartbeat ops env (wc_id cfg) (sv_store sv) = (out, s')" by fastforce
  note law = heartbeat_law [OF assms(1) call]
  have "on_beat ops cfg env (ws, sv) =
      Some (if registered (sv_store sv) (wc_id cfg) then ws else ws\<lparr>ws_beat := BeatMissing\<rparr>, sv\<lparr>sv_store := s'\<rparr>)"
    using law assms(2) by (auto simp: on_beat_def call_store_def call)
  with law that show thesis by simp
qed

lemma reregister_restores:
  assumes "inv (sv_store sv)" and "ws_beat ws = BeatMissing"
  obtains sv1 where "on_reregister ops cfg env now (ws, sv) = Some (ws\<lparr>ws_beat := BeatWaiting\<rparr>, sv1)"
    "inv (sv_store sv1)" "view (sv_store sv1) = view (sv_store sv)" "registered (sv_store sv1) (wc_id cfg)"
proof -
  obtain out s' where call: "so_register_worker ops env (worker_of_config cfg now) (sv_store sv) = (out, s')"
    by fastforce
  note law = register_law [OF assms(1) call]
  have "on_reregister ops cfg env now (ws, sv) = Some (ws\<lparr>ws_beat := BeatWaiting\<rparr>, sv\<lparr>sv_store := s'\<rparr>)"
    using law assms(2) by (auto simp: on_reregister_def call_store_def call)
  with law that show thesis by (simp add: worker_of_config_def)
qed

end

section \<open>\<open>PgStore\<close> meets the contract\<close>

definition pg_registered :: "'j db \<Rightarrow> uuid \<Rightarrow> bool" where
  "pg_registered db w \<longleftrightarrow> worker_of w db \<noteq> None"

lemma job_of_renew_set:
  assumes "has_status r s"
  shows "job_of (renew_set now secs r) =
    (job_of r)\<lparr>j_lease_expires_at := Some (now + interval_secs secs), j_updated_at := now\<rparr>"
proof -
  have "has_status (renew_set now secs r) s" using assms by (simp add: renew_set_def)
  then show ?thesis
    using assms by (simp add: job_of_def into_job_def renew_set_def)
qed

lemma pg_renew_law:
  assumes "store_ok db" and "renew_lease env i w secs db = (out, db')"
  shows "store_ok db' \<and>
    (if leased_to w (pg_view db i)
     then out = Ok () \<and> (\<exists>u. pg_view db' = (pg_view db)(i \<mapsto>
       (the (pg_view db i))\<lparr>j_lease_expires_at := Some (pe_now env + interval_secs secs), j_updated_at := u\<rparr>))
     else (\<exists>e. out = Err e) \<and> db' = db)"
proof
  show "store_ok db'" using store_ok_exec [OF assms(1), of "RenewLease i w secs" env] assms(2) by simp
  have ok: "db_ok db" using assms(1) by simp
  show "if leased_to w (pg_view db i)
     then out = Ok () \<and> (\<exists>u. pg_view db' = (pg_view db)(i \<mapsto>
       (the (pg_view db i))\<lparr>j_lease_expires_at := Some (pe_now env + interval_secs secs), j_updated_at := u\<rparr>))
     else (\<exists>e. out = Err e) \<and> db' = db"
  proof (cases "leased_to w (pg_view db i)")
    case True
    then obtain r where r: "row_of i db = Some r" "held_by i w r" by (auto simp: pg_leased_to [OF ok])
    have "out = Ok ()" "db' = update_job i (renew_set (pe_now env) secs) db"
      using assms(2) r by (auto simp: renew_lease_eq [OF ok])
    moreover have "pg_view (update_job i (renew_set (pe_now env) secs) db) =
        (pg_view db)(i \<mapsto> job_of (renew_set (pe_now env) secs r))"
      by (rule pg_view_update_job [OF _ r(1)]) simp
    ultimately show ?thesis
      using True r job_of_renew_set [of r Processing "pe_now env" secs]
      by (auto simp: pg_view_def held_by_def)
  next
    case False
    then have "\<not> held_by i w r" if "row_of i db = Some r" for r
      using that by (auto simp: pg_leased_to [OF ok])
    with False assms(2) show ?thesis
      by (auto simp: renew_lease_eq [OF ok] split: option.splits)
  qed
qed

lemma pg_lease_law:
  assumes "store_ok db" and "lease_next env w qs secs db = (out, db')"
  shows "store_ok db' \<and>
    (case out of
       Ok None \<Rightarrow> db' = db
     | Ok (Some j) \<Rightarrow> pg_view db' = (pg_view db)(j_id j \<mapsto> j) \<and> j_queue j \<in> set qs \<and>
         lease_until w (pe_now env + interval_secs secs) (Some j) \<and>
         (\<exists>j0. pg_view db (j_id j) = Some j0 \<and> is_leaseable (j_status j0) \<and> j_job_type j = j_job_type j0 \<and>
           j_payload j = j_payload j0 \<and> j_attempts j = j_attempts j0 + 1)
     | Err e \<Rightarrow> pg_view db' = pg_view db
     | Panic \<Rightarrow> False)"
proof
  show "store_ok db'" using store_ok_exec [OF assms(1), of "LeaseNext w qs secs" env] assms(2) by simp
  have ok: "db_ok db" using assms(1) by simp
  show "case out of
       Ok None \<Rightarrow> db' = db
     | Ok (Some j) \<Rightarrow> pg_view db' = (pg_view db)(j_id j \<mapsto> j) \<and> j_queue j \<in> set qs \<and>
         lease_until w (pe_now env + interval_secs secs) (Some j) \<and>
         (\<exists>j0. pg_view db (j_id j) = Some j0 \<and> is_leaseable (j_status j0) \<and> j_job_type j = j_job_type j0 \<and>
           j_payload j = j_payload j0 \<and> j_attempts j = j_attempts j0 + 1)
     | Err e \<Rightarrow> pg_view db' = pg_view db
     | Panic \<Rightarrow> False"
  proof (cases "lease_candidate env qs db")
    case None
    then show ?thesis using assms(2) by (auto simp: lease_next_eq [OF ok])
  next
    case (Some c)
    let ?f = "lease_set (pe_now env) w secs"
    have c: "row_of (r_id c) db = Some c" "due env qs c"
      using lease_candidate_SomeD(1,2) [OF Some] by (simp_all add: db_ok_find [OF ok] lease_eligible_def due_def)
    note row = db_ok_row_of [OF ok c(1)]
    note as = leased_as_lease_set [of "pe_now env" w secs c, unfolded leased_as_def]
    have out: "out = Ok (Some (job_of (?f c)))" and jobs: "jobs db' = jobs (update_job (r_id c) ?f db)"
      using assms(2) Some by (auto simp: lease_next_eq [OF ok] Let_def)
    have "pg_view db' = (pg_view db)(r_id c \<mapsto> job_of (?f c))"
      using pg_view_jobs [OF jobs] pg_view_update_job [of ?f "r_id c" db c] c(1) by simp
    moreover have "lease_until w (pe_now env + interval_secs secs) (Some (job_of (?f c)))"
      using as by (simp add: lease_until_def leased_to_def interval_secs_def usecs_per_sec_def)
    moreover have "j_queue (job_of (?f c)) \<in> set qs" using as c(2) by (simp add: due_def)
    moreover have "is_leaseable (j_status (job_of c))"
      using due_status [OF c(2) row] by (auto simp: is_leaseable_def)
    ultimately show ?thesis
      unfolding out
      using as job_of_fields(3,4,9) [OF status_of_row [OF row]] c(1) by (auto simp: pg_view_def)
  qed
qed

lemma pg_heartbeat_law:
  assumes "store_ok db" and "heartbeat env w db = (out, db')"
  shows "store_ok db' \<and> pg_view db' = pg_view db \<and> out = Ok (pg_registered db w) \<and>
    pg_registered db' = pg_registered db"
proof -
  have "out = Ok (worker_of w db \<noteq> None)" "worker_of v db' = None \<longleftrightarrow> worker_of v db = None" for v
    using heartbeat_eq(1) [of env w db] heartbeat_eq(2) [of v env w db] assms(2) by auto
  moreover have "jobs db' = jobs db" using assms(2) by (auto simp: heartbeat_def)
  moreover have "store_ok db'" using store_ok_exec [OF assms(1), of "Heartbeat w" env] assms(2) by simp
  ultimately show ?thesis by (auto simp: pg_registered_def fun_eq_iff pg_view_def)
qed

lemma pg_register_law:
  assumes "store_ok db" and "register_worker env wk db = (out, db')"
  shows "store_ok db' \<and> pg_view db' = pg_view db \<and> out = Ok () \<and>
    pg_registered db' = (pg_registered db)(w_id wk := True)"
proof -
  have "worker_of v db' = None \<longleftrightarrow> v \<noteq> w_id wk \<and> worker_of v db = None" for v
    using worker_of_register [of v env wk db] assms(2) by auto
  moreover have "jobs db' = jobs db" "out = Ok ()"
    using assms(2) by (auto simp: register_worker_def split: if_splits)
  moreover have "store_ok db'" using store_ok_exec [OF assms(1), of "RegisterWorker wk" env] assms(2) by simp
  ultimately show ?thesis by (auto simp: pg_registered_def fun_eq_iff pg_view_def)
qed

lemma pg_deregister_law:
  assumes "store_ok db" and "deregister_worker w db = (out, db')"
  shows "store_ok db' \<and> pg_view db' = pg_view db \<and> out = Ok () \<and>
    pg_registered db' = (pg_registered db)(w := False)"
proof -
  have ok: "db_ok db" using assms(1) by simp
  have "worker_of v db' = None \<longleftrightarrow> v = w \<or> worker_of v db = None" for v
    using worker_of_deregister [OF ok, of v w] assms(2) by auto
  moreover have "jobs db' = jobs db" "out = Ok ()" using assms(2) by (auto simp: deregister_worker_def)
  moreover have "store_ok db'" using store_ok_exec [OF assms(1), of "DeregisterWorker w" undefined] assms(2) by simp
  ultimately show ?thesis by (auto simp: pg_registered_def fun_eq_iff pg_view_def)
qed

interpretation pgl: leasing_store pg_store store_ok pg_view pe_now pg_registered
proof unfold_locales
qed (rule pg_lease_law pg_renew_law pg_heartbeat_law pg_register_law pg_deregister_law, assumption,
    simp add: pg_store_def)+

end
