(* ===== verification/Worker_Tasks.thy ===== *)
theory Worker_Tasks
  imports Worker_System Lease_Api
begin

text \<open>
  The tasks of a worker along a run of the system: a task keeps its job, and what it reports is what the
  handler of the job's type returned within the job's timeout.
\<close>

section \<open>A task keeps its job\<close>

definition descends :: "nat \<Rightarrow> 'j worker_state \<Rightarrow> 'j worker_state \<Rightarrow> bool" where
  "descends k ws ws' \<longleftrightarrow>
    ws_next ws \<le> ws_next ws' \<and>
    (\<forall>u. task_at k ws' = Some u \<longrightarrow> (\<exists>t. task_at k ws = Some t \<and> tk_job u = tk_job t))"

lemma descends_refl [simp]: "descends k ws ws"
  by (simp add: descends_def)

lemma descendsD: "descends k ws ws' \<Longrightarrow> task_at k ws' = Some u \<Longrightarrow> task_at k ws = Some t \<Longrightarrow> tk_job u = tk_job t"
  by (auto simp: descends_def)

lemma descends_trans: "descends k ws1 ws2 \<Longrightarrow> descends k ws2 ws3 \<Longrightarrow> descends k ws1 ws3"
  by (fastforce simp: descends_def)

lemma descends_same_tasks:
  "ws_tasks ws' = ws_tasks ws \<Longrightarrow> ws_next ws' = ws_next ws \<Longrightarrow> descends k ws ws'"
  by (simp add: descends_def task_at_def)

lemma find_by_filtered:
  "distinct (map k rows) \<Longrightarrow> find_by k x (delete_where p rows) = Some r \<Longrightarrow> find_by k x rows = Some r"
  by (simp add: find_by_distinct distinct_map_delete_where)

lemma descends_delete:
  assumes "distinct (map tk_id (ws_tasks ws))" and "ws_tasks ws' = delete_where p (ws_tasks ws)"
    and "ws_next ws' = ws_next ws"
  shows "descends k ws ws'"
  using assms find_by_filtered [OF assms(1)] by (auto simp: descends_def task_at_def)

lemma descends_update:
  assumes "\<And>t. tk_id (f t) = tk_id t" and "\<And>t. tk_job (f t) = tk_job t"
    and "ws_tasks ws' = update_where p f (ws_tasks ws)" and "ws_next ws' = ws_next ws"
  shows "descends k ws ws'"
  using assms by (auto simp: descends_def task_at_def find_by_update_where)

lemma descends_spawn:
  assumes "k < ws_next ws"
  shows "descends k ws (spawn job ws)"
  using assms by (auto simp: descends_def task_at_def spawn_def find_by_append split: option.splits if_splits)

lemma descends_advance:
  assumes "distinct (map tk_id (ws_tasks ws))"
  shows "descends j ws (advance k st ws)" "descends j ws (finish k ws)" "descends j ws (drop_task k ws)"
proof -
  show drop: "descends j ws (drop_task k ws)"
    by (rule descends_delete [OF assms]) (simp_all add: drop_task_def release_def)
  have "descends j ws (ws\<lparr>ws_tasks := update_where (\<lambda>t. tk_id t = k) (\<lambda>t. t\<lparr>tk_stage := st\<rparr>) (ws_tasks ws)\<rparr>)" for st
    by (rule descends_update [where f = "\<lambda>t. t\<lparr>tk_stage := st\<rparr>"]) simp_all
  with drop show adv: "descends j ws (advance k st ws)" for st
    by (simp add: advance_def split: option.splits)
  have "descends j ws (release (advance k Finished ws))"
    using adv [of Finished] by (simp add: descends_def release_def task_at_def)
  with drop show "descends j ws (finish k ws)"
    by (simp add: finish_def split: option.splits)
qed

lemma descends_reap: "distinct (map tk_id (ws_tasks ws)) \<Longrightarrow> descends k ws (reap_tasks ws)"
  by (rule descends_delete) (simp_all add: reap_tasks_def)

lemma descends_abort_all: "descends k ws (abort_all ws)"
  by (rule descends_update [where f = "\<lambda>t. t\<lparr>tk_aborted := True\<rparr>"]) (simp_all add: abort_all_def)

lemma descends_lease:
  assumes "worker_ok n ws" and "k < ws_next ws" and "on_lease ops cfg env (ws, sv) = Some (ws', sv')"
  shows "descends k ws ws'"
proof -
  let ?spawned = "\<lambda>job. spawn job (ws\<lparr>ws_phase := Acquiring\<rparr>)"
  have leasing: "ws_phase ws = Leasing" using assms(3) by (auto simp: on_lease_def split: if_splits)
  have "descends k ws (?spawned job)" for job
    by (rule descends_trans [OF descends_same_tasks descends_spawn]) (simp_all add: assms(2))
  moreover have "descends k (?spawned job) (reap_tasks (?spawned job))" for job
    by (rule descends_reap) (rule worker_okD(1) [OF worker_ok_spawn [OF assms(1) leasing]])
  ultimately have some: "descends k ws (reap_tasks (?spawned job))" for job
    using descends_trans by blast
  have "descends k ws (abort_all (release (ws\<lparr>ws_phase := Crashed\<rparr>)))"
    by (rule descends_trans [OF descends_same_tasks descends_abort_all]) (simp_all add: release_def)
  moreover have "descends k ws (release (ws\<lparr>ws_phase := Polling\<rparr>))"
    by (rule descends_same_tasks) (simp_all add: release_def)
  ultimately show ?thesis
    using assms(3) leasing some
    by (auto simp: on_lease_def split: prod.splits outcome.splits option.splits)
qed

lemma descends_quiet:
  assumes "worker_ok n ws"
  shows "on_permit (ws, sv) = Some (ws', sv') \<Longrightarrow> descends k ws ws'"
    and "on_poll_elapsed (ws, sv) = Some (ws', sv') \<Longrightarrow> descends k ws ws'"
    and "on_break (ws, sv) = Some (ws', sv') \<Longrightarrow> descends k ws ws'"
    and "on_join_next j (ws, sv) = Some (ws', sv') \<Longrightarrow> descends k ws ws'"
    and "on_drained (ws, sv) = Some (ws', sv') \<Longrightarrow> descends k ws ws'"
    and "on_grace_elapsed (ws, sv) = Some (ws', sv') \<Longrightarrow> descends k ws ws'"
    and "on_deregister ops cfg env (ws, sv) = Some (ws', sv') \<Longrightarrow> descends k ws ws'"
    and "on_dropped j (ws, sv) = Some (ws', sv') \<Longrightarrow> descends k ws ws'"
    and "on_beat ops cfg env (ws, sv) = Some (ws', sv') \<Longrightarrow> descends k ws ws'"
    and "on_reregister ops cfg env now (ws, sv) = Some (ws', sv') \<Longrightarrow> descends k ws ws'"
    and "on_beat_break (ws, sv) = Some (ws', sv') \<Longrightarrow> descends k ws ws'"
proof -
  note d = worker_okD(1) [OF assms]
  show "on_permit (ws, sv) = Some (ws', sv') \<Longrightarrow> descends k ws ws'"
    "on_break (ws, sv) = Some (ws', sv') \<Longrightarrow> descends k ws ws'"
    "on_drained (ws, sv) = Some (ws', sv') \<Longrightarrow> descends k ws ws'"
    "on_deregister ops cfg env (ws, sv) = Some (ws', sv') \<Longrightarrow> descends k ws ws'"
    "on_beat ops cfg env (ws, sv) = Some (ws', sv') \<Longrightarrow> descends k ws ws'"
    "on_reregister ops cfg env now (ws, sv) = Some (ws', sv') \<Longrightarrow> descends k ws ws'"
    "on_beat_break (ws, sv) = Some (ws', sv') \<Longrightarrow> descends k ws ws'"
    by (auto intro!: descends_same_tasks simp: on_permit_def on_break_def on_drained_def on_deregister_def
        on_beat_def on_reregister_def on_beat_break_def abort_beat_def
        split: if_splits prod.splits outcome.splits bool.splits)
  show "on_poll_elapsed (ws, sv) = Some (ws', sv') \<Longrightarrow> descends k ws ws'"
    by (auto intro!: descends_delete [OF d] simp: on_poll_elapsed_def reap_tasks_def split: if_splits)
  show "on_join_next j (ws, sv) = Some (ws', sv') \<Longrightarrow> descends k ws ws'"
    by (auto intro!: descends_delete [OF d] simp: on_join_next_def split: option.splits if_splits)
  show "on_dropped j (ws, sv) = Some (ws', sv') \<Longrightarrow> descends k ws ws'"
    by (auto simp: descends_advance(3) [OF d] on_dropped_def split: option.splits if_splits)
  show "on_grace_elapsed (ws, sv) = Some (ws', sv') \<Longrightarrow> descends k ws ws'"
    by (auto intro!: descends_update [where f = "\<lambda>t. t\<lparr>tk_aborted := True\<rparr>"]
        simp: on_grace_elapsed_def abort_beat_def abort_all_def split: if_splits)
qed

lemma descends_step:
  assumes "worker_ok n ws" and "k < ws_next ws" and "worker_step ops reg cfg now ev (ws, sv) = Some (ws', sv')"
  shows "descends k ws ws'"
proof (cases ev)
  case (Leased env)
  with assms show ?thesis by (simp add: descends_lease)
next
  case (Renewed j env)
  with assms descends_advance [OF worker_okD(1) [OF assms(1)]] show ?thesis by (auto elim!: on_renewE)
next
  case (Handled j took d)
  with assms descends_advance [OF worker_okD(1) [OF assms(1)]] show ?thesis by (auto elim!: on_handledE)
next
  case (Reported j env)
  with assms descends_advance [OF worker_okD(1) [OF assms(1)]] show ?thesis by (auto elim!: on_reportE)
next
  case TokenCancelled
  with assms(3) show ?thesis by (auto intro!: descends_same_tasks)
qed (use assms(3) descends_quiet [OF assms(1)] in auto)

lemma system_stepE:
  assumes "system_step reg cfg now e (ws, sv) = Some (ws', sv')"
  obtains ev where "e = Own ev" "worker_step pg_store reg cfg now ev (ws, sv) = Some (ws', sv')"
    | env op where "e = Other (env, op)" "ws' = ws" "sv' = sv\<lparr>sv_store := exec env op (sv_store sv)\<rparr>"
  using assms by (cases e) auto

lemma descends_run:
  assumes "system_run reg cfg now es (ws, sv) = Some (ws', sv')" and "worker_ok n ws" and "k < ws_next ws"
  shows "descends k ws ws'"
  using assms
proof (induction es arbitrary: ws sv)
  case (Cons e es)
  then obtain ws1 sv1 where step: "system_step reg cfg now e (ws, sv) = Some (ws1, sv1)"
    "system_run reg cfg now es (ws1, sv1) = Some (ws', sv')"
    by (auto simp: bind_eq_Some_conv)
  have "descends k ws ws1 \<and> worker_ok n ws1"
    using step(1)
  proof (cases rule: system_stepE)
    case (1 ev)
    then show ?thesis using descends_step [OF Cons.prems(2,3)] worker_ok_step [OF Cons.prems(2)] by blast
  qed (simp add: Cons.prems(2))
  with Cons.IH [OF step(2)] Cons.prems(3) show ?case
    using descends_trans by (metis descends_def order_less_le_trans)
qed simp

section \<open>What a task reports\<close>

text \<open>The outcome a task is about to report is the one its handler gave.\<close>

fun honest_stage :: "'j handler_registry \<Rightarrow> 'j job \<Rightarrow> 'j stage \<Rightarrow> bool" where
  "honest_stage reg job (Reporting outcome d) \<longleftrightarrow>
    (\<exists>took. took_ok reg job took \<and> handler_outcome reg job took = Ok outcome)"
| "honest_stage reg job _ \<longleftrightarrow> True"

definition honest :: "'j handler_registry \<Rightarrow> 'j worker_state \<Rightarrow> bool" where
  "honest reg ws \<longleftrightarrow> (\<forall>t \<in> set (ws_tasks ws). honest_stage reg (tk_job t) (tk_stage t))"

lemma honest_subset: "honest reg ws \<Longrightarrow> set (ws_tasks ws') \<subseteq> set (ws_tasks ws) \<Longrightarrow> honest reg ws'"
  by (auto simp: honest_def)

lemma honest_drop: "honest reg ws \<Longrightarrow> honest reg (drop_task k ws)"
  by (rule honest_subset) (auto simp: drop_task_def release_def)

lemma honest_advance:
  assumes "honest reg ws" and "worker_ok n ws" and "task_at k ws = Some t" and "honest_stage reg (tk_job t) st"
  shows "honest reg (advance k st ws)"
proof -
  have "u = t" if "u \<in> set (ws_tasks ws)" "tk_id u = k" for u
    using that assms(3) distinct_key_eq [OF worker_okD(1) [OF assms(2)]] task_at_in by metis
  then have "honest reg (ws\<lparr>ws_tasks := update_where (\<lambda>t. tk_id t = k) (\<lambda>t. t\<lparr>tk_stage := st\<rparr>) (ws_tasks ws)\<rparr>)"
    using assms(1,4) by (auto simp: honest_def set_update_where)
  with assms(3) honest_drop [OF assms(1)] show ?thesis by (simp add: advance_def)
qed

lemma honest_finish:
  assumes "honest reg ws" and "worker_ok n ws" and "task_at k ws = Some t"
  shows "honest reg (finish k ws)"
proof -
  have "honest reg (release (advance k Finished ws))"
    using honest_advance [OF assms, of Finished] by (simp add: honest_def release_def)
  with assms(3) honest_drop [OF assms(1)] show ?thesis by (simp add: finish_def)
qed

lemma honest_spawn: "honest reg ws \<Longrightarrow> honest reg (spawn job ws)"
  by (simp add: honest_def spawn_def)

lemma honest_abort_all: "honest reg ws \<Longrightarrow> honest reg (abort_all ws)"
  by (auto simp: honest_def abort_all_def set_update_where)

lemma honest_same: "ws_tasks ws' = ws_tasks ws \<Longrightarrow> honest reg ws' \<longleftrightarrow> honest reg ws"
  by (simp add: honest_def)

lemma honest_reap: "honest reg ws \<Longrightarrow> honest reg (reap_tasks ws)"
  by (rule honest_subset) (auto simp: reap_tasks_def)

lemma honest_lease:
  assumes "honest reg ws" and "on_lease ops cfg env (ws, sv) = Some (ws', sv')"
  shows "honest reg ws'"
proof -
  have phase: "honest reg (ws\<lparr>ws_phase := p\<rparr>)" "honest reg (release (ws\<lparr>ws_phase := p\<rparr>))" for p
    using assms(1) by (simp_all add: honest_def release_def)
  show ?thesis
    using assms(2) phase
    by (auto simp: on_lease_def intro!: honest_reap honest_spawn honest_abort_all
        split: if_splits prod.splits outcome.splits option.splits)
qed

lemma honest_quiet:
  assumes "honest reg ws"
  shows "on_permit (ws, sv) = Some (ws', sv') \<Longrightarrow> honest reg ws'"
    and "on_poll_elapsed (ws, sv) = Some (ws', sv') \<Longrightarrow> honest reg ws'"
    and "on_break (ws, sv) = Some (ws', sv') \<Longrightarrow> honest reg ws'"
    and "on_join_next j (ws, sv) = Some (ws', sv') \<Longrightarrow> honest reg ws'"
    and "on_drained (ws, sv) = Some (ws', sv') \<Longrightarrow> honest reg ws'"
    and "on_grace_elapsed (ws, sv) = Some (ws', sv') \<Longrightarrow> honest reg ws'"
    and "on_deregister ops cfg env (ws, sv) = Some (ws', sv') \<Longrightarrow> honest reg ws'"
    and "on_dropped j (ws, sv) = Some (ws', sv') \<Longrightarrow> honest reg ws'"
    and "on_beat ops cfg env (ws, sv) = Some (ws', sv') \<Longrightarrow> honest reg ws'"
    and "on_reregister ops cfg env now (ws, sv) = Some (ws', sv') \<Longrightarrow> honest reg ws'"
    and "on_beat_break (ws, sv) = Some (ws', sv') \<Longrightarrow> honest reg ws'"
  using assms honest_drop [OF assms]
  by (auto simp: on_permit_def on_break_def on_drained_def on_deregister_def on_beat_def on_reregister_def
      on_beat_break_def abort_beat_def on_poll_elapsed_def reap_tasks_def on_join_next_def on_dropped_def
      on_grace_elapsed_def abort_all_def honest_def set_update_where
      split: if_splits prod.splits outcome.splits bool.splits option.splits)

lemma honest_step:
  assumes "worker_ok n ws" and "honest reg ws" and "worker_step ops reg cfg now ev (ws, sv) = Some (ws', sv')"
  shows "honest reg ws'"
proof (cases ev)
  case (Leased env)
  with assms show ?thesis by (simp add: honest_lease)
next
  case (Renewed j env)
  with assms(3) honest_advance [OF assms(2,1), of j _ Handling] honest_finish [OF assms(2,1)]
  show ?thesis by (auto elim!: on_renewE)
next
  case (Handled j took d)
  then have "on_handled reg j took d (ws, sv) = Some (ws', sv')" using assms(3) by simp
  then show ?thesis
  proof (rule on_handledE)
    fix t outcome
    assume "task_at j ws = Some t" "took_ok reg (tk_job t) took" "handler_outcome reg (tk_job t) took = Ok outcome"
      "ws' = advance j (Reporting outcome d) ws"
    then show ?thesis using honest_advance [OF assms(2,1), of j t "Reporting outcome d"] by auto
  qed (use honest_finish [OF assms(2,1)] in blast)
next
  case (Reported j env)
  with assms(3) honest_finish [OF assms(2,1)] show ?thesis by (auto elim!: on_reportE)
next
  case TokenCancelled
  with assms(2,3) show ?thesis by (auto simp: honest_def)
qed (use assms(3) honest_quiet [OF assms(2)] in auto)

text \<open>The invariants hold along every run.\<close>

lemma honest_run:
  assumes "system_run reg cfg now es (ws, sv) = Some (ws', sv')" and "worker_ok n ws" and "honest reg ws"
  shows "worker_ok n ws' \<and> honest reg ws'"
  using assms
proof (induction es arbitrary: ws sv)
  case (Cons e es)
  then obtain ws1 sv1 where step: "system_step reg cfg now e (ws, sv) = Some (ws1, sv1)"
    "system_run reg cfg now es (ws1, sv1) = Some (ws', sv')"
    by (auto simp: bind_eq_Some_conv)
  have "worker_ok n ws1 \<and> honest reg ws1"
    using step(1)
  proof (cases rule: system_stepE)
    case (1 ev)
    then show ?thesis using honest_step [OF Cons.prems(2,3)] worker_ok_step [OF Cons.prems(2)] by blast
  qed (simp add: Cons.prems(2,3))
  with Cons.IH [OF step(2)] show ?case by blast
qed simp

end
