(* ===== verification/Service_Properties.thy ===== *)
theory Service_Properties
  imports Queue_Service
begin

text \<open>
  What callers of \<open>QueueService\<close> over \<open>PgStore\<close> can rely on, from the lemmas of the store contract and its
  interpretation \<open>pg\<close>.
\<close>

section \<open>Submission through the service\<close>

abbreviation reached :: "'j call list \<Rightarrow> metric_event list \<Rightarrow> 'j db queue_service" where
  "reached calls ms \<equiv> \<lparr>sv_store = run calls empty_db, sv_metrics = ms\<rparr>"

text \<open>
  Submission end to end.  A request outside the documented limits is refused with a validation error and
  leaves store and metrics untouched.  An acceptable request returns a job that \<open>get_job\<close> then finds under its
  id; no other job is affected.  A fresh job carries the request's queue, type, payload, priority and
  requested start, and counts once in \<open>jobs_submitted\<close>; a repeated idempotency key returns the existing job
  of that queue and counts nothing.  The only other outcome is an internal storage error, after which
  every job is as before.
\<close>

theorem service_submit_correct:
  assumes "calls_ok calls" and "chrono_exact add" and "new_job_typed new"
  shows "let sv = reached calls ms; (out, sv') = svc_submit pg_store add env now new sv
    in (\<not> valid_request new \<longrightarrow> (\<exists>m. out = Err (Validation m)) \<and> sv' = sv) \<and>
      (valid_request new \<and> schedulable add new now \<longrightarrow>
        (case out of
           Ok sub \<Rightarrow>
             (\<forall>env' i. fst (svc_get_job pg_store env' i sv') =
               (if i = j_id (sub_job sub) then Ok (sub_job sub)
                else fst (svc_get_job pg_store env' i sv))) \<and>
             j_queue (sub_job sub) = n_queue new \<and>
             (if sub_created sub
              then fst (svc_get_job pg_store env (j_id (sub_job sub)) sv) =
                  Err (JobNotFound (j_id (sub_job sub))) \<and>
                j_job_type (sub_job sub) = n_job_type new \<and> j_payload (sub_job sub) = n_payload new \<and>
                j_priority (sub_job sub) = n_priority new \<and>
                j_run_at (sub_job sub) = requested_run_at new now \<and>
                j_status (sub_job sub) = (if now < requested_run_at new now then Scheduled else Queued) \<and>
                sv_metrics sv' = ms @ [JobsSubmitted (n_queue new)]
              else j_idempotency_key (sub_job sub) = n_idempotency_key new \<and> sv_metrics sv' = ms)
         | Err e \<Rightarrow> category e = Internal \<and> sv_metrics sv' = ms \<and>
             (\<forall>env' i. fst (svc_get_job pg_store env' i sv') = fst (svc_get_job pg_store env' i sv))
         | Panic \<Rightarrow> False))"
proof -
  let ?sv = "reached calls ms"
  have inv: "store_ok (sv_store ?sv)" by (simp add: store_ok_reached [OF assms(1)])
  obtain out sv' where run: "svc_submit pg_store add env now new ?sv = (out, sv')" by fastforce
  have bad: "(\<exists>m. out = Err (Validation m)) \<and> sv' = ?sv" if "\<not> valid_request new"
    using normalized_invalid [OF that, of add now] run by (auto simp: svc_submit_def)
  show ?thesis
  proof (cases "valid_request new \<and> schedulable add new now")
    case True
    then obtain z where z: "normalized add new now = Ok z" "normalized_ok z" "normal_form_of new now z"
      using normalized_accepts [OF assms(2,3)] by metis
    note spec = pg.svc_submit_accepted [OF inv z(1,2) run]
    then have inv': "store_ok (sv_store sv')" by simp
    show ?thesis
      using spec z(3) bad True unfolding Let_def run prod.case
      by (auto simp: pg.svc_get_job_eq [OF inv] pg.svc_get_job_eq [OF inv'] submitted_as_def
          normal_form_of_def split: outcome.splits if_splits)
  next
    case False
    with bad show ?thesis unfolding Let_def run by auto
  qed
qed

theorem service_submit_correct_witness:
  "\<exists>sub sv'. svc_submit pg_store sample_add (sample_env 1000 5) 1000 sample_request
      (reached sample_calls []) = (Ok sub, sv') \<and>
    fst (svc_get_job pg_store (sample_env 1001 0) (j_id (sub_job sub)) sv') = Ok (sub_job sub)"
proof -
  have calls: "calls_ok sample_calls" by code_simp
  have sched: "schedulable sample_add sample_request 1000"
    by (simp add: schedulable_def sample_request_def sample_add_def)
  obtain out sv' where run: "svc_submit pg_store sample_add (sample_env 1000 5) 1000 sample_request
      (reached sample_calls []) = (out, sv')" by fastforce
  have "is_ok (fst (svc_submit pg_store sample_add (sample_env 1000 5) 1000 sample_request
      (reached sample_calls [])))" by code_simp
  then obtain sub where "out = Ok sub" by (auto simp: run is_ok_iff)
  with service_submit_correct [OF calls sample_add_exact sample_request_typed,
      of "[]" "sample_env 1000 5" 1000] sample_request_valid sched
  show ?thesis by (simp add: run Let_def)
qed

section \<open>Reports through the service\<close>

text \<open>
  C36. Reporting an outcome end to end.  If the worker still holds the job, the outcome is applied: a success
  completes it with its result, a failure or a timeout makes it retry, dead-letter or fail according to
  its attempts; the job returned is the one \<open>get_job\<close> finds afterwards, and no other job changes.  If the
  lease was lost, the report is refused and the store is unchanged.  The metrics sent are exactly those
  of \<open>report_events\<close>: a completion, a retry and a dead-lettering are counted only when the store applied them,
  while \<open>jobs_failed\<close> and \<open>jobs_timed_out\<close> count every failed report, also the refused ones.
\<close>

theorem service_report_correct:
  assumes "calls_ok calls"
  shows "let sv = reached calls ms; s = sv_store sv; i = j_id job;
      (out, sv') = svc_report_outcome pg_store env job w outcome d sv
    in (if leased_to w (pg_view s i)
        then \<exists>j. out = Ok j \<and> reported_as outcome (the (pg_view s i)) j \<and>
          (\<forall>env' k. fst (svc_get_job pg_store env' k sv') =
            (if k = i then Ok j else fst (svc_get_job pg_store env' k sv))) \<and>
          sv_metrics sv' = ms @ report_events outcome (j_queue job) d (Some j)
        else is_job_refusal i (pg_view s i) out \<and> sv_store sv' = s \<and>
          sv_metrics sv' = ms @ report_events outcome (j_queue job) d None)"
proof -
  let ?sv = "reached calls ms"
  have inv: "store_ok (sv_store ?sv)" by (simp add: store_ok_reached [OF assms])
  obtain out sv' where run: "svc_report_outcome pg_store env job w outcome d ?sv = (out, sv')"
    by fastforce
  note spec = pg.svc_report_outcome_eq [OF inv run]
  then have inv': "store_ok (sv_store sv')" by simp
  show ?thesis
    using spec unfolding Let_def run prod.case
    by (auto simp: pg.svc_get_job_eq [OF inv] pg.svc_get_job_eq [OF inv'] split: if_splits)
qed

theorem service_report_correct_witness:
  "\<exists>j sv'. svc_report_outcome pg_store (sample_env 9 0) (job_of (sample_row 1 sample_calls)) 8
      (Success (Some ())) 2 (reached sample_calls []) = (Ok j, sv') \<and>
    j_status j = Completed \<and> sv_metrics sv' = [ProcessingDuration 2, JobsCompleted ''q'']"
proof -
  let ?job = "job_of (sample_row 1 sample_calls)"
  have facts: "calls_ok sample_calls" "j_id ?job = 1" "j_queue ?job = ''q''"
    "leased_to 8 (pg_view (run sample_calls empty_db) 1)"
    by code_simp+
  obtain out sv' where run: "svc_report_outcome pg_store (sample_env 9 0) ?job 8 (Success (Some ())) 2
      (reached sample_calls []) = (out, sv')" by fastforce
  from service_report_correct [OF facts(1), of "[]" ?job "sample_env 9 0" 8 "Success (Some ())" 2] facts(2-4)
  show ?thesis by (auto simp: run Let_def reported_as_def report_events_def)
qed

section \<open>Inspection through the service\<close>

lemma pg_listed_job:
  assumes "db_ok db" and "r \<in> set (matching_jobs q (map_option as_str st) t db)"
  shows "null_or_eq q (j_queue (job_of r)) \<and> null_or_eq st (status_of r) \<and>
    null_or_eq t (j_job_type (job_of r)) \<and> pg_view db (j_id (job_of r)) = Some (job_of r)"
proof -
  have r: "r \<in> set (jobs db)" "null_or_eq q (r_queue r)"
    "null_or_eq (map_option as_str st) (r_status r)" "null_or_eq t (r_job_type r)"
    using assms(2) by (simp_all add: matching_jobs_def)
  have status: "has_status r (status_of r)" by (rule status_of_row [OF db_ok_row [OF assms(1) r(1)]])
  have "null_or_eq st (status_of r)" using r(3) status by (cases st) auto
  moreover have "row_of (r_id r) db = Some r" using r(1) by (simp add: db_ok_find [OF assms(1)])
  ultimately show ?thesis
    using r job_of_fields(1,2,3) [OF status] by (simp add: pg_view_def)
qed

lemma pg_list_jobs_total:
  assumes "db_ok (sv_store sv)"
  obtains js where "svc_list_jobs pg_store env f sv = (Ok js, sv)" and "length js \<le> 200"
    and "\<And>j. j \<in> set js \<Longrightarrow> null_or_eq (jf_queue f) (j_queue j) \<and>
      null_or_eq (jf_status f) (j_status j) \<and> null_or_eq (jf_job_type f) (j_job_type j) \<and>
      pg_view (sv_store sv) (j_id j) = Some j"
proof -
  obtain limit offset where b: "bounded f = (limit, offset)" by fastforce
  then have bounds: "0 \<le> limit" "limit \<le> 200" "0 \<le> offset" by (auto simp: bounded_def)
  let ?st = "map_option as_str (jf_status f)"
  let ?rows = "take (nat limit) (drop (nat offset)
    (matching_jobs (jf_queue f) ?st (jf_job_type f) (sv_store sv)))"
  have "list_jobs env (jf_queue f) ?st (jf_job_type f) limit offset (sv_store sv) = Ok (map job_of ?rows)"
    by (rule list_jobs_eq [OF assms bounds(1,3)])
  then have "svc_list_jobs pg_store env f sv = (Ok (map job_of ?rows), sv)"
    by (simp add: svc_list_jobs_def b call_store_def pg_store_def)
  moreover have "length (map job_of ?rows) \<le> 200" using bounds by simp
  moreover have rows: "set ?rows \<subseteq> set (matching_jobs (jf_queue f) ?st (jf_job_type f) (sv_store sv))"
    by (meson order_trans set_drop_subset set_take_subset)
  moreover have "null_or_eq (jf_queue f) (j_queue j) \<and> null_or_eq (jf_status f) (j_status j) \<and>
      null_or_eq (jf_job_type f) (j_job_type j) \<and> pg_view (sv_store sv) (j_id j) = Some j"
    if "j \<in> set (map job_of ?rows)" for j
  proof -
    from that obtain r where "j = job_of r" "r \<in> set ?rows" by auto
    with rows pg_listed_job [OF assms] show ?thesis by blast
  qed
  ultimately show ?thesis using that by blast
qed

lemma pg_list_dead_letter_total:
  obtains ds where "svc_list_dead_letter pg_store env q n sv = (Ok ds, sv)" and "length ds \<le> 500"
    and "\<And>d. d \<in> set ds \<Longrightarrow> d \<in> set (dead_letter_jobs (sv_store sv)) \<and> null_or_eq q (dl_queue d)"
proof
  let ?n = "max 1 (min 500 n)"
  let ?ds = "limit_rows ?n (order_by (\<lambda>d. - dl_dead_lettered_at d)
    (select_where (\<lambda>d. null_or_eq q (dl_queue d)) (dead_letter_jobs (sv_store sv))))"
  show "svc_list_dead_letter pg_store env q n sv = (Ok ?ds, sv)"
    by (simp add: svc_list_dead_letter_def call_store_def pg_store_def list_dead_letter_def)
  show "length ?ds \<le> 500" by (simp add: limit_rows_def)
  show "d \<in> set (dead_letter_jobs (sv_store sv)) \<and> null_or_eq q (dl_queue d)" if "d \<in> set ?ds" for d
    using in_set_limit_rowsD [OF that] by simp
qed

lemma pg_list_attempts_known:
  assumes "store_ok (sv_store sv)" and "row_of i (sv_store sv) \<noteq> None"
  shows "\<exists>as. svc_list_attempts pg_store env env' i sv = (Ok as, sv) \<and>
    mset as = mset (filter (\<lambda>a. a_job_id a = i) (job_attempts (sv_store sv)))"
  using assms
  by (simp add: svc_list_attempts_def call_store_def pg_store_def pg_get_job pg_view_def
      list_attempts_def order_by_def select_where_def)

text \<open>
  Listings through the service never fail, whatever the caller asks for: page sizes and offsets are
  clamped before they reach the store, a page has at most 200 jobs (500 dead letters), every job on it
  matches the filter, and the attempt history of an unknown job is \<open>JobNotFound\<close> while that of a known job
  lists exactly its attempts.
\<close>

theorem service_listings_total:
  assumes "calls_ok calls"
  shows "let db = run calls empty_db; sv = reached calls ms in
    (\<exists>js. svc_list_jobs pg_store env f sv = (Ok js, sv) \<and> length js \<le> 200 \<and>
      (\<forall>j. j \<in> set js \<longrightarrow> null_or_eq (jf_queue f) (j_queue j) \<and> null_or_eq (jf_status f) (j_status j) \<and>
        null_or_eq (jf_job_type f) (j_job_type j) \<and> pg_view db (j_id j) = Some j)) \<and>
    (\<exists>ds. svc_list_dead_letter pg_store env q n sv = (Ok ds, sv) \<and> length ds \<le> 500 \<and>
      (\<forall>d. d \<in> set ds \<longrightarrow> d \<in> set (dead_letter_jobs db) \<and> null_or_eq q (dl_queue d))) \<and>
    (if row_of i db = None then svc_list_attempts pg_store env env' i sv = (Err (JobNotFound i), sv)
     else \<exists>as. svc_list_attempts pg_store env env' i sv = (Ok as, sv) \<and>
       mset as = mset (filter (\<lambda>a. a_job_id a = i) (job_attempts db)))"
proof -
  let ?sv = "reached calls ms"
  have inv: "store_ok (sv_store ?sv)" by (simp add: store_ok_reached [OF assms])
  obtain js where "svc_list_jobs pg_store env f ?sv = (Ok js, ?sv)" "length js \<le> 200"
    "\<And>j. j \<in> set js \<Longrightarrow> null_or_eq (jf_queue f) (j_queue j) \<and> null_or_eq (jf_status f) (j_status j) \<and>
      null_or_eq (jf_job_type f) (j_job_type j) \<and> pg_view (run calls empty_db) (j_id j) = Some j"
    using pg_list_jobs_total [OF store_ok_db [OF inv], of env f] by auto
  moreover obtain ds where "svc_list_dead_letter pg_store env q n ?sv = (Ok ds, ?sv)" "length ds \<le> 500"
    "\<And>d. d \<in> set ds \<Longrightarrow> d \<in> set (dead_letter_jobs (run calls empty_db)) \<and> null_or_eq q (dl_queue d)"
    using pg_list_dead_letter_total [of env q n ?sv] by auto
  moreover have "if row_of i (run calls empty_db) = None
      then svc_list_attempts pg_store env env' i ?sv = (Err (JobNotFound i), ?sv)
      else \<exists>as. svc_list_attempts pg_store env env' i ?sv = (Ok as, ?sv) \<and>
        mset as = mset (filter (\<lambda>a. a_job_id a = i) (job_attempts (run calls empty_db)))"
    using pg.svc_list_attempts_missing [OF inv, of i env env'] pg_list_attempts_known [OF inv, of i env env']
    by (simp add: pg_view_def)
  ultimately show ?thesis unfolding Let_def by blast
qed

theorem service_listings_total_witness:
  "\<exists>js. svc_list_jobs pg_store (sample_env 9 0)
      \<lparr>jf_queue = None, jf_status = Some Processing, jf_job_type = None, jf_limit = Some (-5),
       jf_offset = Some (-1)\<rparr> (reached sample_calls []) = (Ok js, reached sample_calls []) \<and> length js \<le> 200"
proof -
  have "calls_ok sample_calls" by code_simp
  from service_listings_total [OF this, of "[]" "sample_env 9 0"
      "\<lparr>jf_queue = None, jf_status = Some Processing, jf_job_type = None, jf_limit = Some (-5),
       jf_offset = Some (-1)\<rparr>" None 0 0 "sample_env 9 0"]
  show ?thesis unfolding Let_def by blast
qed

end
