(* ===== verification/Worker_Properties.thy ===== *)
theory Worker_Properties
  imports Worker_Tasks Service_Properties
begin

text \<open>What a worker process guarantees on a store it shares with any other processes.\<close>

section \<open>A sample worker\<close>

text \<open>Two jobs are queued; the handler of their type succeeds at once.  Used to instantiate the theorems below.\<close>

definition sample_cfg :: worker_config where
  "sample_cfg = (default_worker_config 7)\<lparr>wc_queues := [''q''], wc_concurrency := 2\<rparr>"

definition sample_registry :: "unit handler_registry" where
  "sample_registry = register ''t'' (\<lambda>job. (0, Ok None)) registry_new"

definition sample_queue :: "unit call list" where
  "sample_queue = take 2 sample_calls"

definition cell_of :: "('j worker_state, queue_error) outcome \<times> 's queue_service \<Rightarrow> ('s, 'j) worker_cell" where
  "cell_of x = (case x of (Ok ws, sv) \<Rightarrow> (ws, sv) | (_, sv) \<Rightarrow> (undefined, sv))"

definition sample_worker :: "unit system" where
  "sample_worker = cell_of (worker_start pg_store 100 sample_cfg (sample_env 1 0) 0 (reached sample_queue []))"

abbreviation sample_run :: "unit system_event list \<Rightarrow> unit system \<Rightarrow> unit system" where
  "sample_run es c \<equiv> the (system_run sample_registry sample_cfg 0 es c)"

definition lease_events :: "unit system_event list" where
  "lease_events = [Own Permit, Own (Leased (sample_env 2 0)), Other (sample_env 3 0, LeaseNext 8 [''q''] 30)]"

definition rival_events :: "unit system_event list" where
  "rival_events = [Own (Handled 0 5000 0), Other (sample_env 31000000 0, RecoverExpired 100),
    Other (sample_env 32000000 0, LeaseNext 9 [''q''] 30)]"

lemma sample_worker_started:
  "worker_start pg_store 100 sample_cfg (sample_env 1 0) 0 (reached sample_queue []) =
    (Ok (fst sample_worker), snd sample_worker)"
  "calls_ok sample_queue" "0 \<le> wc_concurrency sample_cfg" "others_ok lease_events" "others_ok rival_events"
  by code_simp+

section \<open>Bounded concurrency\<close>

lemma worker_start_ok:
  assumes "worker_start pg_store m cfg env now (reached calls ms) = (Ok ws, sv)" and "calls_ok calls"
    and "0 \<le> wc_concurrency cfg"
  shows "worker_ok (wc_concurrency cfg) ws" "honest reg ws"
    "sv_store sv = run (calls @ [(env, RegisterWorker (worker_of_config cfg now))]) empty_db"
proof -
  let ?call = "call_store (so_register_worker pg_store env (worker_of_config cfg now)) (reached calls ms)"
  obtain out sv1 where call: "?call = (out, sv1)" by fastforce
  show "worker_ok (wc_concurrency cfg) ws" by (rule worker_ok_start [OF assms(1,3)])
  have "ws_tasks ws = []" "sv = sv1"
    using assms(1) by (cases out; auto simp: worker_start_def call split: if_splits)+
  with call_store_run [OF call] show "honest reg ws"
    "sv_store sv = run (calls @ [(env, RegisterWorker (worker_of_config cfg now))]) empty_db"
    by (simp_all add: honest_def pg_store_def)
qed

text \<open>The states of a worker on a shared store.\<close>

lemma worker_reached:
  assumes "calls_ok calls" and "worker_start pg_store m cfg env now (reached calls ms) = (Ok ws, sv)"
    and "0 \<le> wc_concurrency cfg" and "others_ok es" and "system_run reg cfg now es (ws, sv) = Some (ws', sv')"
  shows "worker_ok (wc_concurrency cfg) ws'" "honest reg ws'" "store_ok (sv_store sv')"
proof -
  note start = worker_start_ok [OF assms(2,1,3)]
  show "worker_ok (wc_concurrency cfg) ws'" "honest reg ws'"
    using honest_run [OF assms(5) start(1,2)] by auto
  have "calls_ok (calls @ [(env, RegisterWorker (worker_of_config cfg now))])" using assms(1) by simp
  then have "store_ok (sv_store sv)" unfolding start(3) by (rule store_ok_reached)
  then show "store_ok (sv_store sv')"
    unfolding system_run_store [OF assms(5)]
    using store_ok_run system_calls_ok [OF assms(4)] by blast
qed

text \<open>
  C16. A worker never executes more jobs at once than configured, and never loses a slot.  Along every run of
  a worker on a shared store, whatever the other processes do, the free permits, the jobs in flight and the lease
  call in progress add up to \<open>concurrency\<close>: jobs that finish, fail, panic, lose their lease or are
  aborted all give their slot back.  In particular a waiting worker gets a slot exactly when fewer
  jobs are in flight than configured.
\<close>

theorem worker_concurrency_bounded:
  assumes "calls_ok calls" and "worker_start pg_store m cfg env now (reached calls ms) = (Ok ws, sv)"
    and "0 \<le> wc_concurrency cfg" and "others_ok es" and "system_run reg cfg now es (ws, sv) = Some (ws', sv')"
  shows "active (ws_tasks ws') \<le> wc_concurrency cfg \<and>
    0 \<le> ws_permits ws' \<and>
    ws_permits ws' + active (ws_tasks ws') + (if ws_phase ws' = Leasing then 1 else 0) = wc_concurrency cfg \<and>
    (ws_phase ws' = Acquiring \<longrightarrow>
      (on_permit (ws', sv') \<noteq> None \<longleftrightarrow> active (ws_tasks ws') < wc_concurrency cfg))"
  using worker_okD(2,3) [OF worker_reached(1) [OF assms]]
    active_nonneg [of "ws_tasks ws'"]
  by (auto simp: held_permits_def on_permit_def split: if_splits)

theorem worker_concurrency_bounded_witness:
  "active (ws_tasks (fst (sample_run lease_events sample_worker))) \<le> 2 \<and>
   active (ws_tasks (fst (sample_run lease_events sample_worker))) = 1"
proof -
  let ?c = "sample_run lease_events sample_worker"
  have run: "system_run sample_registry sample_cfg 0 lease_events (fst sample_worker, snd sample_worker) =
      Some (fst ?c, snd ?c)" "wc_concurrency sample_cfg = 2" "active (ws_tasks (fst ?c)) = 1"
    by code_simp+
  from worker_concurrency_bounded [OF sample_worker_started(2,1,3,4) run(1)] run(2,3) show ?thesis by simp
qed

section \<open>Reports\<close>

lemma renew_live:
  assumes "db_ok db" and "renew_lease env i w secs db = (Ok (), db')"
  obtains r where "row_of i db' = Some r" "live_lease i w (pe_now env + interval_secs secs) r"
proof -
  obtain r where r: "row_of i db = Some r" "held_by i w r" "db' = update_job i (renew_set (pe_now env) secs) db"
    using assms(2) by (auto simp: renew_lease_eq [OF assms(1)] split: option.splits if_splits)
  then have "row_of i db' = Some (renew_set (pe_now env) secs r)" by (simp add: row_of_update_job)
  moreover have "live_lease i w (pe_now env + interval_secs secs) (renew_set (pe_now env) secs r)"
    using r(2) by (simp add: live_lease_def held_by_def renew_set_def)
  ultimately show thesis by (rule that)
qed

lemma task_at_finish:
  assumes "task_at k (finish k ws) = Some t"
  shows "tk_stage t = Finished"
proof -
  have gone: "task_at k (drop_task k ws) = None"
    by (auto simp: drop_task_def release_def task_at_def find_by_None_iff)
  show ?thesis
    using assms gone task_at_in [of k ws]
    by (auto simp: finish_def advance_def release_def task_at_def find_by_update_where
        split: option.splits if_splits)
qed

lemma renewed_live:
  assumes "worker_ok n ws" and "db_ok (sv_store sv)"
    and "worker_step pg_store reg cfg now (Renewed k env) (ws, sv) = Some (ws', sv')"
    and "task_at k ws' = Some t" and "tk_stage t = Handling"
  obtains r where "row_of (j_id (tk_job t)) (sv_store sv') = Some r"
    "live_lease (j_id (tk_job t)) (wc_id cfg) (pe_now env + interval_secs (lease_cover (tk_job t))) r"
proof -
  have "on_renew pg_store cfg k env (ws, sv) = Some (ws', sv')" using assms(3) by simp
  then show thesis
  proof (rule on_renewE)
    fix t0
    assume t0: "task_at k ws = Some t0"
      "svc_renew_lease pg_store env (j_id (tk_job t0)) (wc_id cfg) (lease_cover (tk_job t0)) sv = (Ok (), sv')"
    have "k < ws_next ws" using task_at_in [OF t0(1)] worker_okD(4) [OF assms(1)] by blast
    then have job: "tk_job t = tk_job t0"
      using descendsD [OF descends_step [OF assms(1) _ assms(3)] assms(4) t0(1)] by blast
    have "renew_lease env (j_id (tk_job t0)) (wc_id cfg) (lease_cover (tk_job t0)) (sv_store sv) =
        (Ok (), sv_store sv')"
      using call_store_run [OF t0(2) [unfolded svc_renew_lease_def]] by (simp add: pg_store_def prod_eq_iff)
    from renew_live [OF assms(2) this] that show thesis unfolding job by blast
  next
    fix t0 out
    assume "ws' = finish k ws"
    then show thesis using task_at_finish [of k ws t] assms(4,5) by simp
  qed
qed

text \<open>
  C15. The lease outlives the execution, so a report in time is applied.  A task of the worker renews the lease
  of its job; from then on, for the job's timeout and 30 seconds more, as long as nobody cancels the job and no other
  task of this same worker reports it, every interleaving with other processes and with the worker's other
  tasks leaves the lease alone, and when the task reports, the store applies the report.  What it reports is
  what the handler registered for the job's type returned, or a timeout if it was not ready within
  the job's timeout; the report is counted in the metrics once.
\<close>

theorem worker_report_accepted:
  assumes "calls_ok calls" and "worker_start pg_store m cfg env0 now (reached calls ms) = (Ok ws0, sv0)"
    and "0 \<le> wc_concurrency cfg" and "others_ok es" and "system_run reg cfg now es (ws0, sv0) = Some (ws1, sv1)"
    and "worker_step pg_store reg cfg now (Renewed k env) (ws1, sv1) = Some (ws2, sv2)"
    and "task_at k ws2 = Some t" and "tk_stage t = Handling"
    and "others_ok es'" and "system_run reg cfg now es' (ws2, sv2) = Some (ws3, sv3)"
    and "list_all (\<lambda>(e, op). pe_now e \<le> pe_now env + interval_secs (j_timeout_secs (tk_job t) + 30) \<and>
      \<not> by_holder (j_id (tk_job t)) (wc_id cfg) op) (system_calls reg cfg now es' (ws2, sv2))"
    and "worker_step pg_store reg cfg now (Reported k env') (ws3, sv3) = Some (ws4, sv4)"
  shows "\<exists>outcome took elapsed j. took_ok reg (tk_job t) took \<and>
    handler_outcome reg (tk_job t) took = Ok outcome \<and>
    reported_as outcome (the (pg_view (sv_store sv3) (j_id (tk_job t)))) j \<and>
    pg_view (sv_store sv4) = (pg_view (sv_store sv3))(j_id (tk_job t) \<mapsto> j) \<and>
    sv_metrics sv4 = sv_metrics sv3 @ report_events outcome (j_queue (tk_job t)) elapsed (Some j)"
proof -
  let ?i = "j_id (tk_job t)" and ?w = "wc_id cfg"
  note before = worker_reached [OF assms(1-5)]
  have ok1: "db_ok (sv_store sv1)" using before(3) by simp
  note ok2 = worker_ok_step [OF before(1) assms(6)] honest_step [OF before(1,2) assms(6)]
  have store2: "store_ok (sv_store sv2)"
    unfolding worker_step_store [OF assms(6)] by (rule store_ok_run [OF before(3) own_calls_ok])
  note ok3 = honest_run [OF assms(10) ok2]
  obtain r where r: "row_of ?i (sv_store sv2) = Some r"
    "live_lease ?i ?w (pe_now env + interval_secs (lease_cover (tk_job t))) r"
    using renewed_live [OF before(1) ok1 assms(6-8)] by blast
  have row3: "row_of ?i (sv_store sv3) = Some r"
    unfolding system_run_store [OF assms(10)]
    using live_lease_run [OF _ system_calls_ok [OF assms(9)] r] store2 assms(11)
    by (simp add: lease_cover_def)
  have store3: "store_ok (sv_store sv3)"
    unfolding system_run_store [OF assms(10)] by (rule store_ok_run [OF store2 system_calls_ok [OF assms(9)]])
  have "on_report pg_store cfg k env' (ws3, sv3) = Some (ws4, sv4)" using assms(12) by simp
  then obtain u outcome elapsed out where u: "task_at k ws3 = Some u" "tk_stage u = Reporting outcome elapsed"
    "svc_report_outcome pg_store env' (tk_job u) ?w outcome elapsed sv3 = (out, sv4)"
    by (rule on_reportE)
  have "k < ws_next ws2" using task_at_in [OF assms(7)] worker_okD(4) [OF ok2(1)] by blast
  then have job: "tk_job u = tk_job t"
    using descendsD [OF descends_run [OF assms(10) ok2(1)] u(1) assms(7)] by blast
  obtain took where took: "took_ok reg (tk_job t) took" "handler_outcome reg (tk_job t) took = Ok outcome"
    using ok3 task_at_in [OF u(1)] u(2) job by (fastforce simp: honest_def)
  have "leased_to ?w (pg_view (sv_store sv3) ?i)"
    using pg_leased_to [of "sv_store sv3" ?w ?i] store3 row3 r(2) by (simp add: live_lease_def)
  with pg.svc_report_outcome_eq [OF store3 u(3)] took show ?thesis unfolding job by auto
qed

definition renewed_worker :: "unit system" where
  "renewed_worker = the (worker_step pg_store sample_registry sample_cfg 0 (Renewed 0 (sample_env 4 0))
    (sample_run lease_events sample_worker))"

definition sample_task :: "unit task" where
  "sample_task = the (task_at 0 (fst renewed_worker))"

definition reported_worker :: "unit system" where
  "reported_worker = the (worker_step pg_store sample_registry sample_cfg 0 (Reported 0 (sample_env 33000000 0))
    (sample_run rival_events renewed_worker))"

theorem worker_report_accepted_witness:
  "\<exists>j. pg_view (sv_store (snd reported_worker)) (j_id (tk_job sample_task)) = Some j \<and>
    j_status j \<noteq> Processing"
proof -
  let ?c1 = "sample_run lease_events sample_worker" and ?c3 = "sample_run rival_events renewed_worker"
  have run: "system_run sample_registry sample_cfg 0 lease_events (fst sample_worker, snd sample_worker) =
      Some (fst ?c1, snd ?c1)"
    "worker_step pg_store sample_registry sample_cfg 0 (Renewed 0 (sample_env 4 0)) (fst ?c1, snd ?c1) =
      Some (fst renewed_worker, snd renewed_worker)"
    "task_at 0 (fst renewed_worker) = Some sample_task" "tk_stage sample_task = Handling"
    "system_run sample_registry sample_cfg 0 rival_events (fst renewed_worker, snd renewed_worker) =
      Some (fst ?c3, snd ?c3)"
    "list_all (\<lambda>(e, op). pe_now e \<le> pe_now (sample_env 4 0) + interval_secs (j_timeout_secs (tk_job sample_task) + 30) \<and>
      \<not> by_holder (j_id (tk_job sample_task)) (wc_id sample_cfg) op)
      (system_calls sample_registry sample_cfg 0 rival_events (fst renewed_worker, snd renewed_worker))"
    "worker_step pg_store sample_registry sample_cfg 0 (Reported 0 (sample_env 33000000 0)) (fst ?c3, snd ?c3) =
      Some (fst reported_worker, snd reported_worker)"
    by code_simp+
  from worker_report_accepted [OF sample_worker_started(2,1,3,4) run(1-4) sample_worker_started(5) run(5-7)]
  obtain outcome j where "reported_as outcome
      (the (pg_view (sv_store (snd ?c3)) (j_id (tk_job sample_task)))) j"
    "pg_view (sv_store (snd reported_worker)) (j_id (tk_job sample_task)) = Some j"
    by auto
  then show ?thesis by (cases outcome) (auto simp: reported_as_def failed_as_def split: if_splits)
qed

end
