(* ===== verification/Worker_Shutdown.thy ===== *)
theory Worker_Shutdown
  imports Worker_Properties
begin

text \<open>The end of a worker: once the lease loop is left, the process stops after a bounded number of its own steps.\<close>

section \<open>What is left to do\<close>

fun stage_weight :: "'j stage \<Rightarrow> nat" where
  "stage_weight Renewing = 4"
| "stage_weight Handling = 3"
| "stage_weight (Reporting outcome d) = 2"
| "stage_weight Finished = 1"

fun phase_weight :: "phase \<Rightarrow> nat" where
  "phase_weight Draining = 2"
| "phase_weight Deregistering = 1"
| "phase_weight _ = 0"

definition tasks_weight :: "'j task list \<Rightarrow> nat" where
  "tasks_weight ts = sum_list (map (\<lambda>t. stage_weight (tk_stage t)) ts)"

definition remaining :: "'j worker_state \<Rightarrow> nat" where
  "remaining ws = phase_weight (ws_phase ws) + tasks_weight (ws_tasks ws)"

definition ending :: "'j worker_state \<Rightarrow> bool" where
  "ending ws \<longleftrightarrow> ws_phase ws = Draining \<or> stopping ws"

text \<open>The events of the main loop and of the tasks; the shutdown signal and the heartbeat task are the others.\<close>

fun is_progress :: "'e worker_event \<Rightarrow> bool" where
  "is_progress TokenCancelled \<longleftrightarrow> False"
| "is_progress (Beat env) \<longleftrightarrow> False"
| "is_progress (Reregistered env) \<longleftrightarrow> False"
| "is_progress BeatBreak \<longleftrightarrow> False"
| "is_progress _ \<longleftrightarrow> True"

fun own_progress :: "'j system_event \<Rightarrow> bool" where
  "own_progress (Own ev) = is_progress ev"
| "own_progress (Other c) = False"

lemma stage_weight_pos [simp]: "0 < stage_weight st"
  by (cases st) simp_all

lemma tasks_weight_simps [simp]:
  "tasks_weight [] = 0" "tasks_weight (t # ts) = stage_weight (tk_stage t) + tasks_weight ts"
  by (simp_all add: tasks_weight_def)

lemma tasks_weight_bound: "tasks_weight ts \<le> 4 * length ts"
proof (induction ts)
  case (Cons t ts)
  moreover have "stage_weight (tk_stage t) \<le> 4" by (cases "tk_stage t") simp_all
  ultimately show ?case by simp
qed simp

lemma tasks_weight_abort [simp]:
  "tasks_weight (update_where p (\<lambda>t. t\<lparr>tk_aborted := b\<rparr>) ts) = tasks_weight ts"
  by (induction ts) simp_all

lemma tasks_weight_delete:
  "find_by tk_id k ts = Some t \<Longrightarrow> tasks_weight (delete_where (\<lambda>t. tk_id t = k) ts) < tasks_weight ts"
proof (induction ts)
  case (Cons u ts)
  have "tasks_weight (delete_where (\<lambda>t. tk_id t = k) ts) \<le> tasks_weight ts"
    by (induction ts) simp_all
  with Cons stage_weight_pos [of "tk_stage u"] show ?case
    by (auto simp del: stage_weight_pos split: if_splits)
qed simp

lemma tasks_weight_update:
  assumes "distinct (map tk_id ts)" and "find_by tk_id k ts = Some t" and "stage_weight st < stage_weight (tk_stage t)"
  shows "tasks_weight (update_where (\<lambda>t. tk_id t = k) (\<lambda>t. t\<lparr>tk_stage := st\<rparr>) ts) < tasks_weight ts"
  using assms
proof (induction ts)
  case (Cons u ts)
  show ?case
  proof (cases "tk_id u = k")
    case True
    with Cons.prems have "find_by tk_id k ts = None" "u = t" by (auto simp: find_by_None_iff)
    with True Cons.prems(3) show ?thesis by (simp add: keep_where_absent)
  next
    case False
    with Cons show ?thesis by simp
  qed
qed simp

lemma remaining_drop: "task_at k ws = Some t \<Longrightarrow> remaining (drop_task k ws) < remaining ws"
  using tasks_weight_delete [of k "ws_tasks ws" t]
  by (simp add: remaining_def drop_task_def release_def task_at_def)

lemma remaining_advance:
  assumes "worker_ok n ws" and "task_at k ws = Some t" and "stage_weight st < stage_weight (tk_stage t)"
  shows "remaining (advance k st ws) < remaining ws"
  using remaining_drop [OF assms(2)] tasks_weight_update [OF worker_okD(1) [OF assms(1)], of k t st] assms(2,3)
  by (simp add: advance_def remaining_def task_at_def)

lemma remaining_finish:
  assumes "worker_ok n ws" and "task_at k ws = Some t" and "tk_stage t \<noteq> Finished"
  shows "remaining (finish k ws) < remaining ws"
proof -
  have "stage_weight Finished < stage_weight (tk_stage t)" using assms(3) by (cases "tk_stage t") simp_all
  from remaining_advance [OF assms(1,2) this] remaining_drop [OF assms(2)] assms(2) show ?thesis
    by (simp add: finish_def remaining_def release_def)
qed

lemma phase_after [simp]:
  "ws_phase (drop_task k ws) = ws_phase ws" "ws_phase (advance k st ws) = ws_phase ws"
  "ws_phase (finish k ws) = ws_phase ws" "ws_next (drop_task k ws) = ws_next ws"
  "ws_next (advance k st ws) = ws_next ws" "ws_next (finish k ws) = ws_next ws"
  by (simp_all add: drop_task_def advance_def finish_def release_def split: option.splits)

lemma ending_phase: "ending ws \<Longrightarrow> ws_phase ws' = ws_phase ws \<Longrightarrow> ending ws'"
  by (simp add: ending_def stopping_def)

definition closer :: "'j worker_state \<Rightarrow> 'j worker_state \<Rightarrow> bool" where
  "closer ws' ws \<longleftrightarrow> ending ws' \<and> remaining ws' < remaining ws \<and> ws_next ws' = ws_next ws"

lemma closer_loop:
  assumes "ending ws"
  shows "on_permit (ws, sv) = None" "on_lease ops cfg env (ws, sv) = None" "on_poll_elapsed (ws, sv) = None"
    "on_break (ws, sv) = None"
  using assms by (auto simp: ending_def stopping_def on_permit_def on_lease_def on_poll_elapsed_def on_break_def)

lemma closer_stop:
  "on_join_next k (ws, sv) = Some (ws', sv') \<Longrightarrow> closer ws' ws"
  "on_drained (ws, sv) = Some (ws', sv') \<Longrightarrow> closer ws' ws"
  "on_grace_elapsed (ws, sv) = Some (ws', sv') \<Longrightarrow> closer ws' ws"
  "on_deregister ops cfg env (ws, sv) = Some (ws', sv') \<Longrightarrow> closer ws' ws"
  by (auto simp: on_join_next_def on_drained_def on_grace_elapsed_def on_deregister_def closer_def ending_def
      stopping_def remaining_def abort_beat_def abort_all_def task_at_def tasks_weight_delete
      split: option.splits if_splits prod.splits outcome.splits)

lemma closer_task:
  assumes "worker_ok n ws" and "ending ws"
  shows "on_renew ops cfg k env (ws, sv) = Some (ws', sv') \<Longrightarrow> closer ws' ws"
    and "on_handled reg k took d (ws, sv) = Some (ws', sv') \<Longrightarrow> closer ws' ws"
    and "on_report ops cfg k env (ws, sv) = Some (ws', sv') \<Longrightarrow> closer ws' ws"
    and "on_dropped k (ws, sv) = Some (ws', sv') \<Longrightarrow> closer ws' ws"
proof -
  show "on_renew ops cfg k env (ws, sv) = Some (ws', sv') \<Longrightarrow> closer ws' ws"
    by (auto elim!: on_renewE simp: closer_def ending_phase [OF assms(2)]
        intro!: remaining_advance [OF assms(1)] remaining_finish [OF assms(1)])
  show "on_handled reg k took d (ws, sv) = Some (ws', sv') \<Longrightarrow> closer ws' ws"
    by (auto elim!: on_handledE simp: closer_def ending_phase [OF assms(2)]
        intro!: remaining_advance [OF assms(1)] remaining_finish [OF assms(1)])
  show "on_report ops cfg k env (ws, sv) = Some (ws', sv') \<Longrightarrow> closer ws' ws"
    by (auto elim!: on_reportE simp: closer_def ending_phase [OF assms(2)] intro!: remaining_finish [OF assms(1)])
  show "on_dropped k (ws, sv) = Some (ws', sv') \<Longrightarrow> closer ws' ws"
    by (auto simp: on_dropped_def closer_def ending_phase [OF assms(2)] remaining_drop
        split: option.splits if_splits)
qed

lemma closer_step:
  assumes "worker_ok n ws" and "ending ws" and "worker_step ops reg cfg now ev (ws, sv) = Some (ws', sv')"
  shows "if is_progress ev then closer ws' ws
    else ending ws' \<and> remaining ws' = remaining ws \<and> ws_next ws' = ws_next ws"
proof (cases ev)
  case (Beat env)
  with assms(2,3) show ?thesis
    by (auto simp: on_beat_def ending_def stopping_def remaining_def
        split: if_splits prod.splits outcome.splits bool.splits)
next
  case (Reregistered env)
  with assms(2,3) show ?thesis
    by (auto simp: on_reregister_def ending_def stopping_def remaining_def
        split: if_splits prod.splits outcome.splits)
next
  case BeatBreak
  with assms(2,3) show ?thesis
    by (auto simp: on_beat_break_def ending_def stopping_def remaining_def split: if_splits)
next
  case TokenCancelled
  with assms(2,3) show ?thesis by (auto simp: ending_def stopping_def remaining_def)
qed (use assms(3) in \<open>auto simp: closer_loop [OF assms(2)] dest: closer_stop closer_task [OF assms(1,2)]\<close>)

lemma ending_run:
  assumes "system_run reg cfg now es (ws, sv) = Some (ws', sv')" and "worker_ok n ws" and "ending ws"
  shows "ending ws' \<and> length (filter own_progress es) + remaining ws' \<le> remaining ws \<and> ws_next ws' = ws_next ws"
  using assms
proof (induction es arbitrary: ws sv)
  case (Cons e es)
  then obtain ws1 sv1 where step: "system_step reg cfg now e (ws, sv) = Some (ws1, sv1)"
    "system_run reg cfg now es (ws1, sv1) = Some (ws', sv')"
    by (auto simp: bind_eq_Some_conv)
  have "worker_ok n ws1 \<and> ending ws1 \<and> ws_next ws1 = ws_next ws \<and>
      (if own_progress e then remaining ws1 < remaining ws else remaining ws1 = remaining ws)"
    using step(1)
  proof (cases rule: system_stepE)
    case (1 ev)
    then show ?thesis
      using closer_step [OF Cons.prems(2,3) 1(2)] worker_ok_step [OF Cons.prems(2) 1(2)]
      by (auto simp: closer_def split: if_splits)
  qed (use Cons.prems in simp)
  with Cons.IH [OF step(2)] show ?case by (auto split: if_splits)
qed simp

section \<open>The worker stops\<close>

text \<open>Until it has stopped there is a step to take.\<close>

lemma ending_not_stuck:
  assumes "ws_phase ws = Draining \<or> ws_phase ws = Deregistering"
  obtains ev where "is_progress ev" "worker_step pg_store reg cfg now ev (ws, sv) \<noteq> None"
proof (cases "ws_phase ws = Draining")
  case False
  with assms have "worker_step pg_store reg cfg now (Deregistered env) (ws, sv) \<noteq> None" for env
    by (auto simp: on_deregister_def split: prod.splits outcome.splits)
  then show thesis using that [of "Deregistered undefined"] by simp
next
  case draining: True
  consider "ws_tasks ws = []" | "\<not> list_all is_finished (ws_tasks ws)"
    | t ts where "ws_tasks ws = t # ts" "is_finished t"
    by (cases "ws_tasks ws") auto
  then show thesis
  proof cases
    case 1
    with draining that [of Drained] show ?thesis by (simp add: on_drained_def)
  next
    case 2
    with draining that [of GraceElapsed] show ?thesis by (simp add: on_grace_elapsed_def)
  next
    case 3
    with draining that [of "JoinNext (tk_id t)"] show ?thesis by (simp add: on_join_next_def task_at_def)
  qed
qed

lemma deregister_pg:
  "on_deregister pg_store cfg env (ws, sv) =
    (if ws_phase ws \<noteq> Deregistering then None
     else Some (ws\<lparr>ws_phase := Stopped\<rparr>, sv\<lparr>sv_store := snd (deregister_worker (wc_id cfg) (sv_store sv))\<rparr>))"
  by (simp add: on_deregister_def call_store_def pg_store_def deregister_worker_def)

lemma no_crash_step:
  assumes "ending ws" and "ws_phase ws \<noteq> Crashed"
    and "worker_step pg_store reg cfg now ev (ws, sv) = Some (ws', sv')"
  shows "ws_phase ws' \<noteq> Crashed"
proof (cases ev)
  case (Renewed k env)
  with assms(2,3) show ?thesis by (auto elim!: on_renewE)
next
  case (Handled k took d)
  with assms(2,3) show ?thesis by (auto elim!: on_handledE)
next
  case (Reported k env)
  with assms(2,3) show ?thesis by (auto elim!: on_reportE)
next
  case (Beat env)
  with assms(2,3) show ?thesis
    by (auto simp: on_beat_def split: if_splits prod.splits outcome.splits bool.splits)
next
  case (Reregistered env)
  with assms(2,3) show ?thesis
    by (auto simp: on_reregister_def split: if_splits prod.splits outcome.splits)
next
  case (Dropped k)
  with assms(2,3) show ?thesis by (auto simp: on_dropped_def split: option.splits if_splits)
next
  case (JoinNext k)
  with assms(2,3) show ?thesis by (auto simp: on_join_next_def split: option.splits if_splits)
qed (use assms(2,3) in \<open>auto simp: closer_loop [OF assms(1)] deregister_pg on_drained_def on_grace_elapsed_def
    abort_beat_def abort_all_def on_beat_break_def split: if_splits\<close>)

lemma no_crash_run:
  assumes "system_run reg cfg now es (ws, sv) = Some (ws', sv')" and "worker_ok n ws" and "ending ws"
    and "ws_phase ws \<noteq> Crashed"
  shows "ws_phase ws' \<noteq> Crashed"
  using assms
proof (induction es arbitrary: ws sv)
  case (Cons e es)
  then obtain ws1 sv1 where step: "system_step reg cfg now e (ws, sv) = Some (ws1, sv1)"
    "system_run reg cfg now es (ws1, sv1) = Some (ws', sv')"
    by (auto simp: bind_eq_Some_conv)
  have "worker_ok n ws1 \<and> ending ws1 \<and> ws_phase ws1 \<noteq> Crashed"
    using step(1)
  proof (cases rule: system_stepE)
    case (1 ev)
    then show ?thesis
      using closer_step [OF Cons.prems(2,3) 1(2)] worker_ok_step [OF Cons.prems(2) 1(2)]
        no_crash_step [OF Cons.prems(3,4) 1(2)] by (auto simp: closer_def split: if_splits)
  qed (use Cons.prems in simp)
  with Cons.IH [OF step(2)] show ?case by blast
qed simp

text \<open>
  Shutdown ends.  When the shutdown token is cancelled and the lease loop waits for a slot or for its
  poll interval, it can leave the loop.  From then on, in every interleaving with other processes: no
  further job is leased; the worker's own steps (other than heartbeats) number at most two plus four per task
  it had; until it has stopped there is always a step it can take, so it does stop; and its last step removes
  it from the worker registry.  It never crashes.
\<close>

theorem worker_shutdown_terminates:
  assumes "calls_ok calls" and "worker_start pg_store m cfg env now (reached calls ms) = (Ok ws0, sv0)"
    and "0 \<le> wc_concurrency cfg" and "others_ok es" and "system_run reg cfg now es (ws0, sv0) = Some (ws, sv)"
    and "ws_shutdown ws" and "ws_phase ws = Acquiring \<or> ws_phase ws = Polling"
  shows "\<exists>ws1. worker_step pg_store reg cfg now Break (ws, sv) = Some (ws1, sv) \<and>
    (\<forall>es' ws' sv'. others_ok es' \<and> system_run reg cfg now es' (ws1, sv) = Some (ws', sv') \<longrightarrow>
      ws_next ws' = ws_next ws \<and>
      length (filter own_progress es') \<le> 2 + 4 * length (ws_tasks ws) \<and>
      (ws_phase ws' = Stopped \<or> (\<exists>ev. is_progress ev \<and> worker_step pg_store reg cfg now ev (ws', sv') \<noteq> None)) \<and>
      (\<forall>env' ws'' sv''. worker_step pg_store reg cfg now (Deregistered env') (ws', sv') = Some (ws'', sv'') \<longrightarrow>
        ws_phase ws'' = Stopped \<and> \<not> pg_registered (sv_store sv'') (wc_id cfg)))"
proof -
  let ?ws1 = "ws\<lparr>ws_phase := Draining\<rparr>"
  have break: "worker_step pg_store reg cfg now Break (ws, sv) = Some (?ws1, sv)"
    using assms(6,7) by (auto simp: on_break_def)
  note ok = worker_reached [OF assms(1-5)]
  have ok1: "worker_ok (wc_concurrency cfg) ?ws1" "ending ?ws1" "ws_phase ?ws1 \<noteq> Crashed"
    using worker_ok_step [OF ok(1) break] by (simp_all add: ending_def)
  have bound: "remaining ?ws1 \<le> 2 + 4 * length (ws_tasks ws)"
    using tasks_weight_bound [of "ws_tasks ws"] by (simp add: remaining_def)
  show ?thesis
  proof (intro exI [of _ ?ws1] conjI break allI impI)
    fix es' ws' sv'
    assume run: "others_ok es' \<and> system_run reg cfg now es' (?ws1, sv) = Some (ws', sv')"
    note fin = ending_run [OF conjunct2 [OF run] ok1(1,2)]
    show "ws_next ws' = ws_next ws" using fin by simp
    show "length (filter own_progress es') \<le> 2 + 4 * length (ws_tasks ws)" using fin bound by simp
    have "ws_phase ws' \<noteq> Crashed" by (rule no_crash_run [OF conjunct2 [OF run] ok1])
    then have "ws_phase ws' = Stopped \<or> ws_phase ws' = Draining \<or> ws_phase ws' = Deregistering"
      using fin by (auto simp: ending_def stopping_def)
    then show "ws_phase ws' = Stopped \<or>
        (\<exists>ev. is_progress ev \<and> worker_step pg_store reg cfg now ev (ws', sv') \<noteq> None)"
      using ending_not_stuck [of ws' reg cfg now sv'] by blast
    fix env' ws'' sv''
    assume step: "worker_step pg_store reg cfg now (Deregistered env') (ws', sv') = Some (ws'', sv'')"
    have "store_ok (sv_store sv')"
      unfolding system_run_store [OF conjunct2 [OF run]]
      by (rule store_ok_run [OF ok(3) system_calls_ok [OF conjunct1 [OF run]]])
    then have "worker_of (wc_id cfg) (snd (deregister_worker (wc_id cfg) (sv_store sv'))) = None"
      by (simp add: worker_of_deregister)
    with step show "ws_phase ws'' = Stopped" "\<not> pg_registered (sv_store sv'') (wc_id cfg)"
      by (auto simp: deregister_pg pg_registered_def split: if_splits)
  qed
qed

definition shutdown_events :: "unit system_event list" where
  "shutdown_events = lease_events @ [Own TokenCancelled]"

definition drain_events :: "unit system_event list" where
  "drain_events = [Own (Renewed 0 (sample_env 4 0)), Own GraceElapsed, Own (Deregistered (sample_env 5 0))]"

theorem worker_shutdown_terminates_witness:
  "\<exists>ws1. worker_step pg_store sample_registry sample_cfg 0 Break (sample_run shutdown_events sample_worker) =
      Some (ws1, snd (sample_run shutdown_events sample_worker)) \<and>
    (\<exists>ws' sv'. system_run sample_registry sample_cfg 0 drain_events
        (ws1, snd (sample_run shutdown_events sample_worker)) = Some (ws', sv') \<and>
      ws_phase ws' = Stopped \<and> length (filter own_progress drain_events) \<le> 6)"
proof -
  let ?c = "sample_run shutdown_events sample_worker"
  have run: "others_ok shutdown_events" "others_ok drain_events"
    "system_run sample_registry sample_cfg 0 shutdown_events (fst sample_worker, snd sample_worker) =
      Some (fst ?c, snd ?c)"
    "ws_shutdown (fst ?c)" "ws_phase (fst ?c) = Acquiring" "length (ws_tasks (fst ?c)) = 1"
    by code_simp+
  have stop: "(case system_run sample_registry sample_cfg 0 drain_events ((fst ?c)\<lparr>ws_phase := Draining\<rparr>, snd ?c) of
      Some (ws', sv') \<Rightarrow> ws_phase ws' = Stopped | None \<Rightarrow> False)"
    by code_simp
  from worker_shutdown_terminates [OF sample_worker_started(2,1,3) run(1,3,4) disjI1 [OF run(5)]]
  obtain ws1 where ws1: "worker_step pg_store sample_registry sample_cfg 0 Break (fst ?c, snd ?c) = Some (ws1, snd ?c)"
    "\<And>ws' sv'. system_run sample_registry sample_cfg 0 drain_events (ws1, snd ?c) = Some (ws', sv') \<Longrightarrow>
      length (filter own_progress drain_events) \<le> 2 + 4 * length (ws_tasks (fst ?c))"
    using run(2) by blast
  then have "ws1 = (fst ?c)\<lparr>ws_phase := Draining\<rparr>" using run(4,5) by (simp add: on_break_def split_beta)
  with ws1 stop run(6) show ?thesis by (auto split: option.splits)
qed

section \<open>Heartbeats\<close>

text \<open>
  A running worker stays registered.  Wherever its heartbeat task waits, the next tick finds the worker's
  row and moves its heartbeat to the present, or finds that the row was pruned; in the second case
  the task registers the worker again with the queues and the concurrency of its configuration and returns
  to its ticks.  Neither touches a job.
\<close>

theorem heartbeat_reregisters:
  assumes "calls_ok calls" and "worker_start pg_store m cfg env0 now (reached calls ms) = (Ok ws0, sv0)"
    and "0 \<le> wc_concurrency cfg" and "others_ok es" and "system_run reg cfg now es (ws0, sv0) = Some (ws, sv)"
    and "ws_beat ws = BeatWaiting"
  shows "\<exists>ws1 sv1. worker_step pg_store reg cfg now (Beat env) (ws, sv) = Some (ws1, sv1) \<and>
    pg_view (sv_store sv1) = pg_view (sv_store sv) \<and>
    (case worker_of (wc_id cfg) (sv_store sv) of
       Some x \<Rightarrow> ws1 = ws \<and> worker_of (wc_id cfg) (sv_store sv1) = Some (x\<lparr>w_last_heartbeat := pe_now env\<rparr>)
     | None \<Rightarrow> \<exists>sv2. worker_step pg_store reg cfg now (Reregistered env') (ws1, sv1) = Some (ws, sv2) \<and>
         pg_view (sv_store sv2) = pg_view (sv_store sv) \<and>
         worker_of (wc_id cfg) (sv_store sv2) =
           Some ((worker_of_config cfg now)\<lparr>w_registered_at := pe_now env', w_last_heartbeat := pe_now env'\<rparr>))"
proof -
  have ok: "store_ok (sv_store sv)" by (rule worker_reached(3) [OF assms(1-5)])
  let ?db1 = "snd (heartbeat env (wc_id cfg) (sv_store sv))"
  let ?sv1 = "sv\<lparr>sv_store := ?db1\<rparr>"
  let ?sv2 = "sv\<lparr>sv_store := snd (register_worker env' (worker_of_config cfg now) ?db1)\<rparr>"
  have beat: "worker_step pg_store reg cfg now (Beat env) (ws, sv) =
      Some (if worker_of (wc_id cfg) (sv_store sv) = None then ws\<lparr>ws_beat := BeatMissing\<rparr> else ws, ?sv1)"
    using assms(6) heartbeat_eq(1) [of env "wc_id cfg" "sv_store sv"]
    by (simp add: on_beat_def call_store_def pg_store_def split_beta)
  have again: "worker_step pg_store reg cfg now (Reregistered env') (ws\<lparr>ws_beat := BeatMissing\<rparr>, ?sv1) = Some (ws, ?sv2)"
    using assms(6) by (simp add: on_reregister_def call_store_def pg_store_def register_worker_def)
  have view: "pg_view ?db1 = pg_view (sv_store sv)"
    "pg_view (snd (register_worker env' (worker_of_config cfg now) ?db1)) = pg_view (sv_store sv)"
    by (simp_all add: pg_view_def fun_eq_iff)
  show ?thesis
  proof (cases "worker_of (wc_id cfg) (sv_store sv)")
    case None
    then have "worker_of (wc_id cfg) (snd (register_worker env' (worker_of_config cfg now) ?db1)) =
        Some ((worker_of_config cfg now)\<lparr>w_registered_at := pe_now env', w_last_heartbeat := pe_now env'\<rparr>)"
      by (simp add: worker_of_register heartbeat_eq(2) worker_of_config_def)
    with None beat again view show ?thesis by simp
  next
    case (Some x)
    with beat view heartbeat_eq(2) [of "wc_id cfg" env "wc_id cfg" "sv_store sv"] show ?thesis by simp
  qed
qed

definition pruned_events :: "unit system_event list" where
  "pruned_events = [Other (sample_env 70000000 0, PruneWorkers 60)]"

theorem heartbeat_reregisters_witness:
  "\<exists>ws1 sv1 sv2. worker_step pg_store sample_registry sample_cfg 0 (Beat (sample_env 71000000 0))
      (sample_run pruned_events sample_worker) = Some (ws1, sv1) \<and>
    worker_step pg_store sample_registry sample_cfg 0 (Reregistered (sample_env 72000000 0)) (ws1, sv1) =
      Some (fst (sample_run pruned_events sample_worker), sv2) \<and>
    worker_of 7 (sv_store sv2) \<noteq> None"
proof -
  let ?c = "sample_run pruned_events sample_worker"
  have run: "others_ok pruned_events"
    "system_run sample_registry sample_cfg 0 pruned_events (fst sample_worker, snd sample_worker) =
      Some (fst ?c, snd ?c)"
    "ws_beat (fst ?c) = BeatWaiting" "worker_of (wc_id sample_cfg) (sv_store (snd ?c)) = None" "wc_id sample_cfg = 7"
    by code_simp+
  from heartbeat_reregisters [OF sample_worker_started(2,1,3) run(1,2,3), of "sample_env 71000000 0" "sample_env 72000000 0"]
  show ?thesis using run(4,5) by auto
qed

end
