(* ===== verification/Worker_Fencing.thy ===== *)
theory Worker_Fencing
  imports Worker_Properties
begin

text \<open>
  The limit of the lease protocol as workers use it: a report is checked against the worker's id and not
  against the attempt it belongs to.
\<close>

section \<open>A report for an earlier attempt\<close>

text \<open>The handler returns the attempt it ran for as the job's result.\<close>

definition attempt_registry :: "int handler_registry" where
  "attempt_registry = register ''t'' (\<lambda>job. (0, Ok (Some (j_attempts job)))) registry_new"

definition attempt_job :: "int normalized_job" where
  "attempt_job =
    \<lparr>z_queue = ''q'', z_job_type = ''t'', z_payload = 0, z_priority = 0, z_idempotency_key = None,
     z_max_attempts = 3, z_run_at = 0, z_status = Queued, z_timeout_secs = 60, z_backoff_base_secs = 2,
     z_backoff_max_secs = 300, z_dead_letter = True, z_metadata = 0, z_correlation_id = None\<rparr>"

definition attempt_calls :: "int call list" where
  "attempt_calls = [(sample_env 0 1, Submit attempt_job)]"

definition attempt_worker :: "int system" where
  "attempt_worker = cell_of (worker_start pg_store 100 sample_cfg (sample_env 1 0) 0 (reached attempt_calls []))"

text \<open>
  The first task has its outcome when the process stalls past the end of the lease (60 + 30 seconds after the
  renewal); the reaper returns the job, and the same worker leases it again before the first task reports.
\<close>

definition stall_events :: "int system_event list" where
  "stall_events =
    [Own Permit, Own (Leased (sample_env 2000000 0)), Own (Renewed 0 (sample_env 3000000 0)),
     Own (Handled 0 1000 0), Other (sample_env 95000000 0, RecoverExpired 100),
     Own Permit, Own (Leased (sample_env 99000000 0)), Own (Renewed 1 (sample_env 100000000 0))]"

definition stalled_worker :: "int system" where
  "stalled_worker = the (system_run attempt_registry sample_cfg 0 stall_events attempt_worker)"

definition stale_worker :: "int system" where
  "stale_worker = the (system_run attempt_registry sample_cfg 0 [Own (Reported 0 (sample_env 101000000 0))] stalled_worker)"


end
