(* ===== verification/Worker_Startup.thy ===== *)
theory Worker_Startup
  imports Worker_Properties
begin

text \<open>The start of a worker from the process environment.\<close>

section \<open>Configuration\<close>

text \<open>
  The configuration of a worker is sane in every environment: at least one queue and no empty queue name, at
  least one concurrent job, a lease of at least a second, a poll interval of at least 10 ms and a
  heartbeat interval and a grace period of at least a second, whatever the variables contain.  And a variable that
  is set to a number in the accepted range, or to a list of plain queue names, is what the worker uses.
\<close>

theorem worker_config_from_env_sane:
  "let cfg = worker_config_from_env env i
   in wc_queues cfg \<noteq> [] \<and> [] \<notin> set (wc_queues cfg) \<and>
     1 \<le> wc_concurrency cfg \<and> wc_concurrency cfg < 2 ^ 64 \<and>
     1 \<le> wc_lease_secs cfg \<and> is_i64 (wc_lease_secs cfg) \<and> 10 \<le> as_millis (wc_poll_interval cfg) \<and>
     1 \<le> d_secs (wc_heartbeat_interval cfg) \<and> 1 \<le> d_secs (wc_shutdown_grace cfg) \<and>
     (\<forall>n. env ''WORKER_CONCURRENCY'' = Some (show_int n) \<and> 1 \<le> n \<and> is_i64 n \<longrightarrow> wc_concurrency cfg = n) \<and>
     (\<forall>n. env ''WORKER_LEASE_SECS'' = Some (show_int n) \<and> 1 \<le> n \<and> is_i64 n \<longrightarrow> wc_lease_secs cfg = n) \<and>
     (\<forall>qs. env ''WORKER_QUEUES'' = Some (join_with (CHR '','') qs) \<and> qs \<noteq> [] \<and> list_all plain_name qs \<longrightarrow>
       wc_queues cfg = qs)"
proof -
  have conc: "max (as_u64 n) 1 = n" if "1 \<le> n" "is_i64 n" for n
    using as_u64_id [of n] that by (simp add: is_i64_def)
  show ?thesis
    unfolding Let_def
    using worker_config_limits [of env i] worker_config_queues [of env i]
    by (auto simp: worker_config_fields env_parse_show conc parse_queues_join)
qed

definition sample_environment :: environment where
  "sample_environment =
    [''WORKER_CONCURRENCY'' \<mapsto> show_int 4, ''WORKER_QUEUES'' \<mapsto> join_with (CHR '','') [''mail'', ''video'']]"

theorem worker_config_from_env_sane_witness:
  "wc_concurrency (worker_config_from_env sample_environment 7) = 4 \<and>
   wc_queues (worker_config_from_env sample_environment 7) = [''mail'', ''video'']"
proof -
  have "sample_environment ''WORKER_CONCURRENCY'' = Some (show_int 4)"
    "sample_environment ''WORKER_QUEUES'' = Some (join_with (CHR '','') [''mail'', ''video''])"
    by (simp_all add: sample_environment_def)
  moreover have "is_i64 4" "list_all plain_name [''mail'', ''video'']" by code_simp+
  ultimately show ?thesis using worker_config_from_env_sane [of sample_environment 7] by (auto simp: Let_def)
qed

section \<open>A negative concurrency\<close>

lemma as_u64_neg: "- (2 ^ 63) \<le> n \<Longrightarrow> n < 0 \<Longrightarrow> as_u64 n = 2 ^ 64 + n"
proof -
  assume n: "- (2 ^ 63) \<le> n" "n < 0"
  have "as_u64 n = n mod 2 ^ 64" by (simp add: as_u64_def unsigned_of_int take_bit_eq_mod)
  also have "\<dots> = (n + 2 ^ 64) mod 2 ^ 64" by simp
  also have "\<dots> = n + 2 ^ 64" using n by (intro mod_pos_pos_trivial) auto
  finally show ?thesis by simp
qed

text \<open>
  The lower bound on the concurrency does not cover negative numbers.  With \<open>WORKER_CONCURRENCY\<close> set to any
  negative number the cast to \<open>usize\<close> comes before \<open>max(1)\<close>, the semaphore is asked for at least \<open>2\<^sup>6\<^sup>3\<close>
  permits, and the worker panics (\<open>Semaphore::MAX_PERMITS\<close> is below that) after it has registered
  itself, so its row stays until it is pruned.
\<close>

theorem negative_concurrency_panics:
  assumes "calls_ok calls" and "env ''WORKER_CONCURRENCY'' = Some (show_int n)" and "is_i64 n" and "n < 0"
    and "max_permits < 2 ^ 63"
  shows "let cfg = worker_config_from_env env i; (out, sv) = worker_start pg_store max_permits cfg e now (reached calls ms)
    in out = Panic \<and> pg_registered (sv_store sv) i"
proof -
  let ?cfg = "worker_config_from_env env i"
  let ?db = "snd (register_worker e (worker_of_config ?cfg now) (run calls empty_db))"
  have "as_u64 n = 2 ^ 64 + n" using assms(3,4) by (simp add: as_u64_neg is_i64_def)
  then have "wc_concurrency ?cfg = 2 ^ 64 + n"
    using assms(3) env_parse_show [of env "''WORKER_CONCURRENCY''" n, OF assms(2,3)] by (simp add: worker_config_fields is_i64_def)
  then have big: "max_permits < wc_concurrency ?cfg" using assms(3,5) by (simp add: is_i64_def)
  have "worker_start pg_store max_permits ?cfg e now (reached calls ms) =
      (Panic, (reached calls ms)\<lparr>sv_store := ?db\<rparr>)"
    using big by (simp add: worker_start_def call_store_def pg_store_def register_worker_def)
  moreover have "pg_registered ?db i"
    by (simp add: pg_registered_def worker_of_register worker_of_config_def worker_config_fields(1))
  ultimately show ?thesis by simp
qed

theorem negative_concurrency_panics_witness:
  "fst (worker_start pg_store (2 ^ 61 - 1) (worker_config_from_env [''WORKER_CONCURRENCY'' \<mapsto> show_int (- 1)] 7)
    (sample_env 1 0) 0 (reached sample_queue [])) = Panic"
proof -
  have "calls_ok sample_queue" "is_i64 (- 1)" by code_simp+
  from negative_concurrency_panics [OF this(1), of "[''WORKER_CONCURRENCY'' \<mapsto> show_int (- 1)]", OF _ this(2),
      of "2 ^ 61 - 1" 7 "sample_env 1 0" 0 "[]"]
  show ?thesis by (auto simp: Let_def split: prod.splits)
qed

end
