(* ===== verification/Worker_Execution.thy ===== *)
theory Worker_Execution
  imports Worker_Properties
begin

text \<open>\<open>execute_job\<close> as a whole, and the example handlers run by it.\<close>

section \<open>The steps of a task add up to \<open>execute_job\<close>\<close>

text \<open>Take a step if it is possible.\<close>

definition try_step :: "('c \<Rightarrow> 'c option) \<Rightarrow> 'c \<Rightarrow> 'c" where
  "try_step f c = (case f c of Some c' \<Rightarrow> c' | None \<Rightarrow> c)"

definition task_steps ::
  "('s, 'e, 'j) store_ops \<Rightarrow> 'j handler_registry \<Rightarrow> worker_config \<Rightarrow> nat \<Rightarrow> 'e \<Rightarrow> time \<Rightarrow> rat \<Rightarrow> 'e \<Rightarrow>
   ('s, 'j) worker_cell \<Rightarrow> ('s, 'j) worker_cell" where
  "task_steps ops reg cfg k env took elapsed env' c =
    try_step (on_report ops cfg k env') (try_step (on_handled reg k took elapsed) (try_step (on_renew ops cfg k env) c))"

lemma task_at_advance:
  assumes "task_at k ws = Some t" and "\<not> tk_aborted t"
  shows "task_at k (advance k st ws) = Some (t\<lparr>tk_stage := st\<rparr>)"
  using assms task_at_in [OF assms(1)] by (simp add: advance_def task_at_def find_by_update_where)

lemma task_at_finished:
  assumes "task_at k ws = Some t" and "\<not> tk_aborted t"
  shows "task_at k (finish k ws) = Some (t\<lparr>tk_stage := Finished\<rparr>)"
  using assms task_at_advance [OF assms, of Finished] by (simp add: finish_def release_def task_at_def)

lemma finished_quiet:
  assumes "task_at k ws = Some t" and "tk_stage t = Finished"
  shows "on_handled reg k took d (ws, sv) = None" "on_report ops cfg k env (ws, sv) = None"
  using assms by (simp_all add: on_handled_def on_report_def)

lemma task_steps_execute:
  assumes "task_at k ws = Some t" and "tk_stage t = Renewing" and "\<not> tk_aborted t"
    and "took_ok reg (tk_job t) took"
  shows "snd (task_steps ops reg cfg k env took elapsed env' (ws, sv)) =
    snd (execute_job ops reg (wc_id cfg) (tk_job t) env took elapsed env' sv)"
proof -
  let ?t = "\<lambda>st. t\<lparr>tk_stage := st\<rparr>"
  obtain out sv1 where renew:
    "svc_renew_lease ops env (j_id (tk_job t)) (wc_id cfg) (lease_cover (tk_job t)) sv = (out, sv1)" by fastforce
  show ?thesis
  proof (cases out)
    case (Ok u)
    let ?ws1 = "advance k Handling ws"
    have at1: "task_at k ?ws1 = Some (?t Handling)" by (rule task_at_advance [OF assms(1,3)])
    have one: "try_step (on_renew ops cfg k env) (ws, sv) = (?ws1, sv1)"
      using assms(1,2) renew Ok by (simp add: try_step_def on_renew_def)
    show ?thesis
    proof (cases "handler_outcome reg (tk_job t) took")
      case outcome: (Ok outcome)
      let ?ws2 = "advance k (Reporting outcome elapsed) ?ws1"
      have at2: "task_at k ?ws2 = Some (?t (Reporting outcome elapsed))"
        using task_at_advance [OF at1, of "Reporting outcome elapsed"] assms(3) by simp
      have "try_step (on_handled reg k took elapsed) (?ws1, sv1) = (?ws2, sv1)"
        using at1 assms(3,4) outcome by (simp add: try_step_def on_handled_def)
      moreover have "snd (try_step (on_report ops cfg k env') (?ws2, sv1)) =
          snd (svc_report_outcome ops env' (tk_job t) (wc_id cfg) outcome elapsed sv1)"
        using at2 by (simp add: try_step_def on_report_def split: prod.splits)
      ultimately show ?thesis
        using one renew Ok outcome
        by (simp add: task_steps_def execute_job_def split: prod.splits outcome.splits)
    next
      case (Err e)
      then show ?thesis
        by (auto simp: handler_outcome_def Let_def split: option.splits if_splits outcome.splits)
    next
      case Panic
      have "try_step (on_handled reg k took elapsed) (?ws1, sv1) = (finish k ?ws1, sv1)"
        using at1 assms(3,4) Panic by (simp add: try_step_def on_handled_def)
      moreover have "task_at k (finish k ?ws1) = Some (?t Finished)"
        using task_at_finished [OF at1] assms(3) by simp
      ultimately show ?thesis
        using one renew Ok Panic finished_quiet(2) [of k "finish k ?ws1" "?t Finished" ops cfg env' sv1]
        by (simp add: task_steps_def execute_job_def try_step_def)
    qed
  next
    case (Err e)
    have at1: "task_at k (finish k ws) = Some (?t Finished)" by (rule task_at_finished [OF assms(1,3)])
    have "try_step (on_renew ops cfg k env) (ws, sv) = (finish k ws, sv1)"
      using assms(1,2) renew Err by (simp add: try_step_def on_renew_def)
    then show ?thesis
      using renew Err by (simp add: task_steps_def execute_job_def try_step_def finished_quiet [OF at1])
  next
    case Panic
    have at1: "task_at k (finish k ws) = Some (?t Finished)" by (rule task_at_finished [OF assms(1,3)])
    have "try_step (on_renew ops cfg k env) (ws, sv) = (finish k ws, sv1)"
      using assms(1,2) renew Panic by (simp add: try_step_def on_renew_def)
    then show ?thesis
      using renew Panic by (simp add: task_steps_def execute_job_def try_step_def finished_quiet [OF at1])
  qed
qed

section \<open>The example handlers under the runtime\<close>

text \<open>What the runtime makes of each example handler when it is ready in time.\<close>

lemma handler_outcome_in_time:
  assumes "registry_get reg (j_job_type job) = Some h" and "is_i32 (j_timeout_secs job)"
    and "took \<le> interval_secs (max (j_timeout_secs job) 1)"
  shows "handler_outcome reg job took =
    (case snd (h job) of Ok result \<Rightarrow> Ok (Success result) | Err msg \<Rightarrow> Ok (Failure msg) | Panic \<Rightarrow> Panic)"
proof -
  have "as_u64 (max (j_timeout_secs job) 1) = max (j_timeout_secs job) 1"
    using assms(2) by (intro as_u64_id) (auto simp: is_i32_def)
  with assms(1,3) show ?thesis by (simp add: handler_outcome_def Let_def)
qed

lemma sleep_times_out:
  assumes "registry_get reg (j_job_type job) = Some (sleep_handler js)" and "took_ok reg job took"
    and "is_i32 (j_timeout_secs job)"
    and "js_field js (js_as_u64 js) (j_payload job) ''ms'' = Some ms" and "1000 * max (j_timeout_secs job) 1 < ms"
  shows "handler_outcome reg job took = Ok Timeout"
proof -
  have "as_u64 (max (j_timeout_secs job) 1) = max (j_timeout_secs job) 1"
    using assms(3) by (intro as_u64_id) (auto simp: is_i32_def)
  moreover have "1000 * ms \<le> took" using assms(1,2,4) by (simp add: took_ok_def sleep_handler_def)
  ultimately show ?thesis
    using assms(1,5) by (simp add: handler_outcome_def interval_secs_def usecs_per_sec_def Let_def)
qed

text \<open>The number the payload of a flaky job asks for.\<close>

definition fail_until :: "'j json_api \<Rightarrow> 'j job \<Rightarrow> int" where
  "fail_until js job = unwrap_or (js_field js (js_as_i64 js) (j_payload job) ''fail_until'') 2"

lemma flaky_outcome:
  assumes "j_job_type job = ''flaky''" and "is_i32 (j_timeout_secs job)"
    and "took \<le> interval_secs (max (j_timeout_secs job) 1)"
  shows "\<exists>msg. handler_outcome (with_examples js reg) job took =
    Ok (if j_attempts job < fail_until js job then Failure msg
        else Success (Some (js_object js [(''succeeded_on_attempt'', js_int js (j_attempts job))])))"
proof -
  have "registry_get (with_examples js reg) (j_job_type job) = Some (flaky_handler js)"
    by (simp add: registry_get_examples assms(1))
  from handler_outcome_in_time [OF this assms(2,3)] show ?thesis
    by (simp add: flaky_handler_def fail_until_def Let_def)
qed

text \<open>
  One round of a worker, from the lease to the report, on a job of the example type \<open>flaky\<close>.  The job
  \<open>lease_next\<close> hands out is executed under its lease and the round ends without an error; if the handler is
  ready within the timeout, then on the attempts before \<open>fail_until\<close> the job is scheduled for another attempt, or
  is dead (dead-lettered or failed) if this was the last one, and on the attempt \<open>fail_until\<close> it is completed with the attempt's
  number as result.  No other job is touched.
\<close>

theorem flaky_round:
  assumes "calls_ok calls" and "lease_next env w qs secs (run calls empty_db) = (Ok (Some job), db)"
    and "j_job_type job = ''flaky''" and "is_i32 (j_timeout_secs job)"
    and "0 \<le> took" and "took \<le> interval_secs (max (j_timeout_secs job) 1)"
  shows "\<exists>j sv. execute_job pg_store (with_examples js reg) w job env' took elapsed env'' \<lparr>sv_store = db, sv_metrics = ms\<rparr> =
      (Ok (), sv) \<and>
    get_job (j_id job) (sv_store sv) = Ok (Some j) \<and>
    (\<forall>k. k \<noteq> j_id job \<longrightarrow> get_job k (sv_store sv) = get_job k db) \<and> j_locked_by j = None \<and>
    (if j_attempts job < fail_until js job
     then j_status j = (if j_attempts job < j_max_attempts job then Retrying
       else if j_dead_letter job then DeadLettered else Failed)
     else j_status j = Completed \<and>
       j_result j = Some (js_object js [(''succeeded_on_attempt'', js_int js (j_attempts job))]))"
proof -
  let ?reg = "with_examples js reg" and ?sv = "\<lparr>sv_store = db, sv_metrics = ms\<rparr>"
  have ok0: "store_ok (run calls empty_db)" by (rule store_ok_reached [OF assms(1)])
  note law = pg_lease_law [OF ok0 assms(2)]
  then have ok: "store_ok db" and view: "pg_view db (j_id job) = Some job" and "leased_to w (Some job)"
    by (auto simp: lease_until_def)
  then have held: "leased_to w (pg_view (sv_store ?sv) (j_id job))" by simp
  obtain msg where outcome: "handler_outcome ?reg job took = Ok (if j_attempts job < fail_until js job then Failure msg
      else Success (Some (js_object js [(''succeeded_on_attempt'', js_int js (j_attempts job))])))"
    using flaky_outcome [OF assms(3,4,6)] by blast
  have inv: "store_ok (sv_store ?sv)" using ok by simp
  obtain j sv where run: "execute_job pg_store ?reg w job env' took elapsed env'' ?sv = (Ok (), sv)"
    "store_ok (sv_store sv)" "pg_view (sv_store sv) = (pg_view db)(j_id job \<mapsto> j)"
    "reported_as (if j_attempts job < fail_until js job then Failure msg
      else Success (Some (js_object js [(''succeeded_on_attempt'', js_int js (j_attempts job))]))) job j"
    by (rule pgl.execute_job_held [OF inv held outcome, of env' elapsed env'']) (simp_all add: view)
  have get: "get_job k (sv_store sv) = Ok (pg_view (sv_store sv) k)" "get_job k db = Ok (pg_view db k)" for k
    using run(2) ok by (simp_all add: pg_get_job)
  show ?thesis
    using run(4)
    by (intro exI [of _ j] exI [of _ sv] conjI run(1))
      (auto simp: get run(3) reported_as_def failed_as_def split: if_splits)
qed

section \<open>A sample round\<close>

text \<open>A small set of JSON values, to instantiate the parameter.\<close>

datatype json = JNull | JNumber rat | JString string | JArray "json list" | JObject "(string \<times> json) list"

fun json_get :: "json \<Rightarrow> string \<Rightarrow> json option" where
  "json_get (JObject kvs) k = map_of kvs k"
| "json_get _ k = None"

fun json_int :: "json \<Rightarrow> int option" where
  "json_int (JNumber x) = (if of_int \<lfloor>x\<rfloor> = x then Some \<lfloor>x\<rfloor> else None)"
| "json_int _ = None"

definition sample_json :: "json json_api" where
  "sample_json =
    \<lparr>js_get = json_get,
     js_as_array = (\<lambda>v. case v of JArray vs \<Rightarrow> Some vs | _ \<Rightarrow> None),
     js_as_f64 = (\<lambda>v. case v of JNumber x \<Rightarrow> Some x | _ \<Rightarrow> None),
     js_as_u64 = json_int, js_as_i64 = json_int,
     js_as_str = (\<lambda>v. case v of JString t \<Rightarrow> Some t | _ \<Rightarrow> None),
     js_f64 = JNumber, js_int = (\<lambda>n. JNumber (of_int n)), js_object = JObject, js_display = (\<lambda>v. [])\<rparr>"

definition flaky_calls :: "json call list" where
  "flaky_calls =
    [(sample_env 0 1, Submit
      \<lparr>z_queue = ''q'', z_job_type = ''flaky'', z_payload = JObject [(''fail_until'', JNumber 1)], z_priority = 0,
       z_idempotency_key = None, z_max_attempts = 3, z_run_at = 0, z_status = Queued, z_timeout_secs = 60,
       z_backoff_base_secs = 2, z_backoff_max_secs = 300, z_dead_letter = True, z_metadata = JNull,
       z_correlation_id = None\<rparr>)]"

definition flaky_lease :: "(json job option, queue_error) outcome \<times> json db" where
  "flaky_lease = lease_next (sample_env 1 0) 7 [''q''] 30 (run flaky_calls empty_db)"

definition flaky_job :: "json job" where
  "flaky_job = (case fst flaky_lease of Ok (Some job) \<Rightarrow> job | _ \<Rightarrow> undefined)"

theorem flaky_round_witness:
  "\<exists>j sv. execute_job pg_store (with_examples sample_json registry_new) 7 flaky_job (sample_env 2 0) 5 0 (sample_env 3 0)
      \<lparr>sv_store = snd flaky_lease, sv_metrics = []\<rparr> = (Ok (), sv) \<and>
    get_job 1 (sv_store sv) = Ok (Some j) \<and> j_status j = Completed"
proof -
  have facts: "calls_ok flaky_calls"
    "lease_next (sample_env 1 0) 7 [''q''] 30 (run flaky_calls empty_db) = (Ok (Some flaky_job), snd flaky_lease)"
    "j_job_type flaky_job = ''flaky''" "is_i32 (j_timeout_secs flaky_job)" "(0::int) \<le> 5"
    "5 \<le> interval_secs (max (j_timeout_secs flaky_job) 1)" "j_id flaky_job = 1"
    "\<not> j_attempts flaky_job < fail_until sample_json flaky_job"
    by code_simp+
  from flaky_round [OF facts(1-6), of sample_json registry_new "sample_env 2 0" 0 "sample_env 3 0" "[]"] facts(7,8)
  show ?thesis by auto
qed

end
