(* ===== verification/Worker_Liveness.thy ===== *)
theory Worker_Liveness
  imports Worker_Execution
begin

text \<open>
  Workers finish what is waiting.  A round is one pass of a worker's loop, from the lease to the report.  Every round
  that finds a job uses up one of its attempts, so finitely many rounds leave no job waiting.
\<close>

section \<open>Work that runs out\<close>

text \<open>Steps that lower a measure as long as it is positive.\<close>

fun along :: "('r \<Rightarrow> 's \<Rightarrow> bool) \<Rightarrow> ('r \<Rightarrow> 's \<Rightarrow> 's) \<Rightarrow> 'r list \<Rightarrow> 's \<Rightarrow> bool" where
  "along allowed step [] s = True"
| "along allowed step (r # rs) s = (allowed r s \<and> along allowed step rs (step r s))"

locale bounded_work =
  fixes inv :: "'s \<Rightarrow> bool"
    and allowed :: "'r \<Rightarrow> 's \<Rightarrow> bool"
    and step :: "'r \<Rightarrow> 's \<Rightarrow> 's"
    and work :: "'s \<Rightarrow> nat"
  assumes step_inv: "inv s \<Longrightarrow> allowed r s \<Longrightarrow> inv (step r s)"
    and step_work: "inv s \<Longrightarrow> allowed r s \<Longrightarrow> 0 < work s \<Longrightarrow> work (step r s) < work s"
    and step_idle: "inv s \<Longrightarrow> allowed r s \<Longrightarrow> work s = 0 \<Longrightarrow> work (step r s) = 0"
begin

lemma steps_inv: "inv s \<Longrightarrow> along allowed step rs s \<Longrightarrow> inv (fold step rs s)"
  by (induction rs arbitrary: s) (simp_all add: step_inv)

lemma work_runs_out: "inv s \<Longrightarrow> along allowed step rs s \<Longrightarrow> work s \<le> length rs \<Longrightarrow> work (fold step rs s) = 0"
proof (induction rs arbitrary: s)
  case (Cons r rs)
  have "work (step r s) \<le> length rs"
    using Cons.prems step_work [of s r] step_idle [of s r] by (cases "work s = 0") auto
  with Cons show ?case by (simp add: step_inv)
qed simp

text \<open>What every step keeps of an item, all steps together keep.\<close>

lemma steps_keep:
  assumes "inv s" and "along allowed step rs s" and "P (item s)"
    and "\<And>r s. inv s \<Longrightarrow> P (item s) \<Longrightarrow> P (item (step r s))"
  shows "P (item (fold step rs s))"
  using assms(1-3) by (induction rs arbitrary: s) (simp_all add: step_inv assms(4))

end

text \<open>Steps that are possible only while there is work: then every run is as short as the work.\<close>

locale finite_work = bounded_work +
  assumes allowed_work: "inv s \<Longrightarrow> allowed r s \<Longrightarrow> 0 < work s"
begin

lemma runs_are_short: "inv s \<Longrightarrow> along allowed step rs s \<Longrightarrow> length rs \<le> work s"
proof (induction rs arbitrary: s)
  case (Cons r rs)
  then have "length rs \<le> work (step r s)" by (simp add: step_inv)
  also have "\<dots> < work s" using Cons.prems by (intro step_work allowed_work [of s r]) simp_all
  finally show ?case by simp
qed simp

end

section \<open>A round of a worker\<close>

record round_input =
  ri_lease :: pg_env
  ri_renew :: pg_env
  ri_took :: time
  ri_elapsed :: rat
  ri_report :: pg_env

definition work_round ::
  "'j handler_registry \<Rightarrow> uuid \<Rightarrow> string list \<Rightarrow> int \<Rightarrow> round_input \<Rightarrow> 'j db queue_service \<Rightarrow> 'j db queue_service" where
  "work_round reg w qs secs r sv =
    (case svc_lease_next pg_store (ri_lease r) w qs secs sv of
       (Ok (Some job), sv) \<Rightarrow>
         snd (execute_job pg_store reg w job (ri_renew r) (ri_took r) (ri_elapsed r) (ri_report r) sv)
     | (_, sv) \<Rightarrow> sv)"

text \<open>The jobs a worker of the queues can still get, and the attempts they have left.\<close>

definition waiting :: "string list \<Rightarrow> 'j db \<Rightarrow> 'j job_row \<Rightarrow> bool" where
  "waiting qs db r \<longleftrightarrow> r_queue r \<in> set qs \<and> queue_open (r_queue r) db \<and> is_leaseable (status_of r)"

definition attempts_left :: "string list \<Rightarrow> 'j db \<Rightarrow> 'j job_row \<Rightarrow> nat" where
  "attempts_left qs db r = (if waiting qs db r then nat (r_max_attempts r - r_attempts r) else 0)"

definition open_work :: "string list \<Rightarrow> 'j db \<Rightarrow> nat" where
  "open_work qs db = sum_list (map (attempts_left qs db) (jobs db))"

text \<open>A round that starts when the waiting jobs are due and no other transaction has locked them.\<close>

definition patient :: "string list \<Rightarrow> round_input \<Rightarrow> 'j db queue_service \<Rightarrow> bool" where
  "patient qs r sv \<longleftrightarrow>
    list_all (\<lambda>x. waiting qs (sv_store sv) x \<longrightarrow>
      r_run_at x \<le> pe_now (ri_lease r) \<and> r_id x \<notin> set (pe_locked (ri_lease r))) (jobs (sv_store sv))"

text \<open>Handlers that return.\<close>

definition handlers_return :: "'j handler_registry \<Rightarrow> bool" where
  "handlers_return reg \<longleftrightarrow> (\<forall>t h job. registry_get reg t = Some h \<longrightarrow> snd (h job) \<noteq> Panic)"

lemma sum_loop_returns: "sum_loop js acc ns \<noteq> Panic"
  by (induction ns arbitrary: acc) (simp_all split: option.splits)

lemma examples_return:
  "snd (echo_handler job) \<noteq> Panic" "snd (sum_handler js job) \<noteq> Panic" "snd (sleep_handler js job) \<noteq> Panic"
  "snd (fail_handler js job) \<noteq> Panic" "snd (flaky_handler js job) \<noteq> Panic"
proof -
  have "and_then (sum_loop js 0 ns) (\<lambda>total. Ok (Some (js_object js [(''sum'', js_f64 js total)]))) \<noteq> Panic" for ns
    using sum_loop_returns [of js 0 ns] by (cases "sum_loop js 0 ns") simp_all
  then show "snd (sum_handler js job) \<noteq> Panic" by (simp add: sum_handler_def split: option.split)
qed (simp_all add: echo_handler_def sleep_handler_def fail_handler_def flaky_handler_def Let_def)

lemma handlers_return_examples: "handlers_return reg \<Longrightarrow> handlers_return (with_examples js reg)"
  unfolding handlers_return_def
proof (intro allI impI)
  fix t h and job :: "'a job"
  assume total: "\<forall>t h job. registry_get reg t = Some h \<longrightarrow> snd (h job) \<noteq> Panic"
    and get: "registry_get (with_examples js reg) t = Some h"
  from get have "h \<in> {flaky_handler js, fail_handler js, sleep_handler js, sum_handler js, echo_handler} \<or>
      registry_get reg t = Some h"
    unfolding registry_get_examples by (auto split: if_splits)
  with total show "snd (h job) \<noteq> Panic" by (elim disjE insertE) (simp_all only: examples_return simp_thms empty_iff, blast?)
qed

lemma handler_outcome_returns: "handlers_return reg \<Longrightarrow> \<exists>outcome. handler_outcome reg job took = Ok outcome"
  by (fastforce simp: handlers_return_def handler_outcome_def Let_def split: option.splits outcome.splits)

section \<open>What a round does to the rows\<close>

fun outcome_set :: "time \<Rightarrow> 'j execution_outcome \<Rightarrow> 'j job_row \<Rightarrow> 'j job_row" where
  "outcome_set now (Success res) = complete_set now res"
| "outcome_set now (Failure err) = fail_set now err"
| "outcome_set now Timeout = fail_set now ''execution timed out''"

lemma update_job_twice:
  assumes "\<And>x. r_id (g x) = r_id x"
  shows "update_where (\<lambda>x. r_id x = i) f (update_where (\<lambda>x. r_id x = i) g xs) = update_where (\<lambda>x. r_id x = i) (f \<circ> g) xs"
  using assms by (simp add: update_where_def)

lemma report_exec:
  assumes "db_ok db" and "row_of i db = Some r" and "held_by i w r"
  shows "jobs (exec env (report_op i w outcome) db) = update_where (\<lambda>x. r_id x = i) (outcome_set (pe_now env) outcome) (jobs db)"
    and "queues (exec env (report_op i w outcome) db) = queues db"
  using assms row_of_in [OF assms(2)]
  by (cases outcome; simp add: complete_job_eq fail_job_eq fail_db_def update_job_def)+

text \<open>The row of the leased job after its round.\<close>

definition round_set :: "uuid \<Rightarrow> int \<Rightarrow> round_input \<Rightarrow> 'j execution_outcome \<Rightarrow> 'j job_row \<Rightarrow> 'j job_row" where
  "round_set w secs r outcome x =
    (let y = lease_set (pe_now (ri_lease r)) w secs x
     in outcome_set (pe_now (ri_report r)) outcome (renew_set (pe_now (ri_renew r)) (r_timeout_secs x + 30) y))"

lemma execute_leased_rows:
  assumes "store_ok db" and "row_of i db = Some y" and "held_by i w y" and "handlers_return reg"
    and "j_id job = i" and "j_timeout_secs job = t"
  shows "\<exists>outcome.
    let db' = sv_store (snd (execute_job pg_store reg w job env took elapsed env' \<lparr>sv_store = db, sv_metrics = ms\<rparr>))
    in store_ok db' \<and> queues db' = queues db \<and>
      jobs db' = update_where (\<lambda>x. r_id x = i) (outcome_set (pe_now env') outcome \<circ> renew_set (pe_now env) (t + 30)) (jobs db)"
proof -
  obtain outcome where outcome: "handler_outcome reg job took = Ok outcome" using handler_outcome_returns [OF assms(4)] by blast
  let ?db1 = "update_job i (renew_set (pe_now env) (t + 30)) db"
  have renew: "renew_lease env i w (t + 30) db = (Ok (), ?db1)"
    using assms(1-3) by (simp add: renew_lease_eq)
  then have ok1: "store_ok ?db1" using store_ok_exec [OF assms(1), of "RenewLease i w (t + 30)" env] by simp
  obtain out sv2 where report: "svc_report_outcome pg_store env' job w outcome elapsed \<lparr>sv_store = ?db1, sv_metrics = ms\<rparr> = (out, sv2)"
    by fastforce
  have db2: "sv_store sv2 = exec env' (report_op i w outcome) ?db1" using report_store [OF report] assms(5) by simp
  have "snd (execute_job pg_store reg w job env took elapsed env' \<lparr>sv_store = db, sv_metrics = ms\<rparr>) = sv2"
    using renew outcome report assms(5,6)
    by (cases out) (simp_all add: execute_job_def svc_renew_lease_def call_store_def lease_cover_def pg_store_def)
  moreover have row1: "row_of i ?db1 = Some (renew_set (pe_now env) (t + 30) y)" "held_by i w (renew_set (pe_now env) (t + 30) y)"
    using assms(2,3) by (simp_all add: row_of_update_job) (simp add: held_by_def renew_set_def)
  moreover have "store_ok (sv_store sv2)"
    unfolding db2 by (rule store_ok_exec [OF ok1]) (cases outcome; simp)
  moreover have "update_where (\<lambda>x. r_id x = i) (outcome_set (pe_now env') outcome) (jobs ?db1) =
      update_where (\<lambda>x. r_id x = i) (outcome_set (pe_now env') outcome \<circ> renew_set (pe_now env) (t + 30)) (jobs db)"
    by (simp add: update_job_def update_job_twice renew_set_def)
  ultimately show ?thesis
    using report_exec [OF store_ok_db [OF ok1] row1, of env' outcome] db2
    by (intro exI [of _ outcome]) (simp add: Let_def)
qed

lemma pg_lease_op: "so_lease_next pg_store = lease_next"
  by (simp add: pg_store_def)

lemma round_idle:
  assumes "store_ok (sv_store sv)" and "lease_candidate (ri_lease r) qs (sv_store sv) = None"
  shows "work_round reg w qs secs r sv = sv"
  using assms by (simp add: work_round_def svc_lease_next_def call_store_def pg_store_def lease_next_eq)

lemma round_rows:
  assumes "store_ok (sv_store sv)" and "handlers_return reg" and "lease_candidate (ri_lease r) qs (sv_store sv) = Some c"
  obtains outcome where "store_ok (sv_store (work_round reg w qs secs r sv))"
    "queues (sv_store (work_round reg w qs secs r sv)) = queues (sv_store sv)"
    "jobs (sv_store (work_round reg w qs secs r sv)) =
      update_where (\<lambda>x. r_id x = r_id c) (\<lambda>x. round_set w secs r outcome c) (jobs (sv_store sv))"
proof -
  let ?db = "sv_store sv" and ?f = "lease_set (pe_now (ri_lease r)) w secs"
  have ok: "db_ok ?db" using assms(1) by simp
  obtain db1 where lease: "lease_next (ri_lease r) w qs secs ?db = (Ok (Some (job_of (?f c))), db1)"
    and jobs1: "jobs db1 = update_where (\<lambda>x. r_id x = r_id c) ?f (jobs ?db)" and queues1: "queues db1 = queues ?db"
    using assms(3) by (simp add: lease_next_eq [OF ok] Let_def update_job_def)
  have ok1: "store_ok db1" using store_ok_exec [OF assms(1), of "LeaseNext w qs secs" "ri_lease r"] lease by simp
  have c: "row_of (r_id c) ?db = Some c"
    using lease_candidate_SomeD(1) [OF assms(3)] by (simp add: db_ok_find [OF ok])
  have row1: "row_of (r_id c) db1 = Some (?f c)" using row_of_leased [OF ok assms(3), of "r_id c" w secs] lease by simp
  have held: "held_by (r_id c) w (?f c)" by (simp add: held_by_def lease_set_def)
  note as = leased_as_lease_set [of "pe_now (ri_lease r)" w secs c, unfolded leased_as_def]
  have round: "work_round reg w qs secs r sv =
      snd (execute_job pg_store reg w (job_of (?f c)) (ri_renew r) (ri_took r) (ri_elapsed r) (ri_report r)
        \<lparr>sv_store = db1, sv_metrics = sv_metrics sv\<rparr>)"
    using lease by (cases sv) (simp add: work_round_def svc_lease_next_def call_store_def pg_lease_op)
  obtain outcome where run:
    "store_ok (sv_store (work_round reg w qs secs r sv))" "queues (sv_store (work_round reg w qs secs r sv)) = queues db1"
    "jobs (sv_store (work_round reg w qs secs r sv)) = update_where (\<lambda>x. r_id x = r_id c)
      (outcome_set (pe_now (ri_report r)) outcome \<circ> renew_set (pe_now (ri_renew r)) (r_timeout_secs c + 30)) (jobs db1)"
    using execute_leased_rows [OF ok1 row1 held assms(2), of "job_of (?f c)" "r_timeout_secs c" "ri_renew r" "ri_took r"
        "ri_elapsed r" "ri_report r" "sv_metrics sv"] as
    unfolding Let_def round [symmetric] by auto
  have "x = c" if "x \<in> set (jobs ?db)" "r_id x = r_id c" for x
    using that lease_candidate_SomeD(1) [OF assms(3)] db_ok_same_id [OF ok] by blast
  then have "jobs (sv_store (work_round reg w qs secs r sv)) =
      update_where (\<lambda>x. r_id x = r_id c) (\<lambda>x. round_set w secs r outcome c) (jobs ?db)"
    unfolding run(3) jobs1
    by (subst update_job_twice) (auto simp: lease_set_def update_where_def round_set_def Let_def)
  then show thesis by (rule that [OF run(1) trans [OF run(2) queues1]])
qed

section \<open>Progress\<close>

lemma round_set_facts:
  shows "same_request x (round_set w secs r outcome x)"
    and "r_attempts (round_set w secs r outcome x) = r_attempts x + 1"
    and "status_of (round_set w secs r outcome x) \<in> {Completed, Failed, DeadLettered} \<or>
      status_of (round_set w secs r outcome x) = Retrying \<and> r_attempts x + 1 < r_max_attempts x"
proof -
  show "same_request x (round_set w secs r outcome x)"
    by (cases outcome) (simp_all add: round_set_def Let_def same_request_def fail_set_def, simp_all add: row_updates same_identity_def)
  show "r_attempts (round_set w secs r outcome x) = r_attempts x + 1"
    by (cases outcome) (simp_all add: round_set_def Let_def fail_set_def, simp_all add: row_updates)
  show "status_of (round_set w secs r outcome x) \<in> {Completed, Failed, DeadLettered} \<or>
      status_of (round_set w secs r outcome x) = Retrying \<and> r_attempts x + 1 < r_max_attempts x"
    by (cases outcome) (auto simp: round_set_def Let_def status_of_fail_set retryable_def,
        auto simp: lease_set_def renew_set_def)
qed

lemma sum_list_less:
  fixes f g :: "'a \<Rightarrow> nat"
  assumes "\<And>x. x \<in> set xs \<Longrightarrow> f x \<le> g x" and "y \<in> set xs" and "f y < g y"
  shows "sum_list (map f xs) < sum_list (map g xs)"
  using assms
proof (induction xs)
  case (Cons x xs)
  have "sum_list (map f xs) \<le> sum_list (map g xs)" using Cons.prems(1) by (intro sum_list_mono) simp
  with Cons show ?case by (cases "y = x") (auto intro: add_le_less_mono add_less_le_mono)
qed simp

lemma waiting_queues: "queues db' = queues db \<Longrightarrow> waiting qs db' r = waiting qs db r"
  by (simp add: waiting_def queue_open_def)

lemma waiting_eligible:
  assumes "db_ok db" and "x \<in> set (jobs db)"
  shows "lease_eligible env qs db x \<longleftrightarrow> waiting qs db x \<and> r_run_at x \<le> pe_now env \<and> r_id x \<notin> set (pe_locked env)"
  unfolding can_lease_iff [OF assms, symmetric] waiting_def can_lease_def queue_open_iff [OF assms(1)] by blast

lemma open_work_0:
  assumes "db_ok db"
  shows "open_work qs db = 0 \<longleftrightarrow> (\<forall>x \<in> set (jobs db). \<not> waiting qs db x)"
proof -
  have "attempts_left qs db x = 0 \<longleftrightarrow> \<not> waiting qs db x" if x: "x \<in> set (jobs db)" for x
    using row_ok_iff [OF status_of_row [OF db_ok_row [OF assms x]]] db_ok_row [OF assms x]
    by (auto simp: attempts_left_def waiting_def)
  then show ?thesis by (auto simp: open_work_def)
qed

text \<open>In a round that starts when the waiting jobs are due, a job is waiting exactly when one is leased.\<close>

lemma open_work_candidate:
  assumes "store_ok (sv_store sv)" and "patient qs r sv"
  shows "lease_candidate (ri_lease r) qs (sv_store sv) = None \<longleftrightarrow> open_work qs (sv_store sv) = 0"
proof -
  let ?db = "sv_store sv"
  have ok: "db_ok ?db" using assms(1) by simp
  have "lease_eligible (ri_lease r) qs ?db x \<longleftrightarrow> waiting qs ?db x" if "x \<in> set (jobs ?db)" for x
    using waiting_eligible [OF ok that] assms(2) that by (auto simp: patient_def list_all_iff)
  then show ?thesis by (auto simp: open_work_0 [OF ok] lease_candidate_None_iff)
qed

lemma round_work:
  assumes "store_ok (sv_store sv)" and "handlers_return reg" and "patient qs r sv"
  shows "if open_work qs (sv_store sv) = 0 then work_round reg w qs secs r sv = sv
    else open_work qs (sv_store (work_round reg w qs secs r sv)) < open_work qs (sv_store sv)"
proof (cases "lease_candidate (ri_lease r) qs (sv_store sv)")
  case None
  then show ?thesis using round_idle [OF assms(1) None] open_work_candidate [OF assms(1,3)] by simp
next
  case (Some c)
  let ?db = "sv_store sv" and ?db' = "sv_store (work_round reg w qs secs r sv)"
  have ok: "db_ok ?db" using assms(1) by simp
  obtain outcome where round: "queues ?db' = queues ?db"
    "jobs ?db' = update_where (\<lambda>x. r_id x = r_id c) (\<lambda>x. round_set w secs r outcome c) (jobs ?db)"
    using round_rows [OF assms(1,2) Some] by metis
  let ?c = "round_set w secs r outcome c"
  have c: "c \<in> set (jobs ?db)" "waiting qs ?db c"
    using lease_candidate_SomeD(1,2) [OF Some] waiting_eligible [OF ok] by auto
  have less: "attempts_left qs ?db' ?c < attempts_left qs ?db c"
    using c(2) round_set_facts(1-3) [where x = c and w = w and secs = secs and r = r and outcome = outcome] row_ok_iff [OF status_of_row [OF db_ok_row [OF ok c(1)]]] db_ok_row [OF ok c(1)]
    by (auto simp: attempts_left_def waiting_queues [OF round(1)] waiting_def same_request_def)
  have others: "attempts_left qs ?db' x = attempts_left qs ?db x" for x
    by (simp add: attempts_left_def waiting_queues [OF round(1)])
  have same: "x = c" if "x \<in> set (jobs ?db)" "r_id x = r_id c" for x using db_ok_same_id [OF ok that(1) c(1) that(2)] .
  have "open_work qs ?db' = sum_list (map (\<lambda>x. attempts_left qs ?db' (if r_id x = r_id c then ?c else x)) (jobs ?db))"
    by (simp add: open_work_def round(2) update_where_def comp_def)
  also have "\<dots> < open_work qs ?db"
    unfolding open_work_def
  proof (rule sum_list_less [OF _ c(1)])
    fix x
    assume "x \<in> set (jobs ?db)"
    then show "attempts_left qs ?db' (if r_id x = r_id c then ?c else x) \<le> attempts_left qs ?db x"
      using same [of x] less others [of x] by (cases "r_id x = r_id c") simp_all
  qed (use less in simp)
  finally show ?thesis using open_work_candidate [OF assms(1,3)] Some by simp
qed

text \<open>A round changes only a waiting job, and leaves it waiting or finished.\<close>

definition finished_or_waiting :: "string list \<Rightarrow> 'j db \<Rightarrow> 'j job_row \<Rightarrow> 'j job_row option \<Rightarrow> bool" where
  "finished_or_waiting qs db r x \<longleftrightarrow>
    (\<exists>r'. x = Some r' \<and> r_queue r' = r_queue r \<and>
      (if waiting qs db r then waiting qs db r' \<or> status_of r' \<in> {Completed, Failed, DeadLettered} else r' = r))"

lemma find_by_replace:
  "k y = i \<Longrightarrow> find_by k j (update_where (\<lambda>x. k x = i) (\<lambda>x. y) rows) =
    (if j = i then map_option (\<lambda>_. y) (find_by k i rows) else find_by k j rows)"
  by (induction rows) auto

lemma round_item:
  assumes "store_ok (sv_store sv)" and "handlers_return reg" and "queues (sv_store sv) = queues db"
    and "finished_or_waiting qs db r0 (row_of i (sv_store sv))"
  shows "queues (sv_store (work_round reg w qs secs r sv)) = queues db \<and>
    finished_or_waiting qs db r0 (row_of i (sv_store (work_round reg w qs secs r sv)))"
proof (cases "lease_candidate (ri_lease r) qs (sv_store sv)")
  case None
  then show ?thesis using round_idle [OF assms(1) None] assms(3,4) by simp
next
  case (Some c)
  let ?db = "sv_store sv" and ?db' = "sv_store (work_round reg w qs secs r sv)"
  have ok: "db_ok ?db" using assms(1) by simp
  obtain outcome where round: "queues ?db' = queues ?db"
    "jobs ?db' = update_where (\<lambda>x. r_id x = r_id c) (\<lambda>x. round_set w secs r outcome c) (jobs ?db)"
    using round_rows [OF assms(1,2) Some] by metis
  let ?c = "round_set w secs r outcome c"
  note facts = round_set_facts(1,3) [where x = c and w = w and secs = secs and r = r and outcome = outcome]
  have c: "row_of (r_id c) ?db = Some c" "waiting qs db c"
    using lease_candidate_SomeD(1,2) [OF Some] waiting_eligible [OF ok] waiting_queues [OF assms(3)]
    by (auto simp: db_ok_find [OF ok])
  have row: "row_of i ?db' = (if i = r_id c then Some ?c else row_of i ?db)"
    using facts(1) c(1) by (simp add: round(2) find_by_replace same_request_def same_identity_def)
  have "finished_or_waiting qs db r0 (Some ?c)" if "i = r_id c"
    using assms(4) c facts that
    by (auto simp: finished_or_waiting_def waiting_def is_leaseable_def same_request_def same_identity_def split: if_splits)
  with row round(1) assms(3,4) show ?thesis by simp
qed

interpretation wk: bounded_work "\<lambda>sv. store_ok (sv_store sv) \<and> handlers_return reg" "patient qs"
  "work_round reg w qs secs" "\<lambda>sv. open_work qs (sv_store sv)"
proof unfold_locales
  fix sv :: "'a db queue_service" and r
  assume inv: "store_ok (sv_store sv) \<and> handlers_return reg"
  show "store_ok (sv_store (work_round reg w qs secs r sv)) \<and> handlers_return reg"
    using inv round_idle [of sv r qs reg w secs] round_rows [of sv reg r qs]
    by (cases "lease_candidate (ri_lease r) qs (sv_store sv)") metis+
  assume due: "patient qs r sv"
  show "open_work qs (sv_store (work_round reg w qs secs r sv)) < open_work qs (sv_store sv)"
    if "0 < open_work qs (sv_store sv)" using that inv round_work [of sv reg qs r w secs] due by simp
  show "open_work qs (sv_store (work_round reg w qs secs r sv)) = 0"
    if "open_work qs (sv_store sv) = 0" using that inv round_work [of sv reg qs r w secs] due by simp
qed

text \<open>
  C17. Workers finish what is waiting.  From every reachable state, with handlers that return, let a worker of some
  queues make as many rounds as the waiting jobs of the open queues among them have attempts left, each when the waiting jobs are due.
  Then every job that was waiting there is completed, failed or dead-lettered, and every other job is as it was.
\<close>

theorem workers_finish_waiting_jobs:
  assumes "calls_ok calls" and "handlers_return reg"
    and "along (patient qs) (work_round reg w qs secs) rs (reached calls ms)"
    and "open_work qs (run calls empty_db) \<le> length rs"
    and "row_of i (run calls empty_db) = Some r"
  shows "\<exists>r'. row_of i (sv_store (fold (work_round reg w qs secs) rs (reached calls ms))) = Some r' \<and>
    (if waiting qs (run calls empty_db) r then status_of r' \<in> {Completed, Failed, DeadLettered} else r' = r)"
proof -
  let ?db = "run calls empty_db" and ?sv = "reached calls ms"
  let ?final = "sv_store (fold (work_round reg w qs secs) rs ?sv)"
  have inv: "store_ok (sv_store ?sv) \<and> handlers_return reg" using store_ok_reached [OF assms(1)] assms(2) by simp
  have "open_work qs ?final = 0" using wk.work_runs_out [OF inv assms(3)] assms(4) by simp
  have ok: "db_ok ?final" using wk.steps_inv [OF inv assms(3)] by simp
  have "queues ?final = queues ?db \<and> finished_or_waiting qs ?db r (row_of i ?final)"
  proof (rule wk.steps_keep [OF inv assms(3), where item = sv_store and
      P = "\<lambda>x. queues x = queues ?db \<and> finished_or_waiting qs ?db r (row_of i x)"])
    show "queues (sv_store ?sv) = queues ?db \<and> finished_or_waiting qs ?db r (row_of i (sv_store ?sv))"
      using assms(5) by (simp add: finished_or_waiting_def)
  qed (use round_item in blast)
  then obtain r' where r': "row_of i ?final = Some r'" "queues ?final = queues ?db"
    "if waiting qs ?db r then waiting qs ?db r' \<or> status_of r' \<in> {Completed, Failed, DeadLettered} else r' = r"
    by (auto simp: finished_or_waiting_def)
  have row: "r' \<in> set (jobs ?final)" using row_of_in [OF r'(1)] by simp
  have "\<not> waiting qs ?final r'"
    using \<open>open_work qs ?final = 0\<close> row unfolding open_work_0 [OF ok] by blast
  with r' waiting_queues [OF r'(2)] show ?thesis by (auto split: if_splits)
qed

text \<open>A flaky job that fails once and then succeeds, beside a job of unknown type that runs out of attempts.\<close>

definition busy_calls :: "json call list" where
  "busy_calls = flaky_calls @
    [(sample_env 1 2, Submit
      \<lparr>z_queue = ''q'', z_job_type = ''none'', z_payload = JNull, z_priority = 5, z_idempotency_key = None,
       z_max_attempts = 1, z_run_at = 0, z_status = Queued, z_timeout_secs = 60, z_backoff_base_secs = 2,
       z_backoff_max_secs = 300, z_dead_letter = True, z_metadata = JNull, z_correlation_id = None\<rparr>)]"

definition busy_rounds :: "round_input list" where
  "busy_rounds = map (\<lambda>k. let t = (k + 1) * 1000000000 in
    \<lparr>ri_lease = sample_env t 0, ri_renew = sample_env (t + 1) 0, ri_took = 5, ri_elapsed = 0, ri_report = sample_env (t + 9) 0\<rparr>)
    [0, 1, 2, 3]"

theorem workers_finish_waiting_jobs_witness:
  "\<exists>r'. row_of 2 (sv_store (fold (work_round (with_examples sample_json registry_new) 7 [''q''] 30) busy_rounds
      (reached busy_calls []))) = Some r' \<and> status_of r' \<in> {Completed, Failed, DeadLettered}"
proof -
  let ?reg = "with_examples sample_json registry_new" and ?r = "the (row_of 2 (run busy_calls empty_db))"
  have reg: "handlers_return ?reg" by (rule handlers_return_examples) (simp add: handlers_return_def)
  have facts: "calls_ok busy_calls"
    "along (patient [''q'']) (work_round ?reg 7 [''q''] 30) busy_rounds (reached busy_calls [])"
    "open_work [''q''] (run busy_calls empty_db) \<le> length busy_rounds"
    "row_of 2 (run busy_calls empty_db) = Some ?r" "waiting [''q''] (run busy_calls empty_db) ?r"
    by code_simp+
  from workers_finish_waiting_jobs [OF facts(1) reg facts(2-4)] facts(5) show ?thesis by simp
qed

end
