(* ===== verification/Api_Config.thy ===== *)
theory Api_Config
  imports Worker_Config
begin

text \<open>
  \<open>ApiConfig\<close> of \<^verbatim>\<open>crates/api/src/config.rs\<close>.  A socket address is only handed on to the listener: its type is a
  parameter, as is its parser with the text of its error.
\<close>

record 'a api_config =
  ac_database_url :: string
  ac_bind_addr :: 'a
  ac_db_max_connections :: int
  ac_max_body_bytes :: int
  ac_json_logs :: bool

definition parsed_or :: "nat \<Rightarrow> int \<Rightarrow> string option \<Rightarrow> int" where
  "parsed_or bits d v =
    (case Option.bind v (parse_unsigned bits) of Some n \<Rightarrow> n | None \<Rightarrow> d)"

definition api_config_from_env ::
  "(string \<Rightarrow> ('a, string) outcome) \<Rightarrow> environment \<Rightarrow> ('a api_config, string) outcome" where
  "api_config_from_env parse_addr env =
    (case env ''DATABASE_URL'' of
       None \<Rightarrow> Err ''DATABASE_URL environment variable is required''
     | Some database_url \<Rightarrow>
         (case parse_addr (case env ''API_BIND_ADDR'' of Some a \<Rightarrow> a | None \<Rightarrow> ''0.0.0.0:8080'') of
            Err e \<Rightarrow> Err (''invalid API_BIND_ADDR: '' @ e)
          | Panic \<Rightarrow> Panic
          | Ok bind_addr \<Rightarrow>
              Ok \<lparr>ac_database_url = database_url, ac_bind_addr = bind_addr,
                  ac_db_max_connections = parsed_or 32 10 (env ''DB_MAX_CONNECTIONS''),
                  ac_max_body_bytes = parsed_or 64 (1024 * 1024) (env ''API_MAX_BODY_BYTES''),
                  ac_json_logs = (env ''LOG_JSON'' = Some ''true'')\<rparr>))"

lemma parsed_or_range: "0 \<le> d \<Longrightarrow> d < 2 ^ bits \<Longrightarrow> 0 \<le> parsed_or bits d v \<and> parsed_or bits d v < 2 ^ bits"
  using parse_unsigned_range by (auto simp: parsed_or_def bind_eq_Some_conv split: option.splits)

text \<open>Only a missing database URL and an unreadable address stop the start; every number is in the range of its type.\<close>

lemma api_config_total:
  assumes "env ''DATABASE_URL'' = Some url"
    and "parse_addr (case env ''API_BIND_ADDR'' of Some a \<Rightarrow> a | None \<Rightarrow> ''0.0.0.0:8080'') = Ok addr"
  shows "\<exists>cfg. api_config_from_env parse_addr env = Ok cfg \<and> ac_database_url cfg = url \<and> ac_bind_addr cfg = addr \<and>
    0 \<le> ac_db_max_connections cfg \<and> ac_db_max_connections cfg < 2 ^ 32 \<and>
    0 \<le> ac_max_body_bytes cfg \<and> ac_max_body_bytes cfg < 2 ^ 64"
  using parsed_or_range [of 10 32 "env ''DB_MAX_CONNECTIONS''"]
    parsed_or_range [of "1024 * 1024" 64 "env ''API_MAX_BODY_BYTES''"] assms
  by (simp add: api_config_from_env_def)

end
