(* ===== verification/Api_Routes.thy ===== *)
theory Api_Routes
  imports Service_Properties Rust_Parse
begin

text \<open>
  The HTTP handlers of \<^verbatim>\<open>crates/api/src/routes.rs\<close> and the error mapping of \<^verbatim>\<open>crates/api/src/error.rs\<close>.  A handler takes
  what the extractors of axum decoded and returns the status and the value that axum encodes as the body.
  The rendering of a \<open>Uuid\<close>, \<open>HeaderValue::to_str\<close>, \<^verbatim>\<open>chrono\<close>'s arithmetic and the Prometheus text encoding are other
  crates' and are parameters.
\<close>

section \<open>Errors\<close>

type_synonym status_code = int

record api_error =
  ae_status :: status_code
  ae_category :: string
  ae_message :: string

definition api_error_new :: "status_code \<Rightarrow> string \<Rightarrow> string \<Rightarrow> api_error" where
  "api_error_new status cat message = \<lparr>ae_status = status, ae_category = cat, ae_message = message\<rparr>"

definition bad_request :: "string \<Rightarrow> api_error" where
  "bad_request message = api_error_new 400 ''bad_request'' message"

definition not_found :: "string \<Rightarrow> api_error" where
  "not_found message = api_error_new 404 ''not_found'' message"

fun status_of_category :: "error_category \<Rightarrow> status_code \<times> string" where
  "status_of_category BadRequest = (400, ''bad_request'')"
| "status_of_category NotFound = (404, ''not_found'')"
| "status_of_category Conflict = (409, ''conflict'')"
| "status_of_category Internal = (500, ''internal'')"

definition api_error_from :: "(uuid \<Rightarrow> string) \<Rightarrow> queue_error \<Rightarrow> api_error" where
  "api_error_from show_uuid e =
    (let (status, cat) = status_of_category (category e)
     in \<lparr>ae_status = status, ae_category = cat, ae_message = display_error show_uuid e\<rparr>)"

section \<open>Requests and responses\<close>

datatype 'j body =
    JobBody "'j job"
  | JobListBody "'j job list" int
  | AttemptsBody "job_attempt list"
  | EventsBody uuid
  | QueueBody queue
  | QueuesBody "queue list"
  | StatsBody queue_stats
  | DeadLettersBody "'j dead_letter_job list"
  | PurgeBody int
  | TextBody string
  | ErrorBody string string

record 'j response =
  rs_status :: status_code
  rs_headers :: "(string \<times> string) list"
  rs_body :: "'j body"

definition respond :: "status_code \<Rightarrow> 'j body \<Rightarrow> 'j response" where
  "respond status b = \<lparr>rs_status = status, rs_headers = [], rs_body = b\<rparr>"

text \<open>\<open>impl IntoResponse for ApiError\<close>.\<close>

definition into_response :: "api_error \<Rightarrow> 'j response" where
  "into_response e = respond (ae_status e) (ErrorBody (ae_message e) (ae_category e))"

record dlq_query =
  dq_queue :: "string option"
  dq_limit :: "int option"

definition default_purge_age :: int where
  "default_purge_age = 7 * 24 * 3600"

text \<open>The parameters of the handlers: what they use of other crates, and the clocks of a request.\<close>

record ('e, 'j) api_env =
  ax_show_uuid :: "uuid \<Rightarrow> string"
  ax_to_str :: "string \<Rightarrow> string option"
  ax_add_secs :: chrono_add
  ax_sub_secs :: "time \<Rightarrow> int \<Rightarrow> time option"
  ax_render :: "metric_event list \<Rightarrow> string"
  ax_env :: "'e"
  ax_env' :: "'e"
  ax_now :: time

type_synonym headers = "string \<Rightarrow> string option"
type_synonym ('s, 'a) handled = "('a, api_error) outcome \<times> 's queue_service"

text \<open>\<open>let x = call.await?\<close>: an error of the service becomes an \<open>ApiError\<close>.\<close>

definition api_call ::
  "('e, 'j) api_env \<Rightarrow> ('a, queue_error) outcome \<times> 's queue_service \<Rightarrow> ('a \<Rightarrow> 'b) \<Rightarrow> ('s, 'b) handled" where
  "api_call ax r f =
    (case r of
       (Ok a, sv) \<Rightarrow> (Ok (f a), sv)
     | (Err e, sv) \<Rightarrow> (Err (api_error_from (ax_show_uuid ax) e), sv)
     | (Panic, sv) \<Rightarrow> (Panic, sv))"

section \<open>Jobs\<close>

definition with_header_key :: "('e, 'j) api_env \<Rightarrow> headers \<Rightarrow> 'j new_job \<Rightarrow> 'j new_job" where
  "with_header_key ax hs new =
    (if n_idempotency_key new = None
     then (case Option.bind (hs ''idempotency-key'') (ax_to_str ax) of
             Some key \<Rightarrow> if key \<noteq> [] then new\<lparr>n_idempotency_key := Some key\<rparr> else new
           | None \<Rightarrow> new)
     else new)"

definition route_submit_job ::
  "('s, 'e, 'j) store_ops \<Rightarrow> ('e, 'j) api_env \<Rightarrow> headers \<Rightarrow> 'j new_job \<Rightarrow> 's queue_service \<Rightarrow>
   ('s, 'j response) handled" where
  "route_submit_job ops ax hs new sv =
    api_call ax (svc_submit ops (ax_add_secs ax) (ax_env ax) (ax_now ax) (with_header_key ax hs new) sv)
      (\<lambda>sub. respond (if sub_created sub then 201 else 200) (JobBody (sub_job sub)))"

definition route_get_job ::
  "('s, 'e, 'j) store_ops \<Rightarrow> ('e, 'j) api_env \<Rightarrow> uuid \<Rightarrow> 's queue_service \<Rightarrow> ('s, 'j response) handled" where
  "route_get_job ops ax i sv =
    api_call ax (svc_get_job ops (ax_env ax) i sv) (\<lambda>job. respond 200 (JobBody job))"

definition route_list_jobs ::
  "('s, 'e, 'j) store_ops \<Rightarrow> ('e, 'j) api_env \<Rightarrow> job_filter \<Rightarrow> 's queue_service \<Rightarrow> ('s, 'j response) handled" where
  "route_list_jobs ops ax f sv =
    api_call ax (svc_list_jobs ops (ax_env ax) f sv)
      (\<lambda>jobs. respond 200 (JobListBody jobs (int (length jobs))))"

definition route_cancel_job ::
  "('s, 'e, 'j) store_ops \<Rightarrow> ('e, 'j) api_env \<Rightarrow> uuid \<Rightarrow> 's queue_service \<Rightarrow> ('s, 'j response) handled" where
  "route_cancel_job ops ax i sv =
    api_call ax (svc_cancel_job ops (ax_env ax) i sv) (\<lambda>job. respond 200 (JobBody job))"

definition route_retry_job ::
  "('s, 'e, 'j) store_ops \<Rightarrow> ('e, 'j) api_env \<Rightarrow> uuid \<Rightarrow> 's queue_service \<Rightarrow> ('s, 'j response) handled" where
  "route_retry_job ops ax i sv =
    api_call ax (svc_retry_job ops (ax_env ax) i sv) (\<lambda>job. respond 200 (JobBody job))"

definition route_job_attempts ::
  "('s, 'e, 'j) store_ops \<Rightarrow> ('e, 'j) api_env \<Rightarrow> uuid \<Rightarrow> 's queue_service \<Rightarrow> ('s, 'j response) handled" where
  "route_job_attempts ops ax i sv =
    api_call ax (svc_list_attempts ops (ax_env ax) (ax_env' ax) i sv) (\<lambda>as. respond 200 (AttemptsBody as))"

text \<open>The response starts at once; its body is the stream of \<open>job_event_stream\<close>.\<close>

definition route_job_events :: "uuid \<Rightarrow> 's queue_service \<Rightarrow> ('s, 'j response) handled" where
  "route_job_events i sv = (Ok (respond 200 (EventsBody i)), sv)"

section \<open>Queues\<close>

definition route_list_queues ::
  "('s, 'e, 'j) store_ops \<Rightarrow> ('e, 'j) api_env \<Rightarrow> 's queue_service \<Rightarrow> ('s, 'j response) handled" where
  "route_list_queues ops ax sv =
    api_call ax (svc_list_queues ops (ax_env ax) sv) (\<lambda>qs. respond 200 (QueuesBody qs))"

definition route_create_queue ::
  "('s, 'e, 'j) store_ops \<Rightarrow> ('e, 'j) api_env \<Rightarrow> string \<Rightarrow> 's queue_service \<Rightarrow> ('s, 'j response) handled" where
  "route_create_queue ops ax name sv =
    (if trim name = [] then (Err (bad_request ''queue name must not be empty''), sv)
     else api_call ax (svc_ensure_queue ops (ax_env ax) name sv) (\<lambda>q. respond 201 (QueueBody q)))"

definition route_pause_queue ::
  "('s, 'e, 'j) store_ops \<Rightarrow> ('e, 'j) api_env \<Rightarrow> string \<Rightarrow> 's queue_service \<Rightarrow> ('s, 'j response) handled" where
  "route_pause_queue ops ax name sv =
    api_call ax (svc_set_queue_paused ops (ax_env ax) name True sv) (\<lambda>q. respond 200 (QueueBody q))"

definition route_resume_queue ::
  "('s, 'e, 'j) store_ops \<Rightarrow> ('e, 'j) api_env \<Rightarrow> string \<Rightarrow> 's queue_service \<Rightarrow> ('s, 'j response) handled" where
  "route_resume_queue ops ax name sv =
    api_call ax (svc_set_queue_paused ops (ax_env ax) name False sv) (\<lambda>q. respond 200 (QueueBody q))"

definition route_queue_stats ::
  "('s, 'e, 'j) store_ops \<Rightarrow> ('e, 'j) api_env \<Rightarrow> string \<Rightarrow> 's queue_service \<Rightarrow> ('s, 'j response) handled" where
  "route_queue_stats ops ax name sv =
    api_call ax (svc_queue_stats ops (ax_env ax) name sv) (\<lambda>st. respond 200 (StatsBody st))"

section \<open>Dead letters and maintenance\<close>

definition route_list_dlq ::
  "('s, 'e, 'j) store_ops \<Rightarrow> ('e, 'j) api_env \<Rightarrow> dlq_query \<Rightarrow> 's queue_service \<Rightarrow> ('s, 'j response) handled" where
  "route_list_dlq ops ax q sv =
    (let limit = unwrap_or (dq_limit q) 50
     in api_call ax (svc_list_dead_letter ops (ax_env ax) (dq_queue q) limit sv)
          (\<lambda>ds. respond 200 (DeadLettersBody ds)))"

text \<open>The field \<open>older_than_secs\<close> of the request, with its default.\<close>

definition route_purge_finished ::
  "('s, 'e, 'j) store_ops \<Rightarrow> ('e, 'j) api_env \<Rightarrow> int option \<Rightarrow> 's queue_service \<Rightarrow> ('s, 'j response) handled" where
  "route_purge_finished ops ax older_than_secs sv =
    api_call ax (svc_purge_finished ops (ax_sub_secs ax) (ax_env ax) (ax_now ax)
        (unwrap_or older_than_secs default_purge_age) sv)
      (\<lambda>n. respond 200 (PurgeBody n))"

section \<open>Health and metrics\<close>

definition route_healthz :: "'s queue_service \<Rightarrow> ('s, 'j response) handled" where
  "route_healthz sv = (Ok (respond 200 (TextBody ''ok'')), sv)"

definition route_readyz ::
  "('s, 'e, 'j) store_ops \<Rightarrow> ('e, 'j) api_env \<Rightarrow> 's queue_service \<Rightarrow> ('s, 'j response) handled" where
  "route_readyz ops ax sv =
    (case call_store (so_get_queue ops (ax_env ax) ''__readyz__'') sv of
       (Ok q, sv) \<Rightarrow> (Ok (respond 200 (TextBody ''ready'')), sv)
     | (Err e, sv) \<Rightarrow> (Ok (respond 503 (TextBody ''not ready'')), sv)
     | (Panic, sv) \<Rightarrow> (Panic, sv))"

definition route_metrics :: "('e, 'j) api_env \<Rightarrow> 's queue_service \<Rightarrow> ('s, 'j response) handled" where
  "route_metrics ax sv =
    (Ok \<lparr>rs_status = 200, rs_headers = [(''content-type'', ''text/plain; version=0.0.4'')],
         rs_body = TextBody (ax_render ax (sv_metrics sv))\<rparr>, sv)"

end
