(* ===== verification/Api_Router.thy ===== *)
theory Api_Router
  imports Api_Routes
begin

text \<open>
  The router of \<^verbatim>\<open>crates/api/src/lib.rs\<close>: the table of routes, the correlation id middleware, and a request
  from the wire to the response.  The path is the list of its segments as sent.  The decoding of path
  parameters, query strings and bodies is axum's and serde's: a parameter that returns the value or
  the status of the rejection.
\<close>

section \<open>The table of routes\<close>

datatype http_method = GET | POST | HEAD | OtherMethod string

datatype segment = Lit string | Param

datatype endpoint =
    SubmitJob | ListJobs | GetJob | CancelJobRoute | RetryJobRoute | JobAttempts | JobEvents
  | ListQueues | CreateQueueRoute | PauseQueue | ResumeQueue | QueueStatsRoute
  | ListDlq | PurgeFinishedRoute | Healthz | Readyz | MetricsRoute

type_synonym router = "(segment list \<times> (http_method \<times> endpoint) list) list"

definition api_routes :: router where
  "api_routes =
    [([Lit ''jobs''], [(POST, SubmitJob), (GET, ListJobs)]),
     ([Lit ''jobs'', Param], [(GET, GetJob)]),
     ([Lit ''jobs'', Param, Lit ''cancel''], [(POST, CancelJobRoute)]),
     ([Lit ''jobs'', Param, Lit ''retry''], [(POST, RetryJobRoute)]),
     ([Lit ''jobs'', Param, Lit ''attempts''], [(GET, JobAttempts)]),
     ([Lit ''jobs'', Param, Lit ''events''], [(GET, JobEvents)]),
     ([Lit ''queues''], [(GET, ListQueues), (POST, CreateQueueRoute)]),
     ([Lit ''queues'', Param, Lit ''pause''], [(POST, PauseQueue)]),
     ([Lit ''queues'', Param, Lit ''resume''], [(POST, ResumeQueue)]),
     ([Lit ''queues'', Param, Lit ''stats''], [(GET, QueueStatsRoute)]),
     ([Lit ''dlq''], [(GET, ListDlq)]),
     ([Lit ''maintenance'', Lit ''purge''], [(POST, PurgeFinishedRoute)])]"

definition nest :: "string list \<Rightarrow> router \<Rightarrow> router" where
  "nest pre rs = map (\<lambda>(pat, ms). (map Lit pre @ pat, ms)) rs"

definition build_router :: router where
  "build_router =
    [([Lit ''healthz''], [(GET, Healthz)]), ([Lit ''readyz''], [(GET, Readyz)]),
     ([Lit ''metrics''], [(GET, MetricsRoute)])] @ nest [''api'', ''v1''] api_routes"

text \<open>The parameters of a path that matches a pattern; a parameter is not empty.\<close>

fun match_path :: "segment list \<Rightarrow> string list \<Rightarrow> string list option" where
  "match_path [] [] = Some []"
| "match_path (Lit l # pat) (s # path) = (if l = s then match_path pat path else None)"
| "match_path (Param # pat) (s # path) = (if s = [] then None else map_option (Cons s) (match_path pat path))"
| "match_path _ _ = None"

text \<open>
  No pattern matches: 404.  The pattern has no handler for the method: 405.  A \<open>GET\<close> route also serves \<open>HEAD\<close>.
\<close>

datatype routed = Routed endpoint "string list" | NoRoute | NoMethod

fun method_of :: "http_method \<Rightarrow> http_method" where
  "method_of HEAD = GET"
| "method_of m = m"

fun find_route :: "router \<Rightarrow> http_method \<Rightarrow> string list \<Rightarrow> routed" where
  "find_route [] m path = NoRoute"
| "find_route ((pat, ms) # rs) m path =
    (case match_path pat path of
       Some ps \<Rightarrow> (case map_of ms (method_of m) of Some e \<Rightarrow> Routed e ps | None \<Rightarrow> NoMethod)
     | None \<Rightarrow> find_route rs m path)"

text \<open>Patterns that no path can match both.\<close>

fun disjoint_patterns :: "segment list \<Rightarrow> segment list \<Rightarrow> bool" where
  "disjoint_patterns [] [] \<longleftrightarrow> False"
| "disjoint_patterns (Lit a # p) (Lit b # q) \<longleftrightarrow> a \<noteq> b \<or> disjoint_patterns p q"
| "disjoint_patterns (_ # p) (_ # q) \<longleftrightarrow> disjoint_patterns p q"
| "disjoint_patterns _ _ \<longleftrightarrow> True"

lemma disjoint_patterns_match:
  "disjoint_patterns p q \<Longrightarrow> match_path p path \<noteq> None \<Longrightarrow> match_path q path = None"
proof (induction path arbitrary: p q)
  case Nil
  then show ?case by (cases p; cases q) auto
next
  case (Cons s path)
  then obtain a p' where p: "p = a # p'" by (cases p) auto
  show ?case
  proof (cases q)
    case (Cons b q')
    with Cons.prems Cons.IH [of p' q'] p show ?thesis by (cases a; cases b) (auto split: if_splits)
  qed simp
qed

text \<open>The routes do not overlap, so the order in which the router tries them does not matter.\<close>

fun all_disjoint :: "router \<Rightarrow> bool" where
  "all_disjoint [] \<longleftrightarrow> True"
| "all_disjoint ((p, ms) # rs) \<longleftrightarrow> list_all (\<lambda>(q, ns). disjoint_patterns p q) rs \<and> all_disjoint rs"

lemma build_router_disjoint: "all_disjoint build_router"
  by code_simp

section \<open>A request\<close>

record request =
  rq_method :: http_method
  rq_path :: "string list"
  rq_query :: string
  rq_headers :: headers
  rq_content_length :: "int option"
  rq_body :: string

text \<open>What axum and serde decode; \<open>Inr status\<close> is the rejection.\<close>

record 'j extractors =
  ex_name :: "string \<Rightarrow> string + status_code"
  ex_uuid :: "string \<Rightarrow> uuid + status_code"
  ex_new_job :: "request \<Rightarrow> 'j new_job + status_code"
  ex_filter :: "request \<Rightarrow> job_filter + status_code"
  ex_create_queue :: "request \<Rightarrow> string + status_code"
  ex_dlq :: "request \<Rightarrow> dlq_query + status_code"
  ex_purge :: "request \<Rightarrow> int option + status_code"

definition reject :: "status_code \<Rightarrow> 's queue_service \<Rightarrow> ('s, 'j response) handled" where
  "reject status sv = (Ok (respond status (TextBody [])), sv)"

definition extracted ::
  "'a + status_code \<Rightarrow> ('a \<Rightarrow> 's queue_service \<Rightarrow> ('s, 'j response) handled) \<Rightarrow> 's queue_service \<Rightarrow>
   ('s, 'j response) handled" where
  "extracted x f sv = (case x of Inl a \<Rightarrow> f a sv | Inr status \<Rightarrow> reject status sv)"

text \<open>The parameter of a path; a pattern has at most one.\<close>

definition path_param :: "string list \<Rightarrow> string" where
  "path_param ps = (case ps of p # _ \<Rightarrow> p | [] \<Rightarrow> [])"

fun call_endpoint ::
  "('s, 'e, 'j) store_ops \<Rightarrow> ('e, 'j) api_env \<Rightarrow> 'j extractors \<Rightarrow> request \<Rightarrow> string list \<Rightarrow> endpoint \<Rightarrow>
   's queue_service \<Rightarrow> ('s, 'j response) handled" where
  "call_endpoint ops ax ex rq ps SubmitJob sv =
    extracted (ex_new_job ex rq) (route_submit_job ops ax (rq_headers rq)) sv"
| "call_endpoint ops ax ex rq ps ListJobs sv = extracted (ex_filter ex rq) (route_list_jobs ops ax) sv"
| "call_endpoint ops ax ex rq ps GetJob sv = extracted (ex_uuid ex (path_param ps)) (route_get_job ops ax) sv"
| "call_endpoint ops ax ex rq ps CancelJobRoute sv =
    extracted (ex_uuid ex (path_param ps)) (route_cancel_job ops ax) sv"
| "call_endpoint ops ax ex rq ps RetryJobRoute sv =
    extracted (ex_uuid ex (path_param ps)) (route_retry_job ops ax) sv"
| "call_endpoint ops ax ex rq ps JobAttempts sv =
    extracted (ex_uuid ex (path_param ps)) (route_job_attempts ops ax) sv"
| "call_endpoint ops ax ex rq ps JobEvents sv = extracted (ex_uuid ex (path_param ps)) route_job_events sv"
| "call_endpoint ops ax ex rq ps ListQueues sv = route_list_queues ops ax sv"
| "call_endpoint ops ax ex rq ps CreateQueueRoute sv =
    extracted (ex_create_queue ex rq) (route_create_queue ops ax) sv"
| "call_endpoint ops ax ex rq ps PauseQueue sv =
    extracted (ex_name ex (path_param ps)) (route_pause_queue ops ax) sv"
| "call_endpoint ops ax ex rq ps ResumeQueue sv =
    extracted (ex_name ex (path_param ps)) (route_resume_queue ops ax) sv"
| "call_endpoint ops ax ex rq ps QueueStatsRoute sv =
    extracted (ex_name ex (path_param ps)) (route_queue_stats ops ax) sv"
| "call_endpoint ops ax ex rq ps ListDlq sv = extracted (ex_dlq ex rq) (route_list_dlq ops ax) sv"
| "call_endpoint ops ax ex rq ps PurgeFinishedRoute sv =
    extracted (ex_purge ex rq) (route_purge_finished ops ax) sv"
| "call_endpoint ops ax ex rq ps Healthz sv = route_healthz sv"
| "call_endpoint ops ax ex rq ps Readyz sv = route_readyz ops ax sv"
| "call_endpoint ops ax ex rq ps MetricsRoute sv = route_metrics ax sv"

text \<open>The result of a handler as a response; \<open>Panic\<close> unwinds the connection's task.\<close>

fun as_response :: "('s, 'j response) handled \<Rightarrow> ('j response, unit) outcome \<times> 's queue_service" where
  "as_response (Ok r, sv) = (Ok r, sv)"
| "as_response (Err e, sv) = (Ok (into_response e), sv)"
| "as_response (Panic, sv) = (Panic, sv)"

definition serve_route ::
  "('s, 'e, 'j) store_ops \<Rightarrow> ('e, 'j) api_env \<Rightarrow> 'j extractors \<Rightarrow> request \<Rightarrow> 's queue_service \<Rightarrow>
   ('j response, unit) outcome \<times> 's queue_service" where
  "serve_route ops ax ex rq sv =
    (case find_route build_router (rq_method rq) (rq_path rq) of
       Routed e ps \<Rightarrow> as_response (call_endpoint ops ax ex rq ps e sv)
     | NoRoute \<Rightarrow> as_response (reject 404 sv)
     | NoMethod \<Rightarrow> as_response (reject 405 sv))"

text \<open>
  The middleware: the client's correlation id if it sent a readable one, and a fresh one otherwise, is
  set in the response, unless the text is no header value.
\<close>

definition insert_header :: "string \<Rightarrow> string \<Rightarrow> 'j response \<Rightarrow> 'j response" where
  "insert_header k v r = r\<lparr>rs_headers := filter (\<lambda>(k', _). k' \<noteq> k) (rs_headers r) @ [(k, v)]\<rparr>"

definition correlation_id ::
  "('e, 'j) api_env \<Rightarrow> (string \<Rightarrow> bool) \<Rightarrow> uuid \<Rightarrow> request \<Rightarrow>
   ('j response, unit) outcome \<times> 's queue_service \<Rightarrow> ('j response, unit) outcome \<times> 's queue_service" where
  "correlation_id ax valid_value fresh rq res =
    (let cid = (case Option.bind (rq_headers rq ''x-correlation-id'') (ax_to_str ax) of
                  Some s \<Rightarrow> s
                | None \<Rightarrow> ax_show_uuid ax fresh)
     in case res of
          (Ok r, sv) \<Rightarrow> (Ok (if valid_value cid then insert_header ''x-correlation-id'' cid r else r), sv)
        | (x, sv) \<Rightarrow> (x, sv))"

text \<open>
  The layers: the limit on the declared length of the body is outermost, the correlation id is set inside it.
  A body of undeclared length is cut off when it is read, which is a rejection by the extractor.
\<close>

definition serve ::
  "('s, 'e, 'j) store_ops \<Rightarrow> ('e, 'j) api_env \<Rightarrow> 'j extractors \<Rightarrow> (string \<Rightarrow> bool) \<Rightarrow> uuid \<Rightarrow> int \<Rightarrow> request \<Rightarrow>
   's queue_service \<Rightarrow> ('j response, unit) outcome \<times> 's queue_service" where
  "serve ops ax ex valid_value fresh max_body_bytes rq sv =
    (if (case rq_content_length rq of Some n \<Rightarrow> max_body_bytes < n | None \<Rightarrow> False) then as_response (reject 413 sv)
     else correlation_id ax valid_value fresh rq (serve_route ops ax ex rq sv))"

end
