(* ===== verification/Process_Boot.thy ===== *)
theory Process_Boot
  imports Telemetry Api_Config Api_Router Worker_Startup Worker_Execution
begin

text \<open>
  How the two binaries start: \<open>PgStore::connect\<close>, \<open>migrate\<close> and \<open>ping\<close> of \<^verbatim>\<open>crates/storage/src/lib.rs\<close>, \<open>init_tracing\<close> of
  \<^verbatim>\<open>crates/telemetry/src/lib.rs\<close>, and the \<open>main\<close> functions of \<^verbatim>\<open>crates/worker/src/main.rs\<close> and \<^verbatim>\<open>crates/api/src/main.rs\<close> up to
  the point where the process serves.  What they call of other crates is the record \<open>crates\<close>.
\<close>

section \<open>Other crates\<close>

record ('s, 'f, 'a, 'r) crates =
  cr_default_filter :: "'f option"
  cr_new_filter :: "string \<Rightarrow> 'f"
  cr_var_error :: "string \<Rightarrow> string"
  cr_connect :: "int \<Rightarrow> duration \<Rightarrow> string \<Rightarrow> ('s, string) outcome"
  cr_migrate :: "'s \<Rightarrow> (unit, string) outcome \<times> 's"
  cr_execute :: "string \<Rightarrow> 's \<Rightarrow> (unit, string) outcome \<times> 's"
  cr_parse_addr :: "string \<Rightarrow> ('a, string) outcome"
  cr_show_uuid :: "uuid \<Rightarrow> string"
  cr_accepts :: "collector \<Rightarrow> bool"
  cr_register :: "collector \<Rightarrow> 'r \<Rightarrow> 'r option"
  cr_registry :: "'r"

text \<open>An \<open>anyhow::Error\<close>: its contexts, outermost first, and its cause.\<close>

type_synonym failure = "string list"

fun with_context :: "string \<Rightarrow> ('a, failure) outcome \<Rightarrow> ('a, failure) outcome" where
  "with_context c (Ok a) = Ok a"
| "with_context c (Err e) = Err (c # e)"
| "with_context c Panic = Panic"

fun as_failure :: "('e \<Rightarrow> string) \<Rightarrow> ('a, 'e) outcome \<Rightarrow> ('a, failure) outcome" where
  "as_failure f (Ok a) = Ok a"
| "as_failure f (Err e) = Err [f e]"
| "as_failure f Panic = Panic"

section \<open>The pool\<close>

fun map_err :: "('e \<Rightarrow> 'f) \<Rightarrow> ('a, 'e) outcome \<Rightarrow> ('a, 'f) outcome" where
  "map_err f (Ok a) = Ok a"
| "map_err f (Err e) = Err (f e)"
| "map_err f Panic = Panic"

definition pg_connect :: "('s, 'f, 'a, 'r) crates \<Rightarrow> string \<Rightarrow> int \<Rightarrow> ('s, queue_error) outcome" where
  "pg_connect cr database_url max_connections =
    map_err Storage (cr_connect cr (max max_connections 1) (from_secs 10) database_url)"

definition pg_migrate :: "('s, 'f, 'a, 'r) crates \<Rightarrow> 's \<Rightarrow> (unit, queue_error) outcome \<times> 's" where
  "pg_migrate cr s = apfst (map_err (\<lambda>e. Storage (''migration failed: '' @ e))) (cr_migrate cr s)"

definition pg_ping :: "('s, 'f, 'a, 'r) crates \<Rightarrow> 's \<Rightarrow> (unit, queue_error) outcome \<times> 's" where
  "pg_ping cr s = apfst (map_err Storage) (cr_execute cr ''SELECT 1'' s)"

section \<open>Tracing\<close>

text \<open>The global subscriber: its filter and its format.\<close>

record 'f subscriber =
  tr_filter :: 'f
  tr_json :: bool

text \<open>\<open>TRACING.get_or_init(...)\<close>.  The name of the service is only logged.\<close>

definition init_tracing ::
  "('s, 'f, 'a, 'r) crates \<Rightarrow> string \<Rightarrow> bool \<Rightarrow> 'f subscriber option \<Rightarrow> 'f subscriber option" where
  "init_tracing cr service json cell =
    (case cell of
       Some s \<Rightarrow> Some s
     | None \<Rightarrow>
         let filter = unwrap_or (cr_default_filter cr) (cr_new_filter cr ''info,sqlx=warn,hyper=warn'')
         in Some \<lparr>tr_filter = filter, tr_json = json\<rparr>)"

lemma init_tracing_once [simp]:
  "init_tracing cr service' json' (init_tracing cr service json cell) = init_tracing cr service json cell"
  by (simp add: init_tracing_def Let_def split: option.split)

section \<open>Up to the store\<close>

text \<open>What a start leaves behind: the subscriber and, once connected, the database.\<close>

record ('s, 'f) started =
  st_tracing :: "'f subscriber option"
  st_store :: "'s option"

text \<open>Connect, migrate and build the service; both binaries do this in the same way.\<close>

definition open_service ::
  "('s, 'f, 'a, 'r) crates \<Rightarrow> string \<Rightarrow> string \<Rightarrow> int \<Rightarrow> 'f subscriber option \<Rightarrow>
   ('s queue_service \<times> 'r, failure) outcome \<times> ('s, 'f) started" where
  "open_service cr version url max_conn cell =
    (case with_context ''failed to connect to Postgres''
        (as_failure (display_error (cr_show_uuid cr)) (pg_connect cr url max_conn)) of
       Err e \<Rightarrow> (Err e, \<lparr>st_tracing = cell, st_store = None\<rparr>)
     | Panic \<Rightarrow> (Panic, \<lparr>st_tracing = cell, st_store = None\<rparr>)
     | Ok s \<Rightarrow>
         (case pg_migrate cr s of
            (out, s') \<Rightarrow>
              (and_then (with_context ''migrations failed'' (as_failure (display_error (cr_show_uuid cr)) out)) (\<lambda>_.
                 case metrics_new (cr_accepts cr) (cr_register cr) (cr_registry cr) version of
                   Ok r \<Rightarrow> Ok (\<lparr>sv_store = s', sv_metrics = []\<rparr>, r)
                 | _ \<Rightarrow> Panic),
               \<lparr>st_tracing = cell, st_store = Some s'\<rparr>)))"

section \<open>The worker\<close>

record ('s, 'j, 'a, 'r) worker_boot =
  wb_service :: "'s queue_service"
  wb_registry :: "'j handler_registry"
  wb_config :: worker_config
  wb_metrics :: 'r
  wb_metrics_addr :: 'a

text \<open>\<open>main\<close> of the worker up to \<open>WorkerRuntime::run\<close>.\<close>

definition boot_worker ::
  "('s, 'f, 'a, 'r) crates \<Rightarrow> 'j json_api \<Rightarrow> string \<Rightarrow> environment \<Rightarrow> uuid \<Rightarrow> 'f subscriber option \<Rightarrow>
   (('s, 'j, 'a, 'r) worker_boot, failure) outcome \<times> ('s, 'f) started" where
  "boot_worker cr js version env i cell =
    (let json_logs = (env ''LOG_JSON'' = Some ''true'');
         cell = init_tracing cr ''djq-worker'' json_logs cell
     in case env ''DATABASE_URL'' of
          None \<Rightarrow>
            (Err [''DATABASE_URL environment variable is required'', cr_var_error cr ''DATABASE_URL''],
             \<lparr>st_tracing = cell, st_store = None\<rparr>)
        | Some database_url \<Rightarrow>
            let max_conn = parsed_or 32 10 (env ''DB_MAX_CONNECTIONS'');
                (out, st) = open_service cr version database_url max_conn cell
            in (and_then out (\<lambda>(service, metrics).
                  let config = worker_config_from_env env i;
                      registry = with_examples js registry_new
                  in and_then (with_context ''invalid WORKER_METRICS_ADDR'' (as_failure (\<lambda>e. e)
                       (cr_parse_addr cr (unwrap_or (env ''WORKER_METRICS_ADDR'') ''0.0.0.0:9091'')))) (\<lambda>metrics_addr.
                     Ok \<lparr>wb_service = service, wb_registry = registry, wb_config = config, wb_metrics = metrics,
                        wb_metrics_addr = metrics_addr\<rparr>)), st))"

text \<open>\<open>runtime.run(shutdown).await?\<close>: the error of the registration ends the process.\<close>

definition worker_main ::
  "('s, 'e, 'j) store_ops \<Rightarrow> ('s, 'f, 'a, 'r) crates \<Rightarrow> 'j json_api \<Rightarrow> int \<Rightarrow> string \<Rightarrow> environment \<Rightarrow> uuid \<Rightarrow> 'e \<Rightarrow> time \<Rightarrow>
   'f subscriber option \<Rightarrow> (('s, 'j) worker_cell, failure) outcome \<times> ('s, 'f) started" where
  "worker_main ops cr js max_permits version env i e now cell =
    (case boot_worker cr js version env i cell of
       (Ok b, st) \<Rightarrow>
         (case worker_start ops max_permits (wb_config b) e now (wb_service b) of
            (out, sv) \<Rightarrow>
              (and_then (as_failure (display_error (cr_show_uuid cr)) out) (\<lambda>ws. Ok (ws, sv)),
               st\<lparr>st_store := Some (sv_store sv)\<rparr>))
     | (Err f, st) \<Rightarrow> (Err f, st)
     | (Panic, st) \<Rightarrow> (Panic, st))"

text \<open>The health server of the worker: no route looks at the database.\<close>

definition worker_router :: router where
  "worker_router =
    [([Lit ''healthz''], [(GET, Healthz)]), ([Lit ''readyz''], [(GET, Readyz)]), ([Lit ''metrics''], [(GET, MetricsRoute)])]"

definition serve_metrics :: "('r \<Rightarrow> string option) \<Rightarrow> 'r \<Rightarrow> http_method \<Rightarrow> string list \<Rightarrow> 'j response" where
  "serve_metrics encode metrics m path =
    (case find_route worker_router m path of
       Routed MetricsRoute ps \<Rightarrow> respond 200 (TextBody (render encode metrics))
     | Routed e ps \<Rightarrow> respond 200 (TextBody ''ok'')
     | NoRoute \<Rightarrow> respond 404 (TextBody [])
     | NoMethod \<Rightarrow> respond 405 (TextBody []))"

section \<open>The API server\<close>

record ('s, 'a, 'r) api_boot =
  ab_service :: "'s queue_service"
  ab_config :: "'a api_config"
  ab_metrics :: 'r

text \<open>\<open>main\<close> of the API up to the maintenance task.\<close>

definition boot_api ::
  "('s, 'f, 'a, 'r) crates \<Rightarrow> string \<Rightarrow> environment \<Rightarrow> 'f subscriber option \<Rightarrow>
   (('s, 'a, 'r) api_boot, failure) outcome \<times> ('s, 'f) started" where
  "boot_api cr version env cell =
    (case as_failure (\<lambda>e. e) (api_config_from_env (cr_parse_addr cr) env) of
       Err e \<Rightarrow> (Err e, \<lparr>st_tracing = cell, st_store = None\<rparr>)
     | Panic \<Rightarrow> (Panic, \<lparr>st_tracing = cell, st_store = None\<rparr>)
     | Ok config \<Rightarrow>
         let cell = init_tracing cr ''djq-api'' (ac_json_logs config) cell;
             (out, st) = open_service cr version (ac_database_url config) (ac_db_max_connections config) cell
         in (and_then out (\<lambda>(service, metrics).
               Ok \<lparr>ab_service = service, ab_config = config, ab_metrics = metrics\<rparr>), st))"

section \<open>What can come of a start\<close>

text \<open>
  What the crates document: connecting gives a handle to the database or an error; migrating a migrated database leaves
  it alone; an address parser does not panic; and the rules for collectors.
\<close>

definition crates_documented ::
  "('s, 'f, 'a, 'r) crates \<Rightarrow> ('r \<Rightarrow> string set) \<Rightarrow> 's \<Rightarrow> bool" where
  "crates_documented cr names db \<longleftrightarrow>
    (\<forall>n d u. cr_connect cr n d u = Ok db \<or> (\<exists>e. cr_connect cr n d u = Err e)) \<and>
    (cr_migrate cr db = (Ok (), db) \<or> (\<exists>e. cr_migrate cr db = (Err e, db))) \<and>
    (\<forall>a. cr_parse_addr cr a \<noteq> Panic) \<and>
    (\<forall>c. valid_collector c \<longrightarrow> cr_accepts cr c) \<and>
    (\<forall>c r. co_name c \<notin> names r \<longrightarrow> (\<exists>r'. cr_register cr c r = Some r' \<and> names r' = insert (co_name c) (names r))) \<and>
    names (cr_registry cr) = {}"

lemma crates_metrics:
  assumes "crates_documented cr names db"
  shows "\<exists>r. metrics_new (cr_accepts cr) (cr_register cr) (cr_registry cr) version = Ok r"
proof -
  have 1: "valid_collector c \<Longrightarrow> cr_accepts cr c" for c using assms by (simp add: crates_documented_def)
  have 2: "co_name c \<notin> names r \<Longrightarrow> \<exists>r'. cr_register cr c r = Some r' \<and> names r' = insert (co_name c) (names r)" for c r
    using assms by (simp add: crates_documented_def)
  have 3: "names (cr_registry cr) = {}" using assms by (simp add: crates_documented_def)
  show ?thesis using metrics_new_total [of "cr_accepts cr" names "cr_register cr" "cr_registry cr" version, OF 1 2 3] by blast
qed

lemma open_service_outcomes:
  assumes "crates_documented cr names db"
  obtains r where "open_service cr version url n cell =
      (Ok (\<lparr>sv_store = db, sv_metrics = []\<rparr>, r), \<lparr>st_tracing = cell, st_store = Some db\<rparr>)"
  | e x where "open_service cr version url n cell =
      (Err [''failed to connect to Postgres'', e], \<lparr>st_tracing = cell, st_store = None\<rparr>)"
  | e where "open_service cr version url n cell =
      (Err [''migrations failed'', e], \<lparr>st_tracing = cell, st_store = Some db\<rparr>)"
proof -
  have "cr_connect cr (max n 1) (from_secs 10) url = Ok db \<or> (\<exists>e. cr_connect cr (max n 1) (from_secs 10) url = Err e)"
    and "cr_migrate cr db = (Ok (), db) \<or> (\<exists>e. cr_migrate cr db = (Err e, db))"
    using assms by (simp_all add: crates_documented_def)
  then consider (lost) e where "cr_connect cr (max n 1) (from_secs 10) url = Err e"
    | (old) e where "cr_connect cr (max n 1) (from_secs 10) url = Ok db" "cr_migrate cr db = (Err e, db)"
    | (ok) "cr_connect cr (max n 1) (from_secs 10) url = Ok db" "cr_migrate cr db = (Ok (), db)"
    by blast
  then show thesis
  proof cases
    case lost
    then show ?thesis by (intro that(2)) (simp add: open_service_def pg_connect_def)
  next
    case old
    then show ?thesis by (intro that(3)) (simp add: open_service_def pg_connect_def pg_migrate_def)
  next
    case ok
    moreover obtain r where "metrics_new (cr_accepts cr) (cr_register cr) (cr_registry cr) version = Ok r"
      using crates_metrics [OF assms] by blast
    ultimately show ?thesis by (intro that(1)) (simp add: open_service_def pg_connect_def pg_migrate_def)
  qed
qed

text \<open>
  C35. What can come of starting a worker.  With crates that behave as documented, in every environment and every
  reachable state of the database: the worker runs, waiting for its first slot with at least one slot, registered, with
  every job as before; or it fails, the error names the step that failed (the database URL, the connection,
  the migrations, the address of the health server), and it has changed nothing; or it panics, which takes a concurrency
  above the limit of the semaphore, and then its registration stays behind.
\<close>

theorem worker_start_outcomes:
  assumes "calls_ok calls" and "crates_documented cr names (run calls empty_db)"
  shows "let cfg = worker_config_from_env env i; db = run calls empty_db;
      (out, st) = worker_main pg_store cr js max_permits version env i e now cell
    in case out of
         Ok (ws, sv) \<Rightarrow>
           ws_phase ws = Acquiring \<and> 1 \<le> ws_permits ws \<and> ws_permits ws = wc_concurrency cfg \<and>
           st_store st = Some (sv_store sv) \<and> pg_registered (sv_store sv) i \<and> pg_view (sv_store sv) = pg_view db
       | Err f \<Rightarrow>
           hd f \<in> {''DATABASE_URL environment variable is required'', ''failed to connect to Postgres'',
             ''migrations failed'', ''invalid WORKER_METRICS_ADDR''} \<and>
           (st_store st = None \<or> st_store st = Some db)
       | Panic \<Rightarrow>
           max_permits < wc_concurrency cfg \<and>
           (\<exists>db'. st_store st = Some db' \<and> pg_registered db' i \<and> pg_view db' = pg_view db)"
proof -
  let ?db = "run calls empty_db" and ?cfg = "worker_config_from_env env i"
  let ?addr = "cr_parse_addr cr (unwrap_or (env ''WORKER_METRICS_ADDR'') ''0.0.0.0:9091'')"
  let ?cell = "init_tracing cr ''djq-worker'' (env ''LOG_JSON'' = Some ''true'') cell"
  let ?new = "snd (register_worker e (worker_of_config ?cfg now) ?db)"
  have start: "worker_start pg_store max_permits ?cfg e now \<lparr>sv_store = ?db, sv_metrics = []\<rparr> =
      (if max_permits < wc_concurrency ?cfg then Panic
       else Ok \<lparr>ws_phase = Acquiring, ws_permits = wc_concurrency ?cfg, ws_tasks = [], ws_next = 0, ws_beat = BeatWaiting,
         ws_shutdown = False\<rparr>, \<lparr>sv_store = ?new, sv_metrics = []\<rparr>)"
    by (simp add: worker_start_def call_store_def pg_store_def register_worker_def)
  have new: "pg_registered ?new i" "pg_view ?new = pg_view ?db"
    using pg_register_law [OF store_ok_reached [OF assms(1)], of e "worker_of_config ?cfg now" _ ?new, OF prod.collapse [symmetric]]
    by (auto simp: worker_of_config_def worker_config_fields(1))
  have size: "1 \<le> wc_concurrency ?cfg" using worker_config_limits [of env i] by blast
  show ?thesis
  proof (cases "env ''DATABASE_URL''")
    case None
    then show ?thesis by (simp add: worker_main_def boot_worker_def Let_def)
  next
    case (Some url)
    show ?thesis
    proof (rule open_service_outcomes [OF assms(2), of version url "parsed_or 32 10 (env ''DB_MAX_CONNECTIONS'')" ?cell])
      fix r
      assume opened: "open_service cr version url (parsed_or 32 10 (env ''DB_MAX_CONNECTIONS'')) ?cell =
        (Ok (\<lparr>sv_store = ?db, sv_metrics = []\<rparr>, r), \<lparr>st_tracing = ?cell, st_store = Some ?db\<rparr>)"
      show ?thesis
      proof (cases ?addr)
        case (Ok a)
        with Some opened start new size show ?thesis by (simp add: worker_main_def boot_worker_def Let_def)
      next
        case (Err x)
        with Some opened show ?thesis by (simp add: worker_main_def boot_worker_def Let_def)
      next
        case Panic
        moreover have "?addr \<noteq> Panic" using assms(2) by (simp add: crates_documented_def)
        ultimately show ?thesis by blast
      qed
    qed (use Some in \<open>simp_all add: worker_main_def boot_worker_def Let_def\<close>)
  qed
qed

text \<open>A set of crates that work, over the database of a run.\<close>

definition sample_crates :: "('j db, unit, string, string list) crates" where
  "sample_crates =
    \<lparr>cr_default_filter = None, cr_new_filter = (\<lambda>s. ()), cr_var_error = (\<lambda>k. ''environment variable not found''),
     cr_connect = (\<lambda>n d url. if url = ''postgres'' then Ok (run [] empty_db) else Err ''refused''),
     cr_migrate = (\<lambda>db. (Ok (), db)), cr_execute = (\<lambda>q db. (Ok (), db)), cr_parse_addr = Ok,
     cr_show_uuid = (\<lambda>i. []), cr_accepts = valid_collector,
     cr_register = (\<lambda>c r. if co_name c \<in> set r then None else Some (co_name c # r)), cr_registry = []\<rparr>"

lemma sample_crates_documented: "crates_documented sample_crates set (run [] empty_db)"
  by (simp add: crates_documented_def sample_crates_def)

theorem worker_start_outcomes_witness:
  "\<exists>ws sv st. worker_main pg_store sample_crates sample_json 100 ''1'' [''DATABASE_URL'' \<mapsto> ''postgres''] 7 (sample_env 1 0) 0 None =
     (Ok (ws, sv), st) \<and> ws_permits ws = 8 \<and> pg_registered (sv_store sv) 7"
proof -
  let ?main = "worker_main pg_store sample_crates sample_json 100 ''1'' [''DATABASE_URL'' \<mapsto> ''postgres''] 7 (sample_env 1 0) 0 None"
  obtain out st where run: "?main = (out, st)" by fastforce
  have "is_ok (fst ?main)" "wc_concurrency (worker_config_from_env [''DATABASE_URL'' \<mapsto> ''postgres''] 7) = 8" by code_simp+
  then obtain ws sv where "out = Ok (ws, sv)" using run by (cases out) auto
  with run worker_start_outcomes [OF calls_ok_simps(1) sample_crates_documented, of "[''DATABASE_URL'' \<mapsto> ''postgres'']" 7 sample_json 100
      "''1''" "sample_env 1 0" 0 None] \<open>wc_concurrency _ = 8\<close>
  show ?thesis by (auto simp: Let_def)
qed

end
