(* ===== verification/Worker_Process.thy ===== *)
theory Worker_Process
  imports Process_Boot Worker_Shutdown
begin

text \<open>
  The worker process of \<^verbatim>\<open>crates/worker/src/main.rs\<close> after its start: the runtime, and beside it the task of
  \<open>serve_metrics\<close>, which \<open>main\<close> joins after the runtime has returned.
\<close>

section \<open>The process\<close>

text \<open>The task of the health server: before its listener is bound, with its open requests, and over.\<close>

datatype metrics_task = MetricsBinding | MetricsServing "(http_method \<times> string list) list" | MetricsOver

record ('s, 'j) worker_process =
  wp_cell :: "('s, 'j) worker_cell"
  wp_metrics :: metrics_task
  wp_responses :: "'j response list"
  wp_returned :: bool

definition process_start :: "('s, 'j) worker_cell \<Rightarrow> ('s, 'j) worker_process" where
  "process_start c = \<lparr>wp_cell = c, wp_metrics = MetricsBinding, wp_responses = [], wp_returned = False\<rparr>"

datatype 'e process_event =
    Runtime "'e worker_event"
  | MetricsBound
  | MetricsBindError
  | Scrape http_method "string list"
  | Scraped nat "string option"
  | MetricsStopped
  | MetricsError
  | MainReturned

abbreviation token_cancelled :: "('s, 'j) worker_process \<Rightarrow> bool" where
  "token_cancelled p \<equiv> ws_shutdown (fst (wp_cell p))"

text \<open>
  A listener that cannot be bound ends the task and not the worker; the result of the server is ignored.  \<open>Scraped k text\<close> answers
  the \<open>k\<close>-th open request when the encoder of the metrics gives \<open>text\<close>.
\<close>

fun metrics_step ::
  "'e process_event \<Rightarrow> ('s, 'j) worker_process \<Rightarrow> ('s, 'j) worker_process option" where
  "metrics_step MetricsBound p =
    (if wp_metrics p = MetricsBinding then Some (p\<lparr>wp_metrics := MetricsServing []\<rparr>) else None)"
| "metrics_step MetricsBindError p =
    (if wp_metrics p = MetricsBinding then Some (p\<lparr>wp_metrics := MetricsOver\<rparr>) else None)"
| "metrics_step (Scrape m path) p =
    (case wp_metrics p of
       MetricsServing rqs \<Rightarrow> if token_cancelled p then None else Some (p\<lparr>wp_metrics := MetricsServing (rqs @ [(m, path)])\<rparr>)
     | _ \<Rightarrow> None)"
| "metrics_step (Scraped k text) p =
    (case wp_metrics p of
       MetricsServing rqs \<Rightarrow>
         if k < length rqs
         then Some (p\<lparr>wp_metrics := MetricsServing (take k rqs @ drop (Suc k) rqs),
                      wp_responses := wp_responses p @ [serve_metrics (\<lambda>t. t) text (fst (rqs ! k)) (snd (rqs ! k))]\<rparr>)
         else None
     | _ \<Rightarrow> None)"
| "metrics_step MetricsStopped p =
    (if wp_metrics p = MetricsServing [] \<and> token_cancelled p then Some (p\<lparr>wp_metrics := MetricsOver\<rparr>) else None)"
| "metrics_step MetricsError p =
    (case wp_metrics p of MetricsServing rqs \<Rightarrow> Some (p\<lparr>wp_metrics := MetricsOver\<rparr>) | _ \<Rightarrow> None)"
| "metrics_step ev p = None"

definition process_step ::
  "('s, 'e, 'j) store_ops \<Rightarrow> 'j handler_registry \<Rightarrow> worker_config \<Rightarrow> time \<Rightarrow> 'e process_event \<Rightarrow>
   ('s, 'j) worker_process \<Rightarrow> ('s, 'j) worker_process option" where
  "process_step ops reg cfg now ev p =
    (if wp_returned p then None
     else case ev of
            Runtime e \<Rightarrow> map_option (\<lambda>c. p\<lparr>wp_cell := c\<rparr>) (worker_step ops reg cfg now e (wp_cell p))
          | MainReturned \<Rightarrow>
              if ws_phase (fst (wp_cell p)) = Stopped \<and> wp_metrics p = MetricsOver then Some (p\<lparr>wp_returned := True\<rparr>) else None
          | _ \<Rightarrow> metrics_step ev p)"

text \<open>The process on a shared \<open>PgStore\<close>; \<open>Inr\<close> is a call by another process.\<close>

type_synonym 'j process_input = "pg_env process_event + 'j call"

fun process_input ::
  "'j handler_registry \<Rightarrow> worker_config \<Rightarrow> time \<Rightarrow> 'j process_input \<Rightarrow> ('j db, 'j) worker_process \<Rightarrow>
   ('j db, 'j) worker_process option" where
  "process_input reg cfg now (Inl ev) p = process_step pg_store reg cfg now ev p"
| "process_input reg cfg now (Inr c) p =
    map_option (\<lambda>c. p\<lparr>wp_cell := c\<rparr>) (system_step reg cfg now (Other c) (wp_cell p))"

fun process_run ::
  "'j handler_registry \<Rightarrow> worker_config \<Rightarrow> time \<Rightarrow> 'j process_input list \<Rightarrow> ('j db, 'j) worker_process \<Rightarrow>
   ('j db, 'j) worker_process option" where
  "process_run reg cfg now [] p = Some p"
| "process_run reg cfg now (x # xs) p =
    Option.bind (process_input reg cfg now x p) (process_run reg cfg now xs)"

section \<open>The runtime inside the process\<close>

text \<open>The part of an input that the runtime takes part in.\<close>

fun runtime_events :: "'j process_input list \<Rightarrow> 'j system_event list" where
  "runtime_events [] = []"
| "runtime_events (Inl (Runtime ev) # xs) = Own ev # runtime_events xs"
| "runtime_events (Inl _ # xs) = runtime_events xs"
| "runtime_events (Inr c # xs) = Other c # runtime_events xs"

lemma metrics_step_cell:
  "metrics_step ev p = Some p' \<Longrightarrow> wp_cell p' = wp_cell p \<and> wp_returned p' = wp_returned p"
  by (cases ev) (auto split: if_splits metrics_task.splits)

lemma process_step_cases:
  assumes "process_step ops reg cfg now ev p = Some p'"
  obtains (runtime) e c where "ev = Runtime e" "\<not> wp_returned p" "worker_step ops reg cfg now e (wp_cell p) = Some c" "p' = p\<lparr>wp_cell := c\<rparr>"
  | (returned) "ev = MainReturned" "\<not> wp_returned p" "ws_phase (fst (wp_cell p)) = Stopped" "wp_metrics p = MetricsOver"
      "p' = p\<lparr>wp_returned := True\<rparr>"
  | (metrics) "\<forall>e. ev \<noteq> Runtime e" "ev \<noteq> MainReturned" "\<not> wp_returned p" "metrics_step ev p = Some p'"
  using assms by (cases ev) (auto simp: process_step_def split: if_splits)

lemma process_run_runtime:
  "process_run reg cfg now xs p = Some p' \<Longrightarrow> system_run reg cfg now (runtime_events xs) (wp_cell p) = Some (wp_cell p')"
proof (induction xs arbitrary: p)
  case (Cons x xs)
  then obtain p1 where step: "process_input reg cfg now x p = Some p1" and run: "process_run reg cfg now xs p1 = Some p'"
    by (auto simp: bind_eq_Some_conv)
  note IH = Cons.IH [OF run]
  show ?case
  proof (cases x)
    case (Inl ev)
    then have "process_step pg_store reg cfg now ev p = Some p1" using step by simp
    then show ?thesis
    proof (cases rule: process_step_cases)
      case metrics
      then show ?thesis using Inl IH metrics_step_cell [OF metrics(4)] by (cases ev) simp_all
    qed (use Inl IH in simp_all)
  next
    case (Inr c)
    with step IH show ?thesis by (cases c; cases "wp_cell p") auto
  qed
qed simp

section \<open>The process ends\<close>

fun metrics_weight :: "metrics_task \<Rightarrow> nat" where
  "metrics_weight MetricsBinding = 2"
| "metrics_weight (MetricsServing rqs) = Suc (length rqs)"
| "metrics_weight MetricsOver = 0"

definition process_remaining :: "('s, 'j) worker_process \<Rightarrow> nat" where
  "process_remaining p =
    remaining (fst (wp_cell p)) + metrics_weight (wp_metrics p) + (if wp_returned p then 0 else 1)"

text \<open>Every step of the process but those of the heartbeat task and a repeated signal.\<close>

fun is_process_step :: "'j process_input \<Rightarrow> bool" where
  "is_process_step (Inl (Runtime ev)) \<longleftrightarrow> is_progress ev"
| "is_process_step (Inl _) \<longleftrightarrow> True"
| "is_process_step (Inr c) \<longleftrightarrow> False"

definition process_ending :: "int \<Rightarrow> ('s, 'j) worker_process \<Rightarrow> bool" where
  "process_ending n p \<longleftrightarrow>
    worker_ok n (fst (wp_cell p)) \<and> ending (fst (wp_cell p)) \<and> ws_phase (fst (wp_cell p)) \<noteq> Crashed \<and> token_cancelled p \<and>
    (wp_returned p \<longrightarrow> ws_phase (fst (wp_cell p)) = Stopped \<and> wp_metrics p = MetricsOver)"

lemma token_stays:
  assumes "worker_step ops reg cfg now ev (ws, sv) = Some (ws', sv')" and "ws_shutdown ws" and "ending ws"
  shows "ws_shutdown ws'"
  using assms(1,2)
proof (cases ev)
  case (Renewed k env)
  with assms(1,2) show ?thesis by (auto elim!: on_renewE simp: advance_def finish_def drop_task_def release_def split: option.splits)
next
  case (Handled k took d)
  with assms(1,2) show ?thesis by (auto elim!: on_handledE simp: advance_def finish_def drop_task_def release_def split: option.splits)
next
  case (Reported k env)
  with assms(1,2) show ?thesis by (auto elim!: on_reportE simp: finish_def advance_def drop_task_def release_def split: option.splits)
qed (auto simp: closer_loop [OF assms(3)] on_join_next_def on_drained_def on_grace_elapsed_def on_deregister_def on_dropped_def
    on_beat_def on_reregister_def on_beat_break_def abort_beat_def abort_all_def drop_task_def release_def
    split: option.splits if_splits prod.splits outcome.splits bool.splits)

lemma metrics_step_weight:
  assumes "metrics_step ev p = Some p'" and "token_cancelled p"
  shows "metrics_weight (wp_metrics p') < metrics_weight (wp_metrics p)"
  using assms by (cases ev) (auto split: if_splits metrics_task.splits)

lemma process_ending_step:
  assumes "process_ending n p" and "process_step pg_store reg cfg now ev p = Some p'"
  shows "process_ending n p' \<and>
    process_remaining p' + (if is_process_step (Inl ev) then 1 else 0) \<le> process_remaining p"
  using assms(2)
proof (cases rule: process_step_cases)
  case (runtime e c)
  obtain ws sv ws' sv' where cells: "wp_cell p = (ws, sv)" "c = (ws', sv')" by fastforce
  then have step: "worker_step pg_store reg cfg now e (ws, sv) = Some (ws', sv')" using runtime(3) by simp
  have ok: "worker_ok n ws" "ending ws" "ws_phase ws \<noteq> Crashed" "ws_shutdown ws"
    using assms(1) cells by (simp_all add: process_ending_def)
  from closer_step [OF ok(1,2) step] worker_ok_step [OF ok(1) step] no_crash_step [OF ok(2,3) step] token_stays [OF step ok(4,2)]
  show ?thesis using runtime cells
    by (auto simp: process_ending_def process_remaining_def closer_def split: if_splits)
next
  case returned
  with assms(1) show ?thesis by (simp add: process_ending_def process_remaining_def)
next
  case metrics
  have "token_cancelled p" using assms(1) by (simp add: process_ending_def)
  from metrics_step_weight [OF metrics(4) this] metrics_step_cell [OF metrics(4)] assms(1) metrics(3) show ?thesis
    by (auto simp: process_ending_def process_remaining_def)
qed

lemma process_ending_run:
  assumes "process_run reg cfg now xs p = Some p'" and "process_ending n p"
  shows "process_ending n p' \<and> length (filter is_process_step xs) + process_remaining p' \<le> process_remaining p"
  using assms
proof (induction xs arbitrary: p)
  case (Cons x xs)
  then obtain p1 where step: "process_input reg cfg now x p = Some p1" and run: "process_run reg cfg now xs p1 = Some p'"
    by (auto simp: bind_eq_Some_conv)
  have "process_ending n p1 \<and> process_remaining p1 + (if is_process_step x then 1 else 0) \<le> process_remaining p"
  proof (cases x)
    case (Inl ev)
    then have "process_step pg_store reg cfg now ev p = Some p1" using step by simp
    from process_ending_step [OF Cons.prems(2) this] Inl show ?thesis by simp
  next
    case (Inr c)
    with step Cons.prems(2) show ?thesis
      by (cases c; cases "wp_cell p") (auto simp: process_ending_def process_remaining_def)
  qed
  with Cons.IH [OF run] show ?case by (auto split: if_splits)
qed simp

lemma process_not_stuck:
  assumes "process_ending n p" and "\<not> wp_returned p"
  shows "\<exists>ev p'. is_process_step (Inl ev) \<and> ev \<noteq> MetricsError \<and> process_step pg_store reg cfg now ev p = Some p'"
proof (cases "ws_phase (fst (wp_cell p)) = Stopped")
  case True
  show ?thesis
  proof (cases "wp_metrics p")
    case MetricsBinding
    with assms(2) show ?thesis by (intro exI [of _ MetricsBound]) (simp add: process_step_def)
  next
    case (MetricsServing rqs)
    show ?thesis
    proof (cases rqs)
      case Nil
      with MetricsServing assms show ?thesis
        by (intro exI [of _ MetricsStopped]) (simp add: process_step_def process_ending_def)
    next
      case (Cons rq rqs')
      with MetricsServing assms(2) show ?thesis by (intro exI [of _ "Scraped 0 None"]) (simp add: process_step_def)
    qed
  next
    case MetricsOver
    with True assms(2) show ?thesis by (intro exI [of _ MainReturned]) (simp add: process_step_def)
  qed
next
  case False
  obtain ws sv where cell: "wp_cell p = (ws, sv)" by fastforce
  then have "ws_phase ws = Draining \<or> ws_phase ws = Deregistering"
    using assms(1) False by (auto simp: process_ending_def ending_def stopping_def)
  then obtain ev where "is_progress ev" "worker_step pg_store reg cfg now ev (ws, sv) \<noteq> None"
    by (rule ending_not_stuck)
  with assms(2) cell show ?thesis by (intro exI [of _ "Runtime ev"]) (auto simp: process_step_def)
qed

lemma worker_main_started:
  assumes "crates_documented cr names db"
    and "worker_main pg_store cr js max_permits version env i e now cell = (Ok (ws, sv), st)"
  shows "worker_start pg_store max_permits (worker_config_from_env env i) e now \<lparr>sv_store = db, sv_metrics = []\<rparr> = (Ok ws, sv)"
proof -
  obtain b st' where boot: "boot_worker cr js version env i cell = (Ok b, st')"
    using assms(2) by (cases "boot_worker cr js version env i cell"; cases "fst (boot_worker cr js version env i cell)")
      (auto simp: worker_main_def)
  then obtain url where url: "env ''DATABASE_URL'' = Some url"
    by (cases "env ''DATABASE_URL''") (auto simp: boot_worker_def Let_def)
  let ?cell = "init_tracing cr ''djq-worker'' (env ''LOG_JSON'' = Some ''true'') cell"
  have b: "wb_service b = \<lparr>sv_store = db, sv_metrics = []\<rparr> \<and> wb_config b = worker_config_from_env env i"
    by (rule open_service_outcomes [OF assms(1), of version url "parsed_or 32 10 (env ''DB_MAX_CONNECTIONS'')" ?cell])
      (use boot url in \<open>auto simp: boot_worker_def Let_def\<close>)
  obtain out sv' where start: "worker_start pg_store max_permits (wb_config b) e now (wb_service b) = (out, sv')" by fastforce
  with assms(2) boot b show ?thesis by (cases out) (auto simp: worker_main_def)
qed

text \<open>
  C19. The worker process ends.  Take any run of a worker process that was started on a reachable store, with requests to its health
  server and calls by other processes in between, in which the token is cancelled and the lease loop has been left.  Then,
  however it goes on: its own steps (heartbeats apart) number at most four for each task it has, one for each request open at the
  health server, and five more; until \<open>main\<close> has returned it can take one of these steps, whether or not the health server could bind its
  address; and when \<open>main\<close> has returned, the runtime has stopped and the health server is over.
\<close>

theorem worker_process_ends:
  assumes "calls_ok calls" and "crates_documented cr names (run calls empty_db)"
    and "worker_main pg_store cr js max_permits version env i e now cell = (Ok c, st)"
    and "others_ok (runtime_events xs)"
    and "process_run reg (worker_config_from_env env i) now xs (process_start c) = Some p"
    and "token_cancelled p" and "ws_phase (fst (wp_cell p)) \<in> {Draining, Deregistering, Stopped}" and "\<not> wp_returned p"
    and "process_run reg (worker_config_from_env env i) now xs' p = Some p'"
  shows "length (filter is_process_step xs') \<le>
      4 * length (ws_tasks (fst (wp_cell p))) + (case wp_metrics p of MetricsServing rqs \<Rightarrow> length rqs | _ \<Rightarrow> 0) + 5 \<and>
    (wp_returned p' \<or> (\<exists>ev p''. is_process_step (Inl ev) \<and> ev \<noteq> MetricsError \<and>
      process_step pg_store reg (worker_config_from_env env i) now ev p' = Some p'')) \<and>
    (wp_returned p' \<longrightarrow> ws_phase (fst (wp_cell p')) = Stopped \<and> wp_metrics p' = MetricsOver)"
proof -
  let ?cfg = "worker_config_from_env env i"
  obtain ws0 sv0 where c: "c = (ws0, sv0)" by fastforce
  have start: "worker_start pg_store max_permits ?cfg e now (reached calls []) = (Ok ws0, sv0)"
    using worker_main_started [OF assms(2)] assms(3) c by blast
  obtain ws sv where cell: "wp_cell p = (ws, sv)" by fastforce
  have "system_run reg ?cfg now (runtime_events xs) (ws0, sv0) = Some (ws, sv)"
    using process_run_runtime [OF assms(5)] c cell by (simp add: process_start_def)
  moreover have "0 \<le> wc_concurrency ?cfg" using worker_config_limits [of env i] by simp
  ultimately have "worker_ok (wc_concurrency ?cfg) ws" using worker_reached(1) [OF assms(1) start _ assms(4)] by blast
  then have ending: "process_ending (wc_concurrency ?cfg) p"
    using assms(6-8) cell by (auto simp: process_ending_def ending_def stopping_def)
  note fin = process_ending_run [OF assms(9) ending]
  have "phase_weight (ws_phase ws) \<le> 2" by (cases "ws_phase ws") simp_all
  moreover have "metrics_weight (wp_metrics p) \<le> (case wp_metrics p of MetricsServing rqs \<Rightarrow> length rqs | _ \<Rightarrow> 0) + 2"
    by (cases "wp_metrics p") simp_all
  ultimately have "process_remaining p \<le>
      4 * length (ws_tasks ws) + (case wp_metrics p of MetricsServing rqs \<Rightarrow> length rqs | _ \<Rightarrow> 0) + 5"
    using tasks_weight_bound [of "ws_tasks ws"] cell assms(8) by (simp add: process_remaining_def remaining_def)
  with fin cell have "length (filter is_process_step xs') \<le>
      4 * length (ws_tasks (fst (wp_cell p))) + (case wp_metrics p of MetricsServing rqs \<Rightarrow> length rqs | _ \<Rightarrow> 0) + 5"
    by simp
  moreover have "wp_returned p' \<or> (\<exists>ev p''. is_process_step (Inl ev) \<and> ev \<noteq> MetricsError \<and>
      process_step pg_store reg ?cfg now ev p' = Some p'')"
    using process_not_stuck fin by blast
  ultimately show ?thesis using fin by (simp add: process_ending_def)
qed

text \<open>A worker that is told to stop before it leased a job, while its health server answers a request.\<close>

definition sample_env_vars :: environment where
  "sample_env_vars = [''DATABASE_URL'' \<mapsto> ''postgres'']"

definition sample_main :: "((json db, json) worker_cell, failure) outcome \<times> (json db, unit) started" where
  "sample_main = worker_main pg_store sample_crates sample_json 100 ''1'' sample_env_vars 7 (sample_env 1 0) 0 None"

definition sample_cell :: "(json db, json) worker_cell" where
  "sample_cell = cell_of (case fst sample_main of Ok (ws, sv) \<Rightarrow> (Ok ws, sv) | _ \<Rightarrow> (Panic, reached [] []))"

definition leave_loop :: "json process_input list" where
  "leave_loop =
    [Inl MetricsBound, Inl (Scrape GET [''healthz'']), Inl (Runtime TokenCancelled), Inl (Runtime Break)]"

definition leave_process :: "json process_input list" where
  "leave_process =
    [Inl (Runtime Drained), Inl (Scraped 0 None), Inl (Runtime (Deregistered (sample_env 2 0))), Inl MetricsStopped, Inl MainReturned]"

abbreviation sample_process :: "json process_input list \<Rightarrow> (json db, json) worker_process \<Rightarrow> (json db, json) worker_process option" where
  "sample_process \<equiv> process_run (with_examples sample_json registry_new) (worker_config_from_env sample_env_vars 7) 0"

lemma sample_main_eq: "sample_main = (Ok sample_cell, snd sample_main)"
proof -
  have "is_ok (fst sample_main)" by code_simp
  then show ?thesis by (auto simp: sample_cell_def cell_of_def is_ok_iff prod_eq_iff)
qed

theorem worker_process_ends_witness:
  "\<exists>p p'. sample_process leave_loop (process_start sample_cell) = Some p \<and> sample_process leave_process p = Some p' \<and>
    wp_returned p' \<and> ws_phase (fst (wp_cell p')) = Stopped \<and> wp_metrics p' = MetricsOver \<and> length (wp_responses p') = 1"
proof -
  have "(case sample_process leave_loop (process_start sample_cell) of
      Some p \<Rightarrow> token_cancelled p \<and> ws_phase (fst (wp_cell p)) = Draining \<and> \<not> wp_returned p \<and>
        (case sample_process leave_process p of Some p' \<Rightarrow> wp_returned p' \<and> length (wp_responses p') = 1 | None \<Rightarrow> False)
    | None \<Rightarrow> False)"
    by code_simp
  then obtain p p' where run: "sample_process leave_loop (process_start sample_cell) = Some p" "token_cancelled p"
      "ws_phase (fst (wp_cell p)) = Draining" "\<not> wp_returned p" "sample_process leave_process p = Some p'" "wp_returned p'"
      "length (wp_responses p') = 1"
    by (auto split: option.splits)
  have "others_ok (runtime_events leave_loop)" by code_simp
  from worker_process_ends [OF calls_ok_simps(1) sample_crates_documented sample_main_eq [unfolded sample_main_def] this run(1,2) _ run(4,5)]
    run show ?thesis by auto
qed

end
