(* ===== verification/Api_Sse.thy ===== *)
theory Api_Sse
  imports Service_Properties
begin

text \<open>
  The status stream of \<^verbatim>\<open>crates/api/src/sse.rs\<close>: \<open>futures::stream::unfold\<close> over \<open>StreamState\<close>.  The stream reads the
  store only through \<open>get_job\<close>; what the \<open>n\<close>-th poll of the connection answers is the argument \<open>answer n\<close>, since
  other processes change the store between polls.  The JSON encoding of an event is a parameter.
\<close>

section \<open>State and events\<close>

definition MAX_POLLS :: nat where
  "MAX_POLLS = 1200"

record job_event =
  je_id :: uuid
  je_status :: string
  je_attempts :: int
  je_last_error :: "string option"

text \<open>An event of the stream: its name and its data.\<close>

record sse_event =
  ev_event :: string
  ev_data :: string

record stream_state =
  ss_id :: uuid
  ss_last :: "job_status option"
  ss_first :: bool
  ss_done :: bool
  ss_polls :: nat

type_synonym 'j answers = "nat \<Rightarrow> ('j job, queue_error) outcome"

definition stream_start :: "uuid \<Rightarrow> stream_state" where
  "stream_start i = \<lparr>ss_id = i, ss_last = None, ss_first = True, ss_done = False, ss_polls = 0\<rparr>"

definition job_event_of :: "'j job \<Rightarrow> job_event" where
  "job_event_of job =
    \<lparr>je_id = j_id job, je_status = as_str (j_status job), je_attempts = j_attempts job,
     je_last_error = j_last_error job\<rparr>"

definition timeout_event :: sse_event where
  "timeout_event = \<lparr>ev_event = ''timeout'', ev_data = ''stream closed''\<rparr>"

definition missing_event :: sse_event where
  "missing_event = \<lparr>ev_event = ''error'', ev_data = ''job not found''\<rparr>"

definition status_event :: "(job_event \<Rightarrow> string option) \<Rightarrow> 'j job \<Rightarrow> sse_event" where
  "status_event encode job =
    (case encode (job_event_of job) of
       Some d \<Rightarrow> \<lparr>ev_event = ''status'', ev_data = d\<rparr>
     | None \<Rightarrow> \<lparr>ev_event = ''error'', ev_data = ''encode error''\<rparr>)"

section \<open>The stream\<close>

text \<open>The \<open>loop\<close> of the closure: poll until there is an event to return.\<close>

function sse_loop ::
  "(job_event \<Rightarrow> string option) \<Rightarrow> 'j answers \<Rightarrow> stream_state \<Rightarrow> (sse_event \<times> stream_state, unit) outcome" where
  "sse_loop encode answer st =
    (if MAX_POLLS \<le> ss_polls st then Ok (timeout_event, st\<lparr>ss_done := True\<rparr>)
     else let n = ss_polls st; st = st\<lparr>ss_polls := n + 1\<rparr>
       in case answer n of
            Ok job \<Rightarrow>
              if ss_first st \<or> ss_last st \<noteq> Some (j_status job)
              then let st = st\<lparr>ss_first := False, ss_last := Some (j_status job)\<rparr>;
                       st = (if is_terminal (j_status job) then st\<lparr>ss_done := True\<rparr> else st)
                in Ok (status_event encode job, st)
              else sse_loop encode answer st
          | Err e \<Rightarrow> Ok (missing_event, st\<lparr>ss_done := True\<rparr>)
          | Panic \<Rightarrow> Panic)"
  by pat_completeness auto
termination
  by (relation "measure (\<lambda>(encode, answer, st). MAX_POLLS - ss_polls st)") auto

declare sse_loop.simps [simp del]

definition sse_next ::
  "(job_event \<Rightarrow> string option) \<Rightarrow> 'j answers \<Rightarrow> stream_state \<Rightarrow>
   ((sse_event \<times> stream_state) option, unit) outcome" where
  "sse_next encode answer st =
    (if ss_done st then Ok None else and_then (sse_loop encode answer st) (\<lambda>x. Ok (Some x)))"

text \<open>Every element of the stream polls at least once more, or is the last one.\<close>

lemma sse_loop_progress:
  "sse_loop encode answer st = Ok (e, st') \<Longrightarrow>
    ss_polls st < ss_polls st' \<and> ss_polls st' \<le> MAX_POLLS \<or> ss_done st' \<and> ss_polls st' = ss_polls st"
proof (induction encode answer st rule: sse_loop.induct)
  case (1 encode answer st)
  show ?case
  proof (cases "MAX_POLLS \<le> ss_polls st")
    case True
    with "1.prems" show ?thesis by (auto simp: sse_loop.simps [of encode answer st])
  next
    case False
    show ?thesis
    proof (cases "answer (ss_polls st)")
      case (Ok job)
      show ?thesis
      proof (cases "ss_first st \<or> ss_last st \<noteq> Some (j_status job)")
        case True
        with "1.prems" False Ok show ?thesis
          by (auto simp: sse_loop.simps [of encode answer st] Let_def split: if_splits)
      next
        case same: False
        have "sse_loop encode answer (st\<lparr>ss_polls := ss_polls st + 1\<rparr>) = Ok (e, st')"
          using "1.prems" False Ok same by (simp add: sse_loop.simps [of encode answer st])
        from "1.IH" [OF False refl refl Ok _ this] False same show ?thesis by auto
      qed
    qed (use "1.prems" False in \<open>auto simp: sse_loop.simps [of encode answer st]\<close>)
  qed
qed

text \<open>The events of the whole stream; \<open>Panic\<close> when a poll panics.\<close>

function sse_events ::
  "(job_event \<Rightarrow> string option) \<Rightarrow> 'j answers \<Rightarrow> stream_state \<Rightarrow> (sse_event list, unit) outcome" where
  "sse_events encode answer st =
    (case sse_next encode answer st of
       Ok None \<Rightarrow> Ok []
     | Ok (Some (e, st')) \<Rightarrow> and_then (sse_events encode answer st') (\<lambda>es. Ok (e # es))
     | Err u \<Rightarrow> Err u
     | Panic \<Rightarrow> Panic)"
  by pat_completeness auto
termination
proof (relation "measure (\<lambda>(encode, answer, st). (MAX_POLLS - ss_polls st) + (if ss_done st then 0 else 1))")
  fix encode and answer :: "'j answers" and st st' e and x2 :: "(sse_event \<times> stream_state) option"
    and p :: "sse_event \<times> stream_state"
  assume "sse_next encode answer st = Ok x2" and "x2 = Some p" and "(e, st') = p"
  then have "\<not> ss_done st" "sse_loop encode answer st = Ok (e, st')"
    by (auto simp: sse_next_def split: if_splits)
  with sse_loop_progress show "((encode, answer, st'), (encode, answer, st)) \<in>
      measure (\<lambda>(encode, answer, st). (MAX_POLLS - ss_polls st) + (if ss_done st then 0 else 1))"
    by fastforce
qed simp

declare sse_events.simps [simp del]

definition job_event_stream ::
  "(job_event \<Rightarrow> string option) \<Rightarrow> 'j answers \<Rightarrow> uuid \<Rightarrow> (sse_event list, unit) outcome" where
  "job_event_stream encode answer i = sse_events encode answer (stream_start i)"

section \<open>What the stream shows\<close>

text \<open>
  The intended stream, as a function of the sequence of answers: a status event whenever the status differs
  from the last one shown, up to a terminal status, a missing job or the end of the polls.
\<close>

fun sse_spec :: "(job_event \<Rightarrow> string option) \<Rightarrow> job_status option \<Rightarrow> ('j job, queue_error) outcome list \<Rightarrow> sse_event list" where
  "sse_spec encode shown [] = [timeout_event]"
| "sse_spec encode shown (Ok job # as) =
    (if shown = Some (j_status job) then sse_spec encode shown as
     else status_event encode job #
       (if is_terminal (j_status job) then [] else sse_spec encode (Some (j_status job)) as))"
| "sse_spec encode shown (_ # as) = [missing_event]"

lemma upt_split: "n < m \<Longrightarrow> map f [n..<m] = f n # map f [Suc n..<m]"
  by (simp add: upt_conv_Cons)

lemma sse_events_done: "ss_done st \<Longrightarrow> sse_events encode answer st = Ok []"
  by (simp add: sse_events.simps [of encode answer st] sse_next_def)

lemma sse_events_step:
  assumes "\<not> ss_done st" and "sse_loop encode answer st = Ok (e, st')" and "sse_events encode answer st' = Ok es"
  shows "sse_events encode answer st = Ok (e # es)"
  using assms by (simp add: sse_events.simps [of encode answer st] sse_next_def)

lemma sse_events_skip:
  assumes "\<not> ss_done st" and "\<not> ss_done st'" and "sse_loop encode answer st = sse_loop encode answer st'"
  shows "sse_events encode answer st = sse_events encode answer st'"
  using assms by (simp add: sse_events.simps [of encode answer st] sse_events.simps [of encode answer st'] sse_next_def)

lemma sse_events_eq:
  assumes "\<And>n. answer n \<noteq> Panic" and "ss_polls st \<le> MAX_POLLS" and "\<not> ss_done st"
    and "ss_first st = (ss_last st = None)"
  shows "sse_events encode answer st = Ok (sse_spec encode (ss_last st) (map answer [ss_polls st..<MAX_POLLS]))"
  using assms(2-)
proof (induction "MAX_POLLS - ss_polls st" arbitrary: st)
  case 0
  then have "sse_loop encode answer st = Ok (timeout_event, st\<lparr>ss_done := True\<rparr>)"
    by (simp add: sse_loop.simps [of encode answer st])
  with 0 show ?case by (simp add: sse_events_step sse_events_done)
next
  case (Suc m)
  let ?n = "ss_polls st"
  have n: "?n < MAX_POLLS" using Suc.hyps(2) by simp
  note split = upt_split [OF n, of answer]
  show ?case
  proof (cases "answer ?n")
    case (Ok job)
    let ?st1 = "st\<lparr>ss_polls := ?n + 1\<rparr>" and ?s = "j_status job"
    have m: "m = MAX_POLLS - (?n + 1)" using Suc.hyps(2) by simp
    show ?thesis
    proof (cases "ss_last st = Some ?s")
      case True
      then have "sse_loop encode answer st = sse_loop encode answer ?st1"
        using n Ok Suc.prems(3) by (simp add: sse_loop.simps [of encode answer st])
      then have "sse_events encode answer st = sse_events encode answer ?st1"
        using Suc.prems by (intro sse_events_skip) simp_all
      also have "\<dots> = Ok (sse_spec encode (ss_last st) (map answer [Suc ?n..<MAX_POLLS]))"
        using Suc.hyps(1) [of ?st1] m n Suc.prems by simp
      finally show ?thesis using True Ok by (simp add: split)
    next
      case False
      let ?st2 = "?st1\<lparr>ss_first := False, ss_last := Some ?s\<rparr>"
      have loop: "sse_loop encode answer st =
          Ok (status_event encode job, if is_terminal ?s then ?st2\<lparr>ss_done := True\<rparr> else ?st2)"
        using n Ok False Suc.prems(3) by (simp add: sse_loop.simps [of encode answer st] Let_def)
      have "sse_events encode answer ?st2 = Ok (sse_spec encode (Some ?s) (map answer [Suc ?n..<MAX_POLLS]))"
        using Suc.hyps(1) [of ?st2] m n Suc.prems by simp
      with loop False Ok Suc.prems(2) show ?thesis
        by (auto simp: split sse_events_done intro!: sse_events_step [OF _ loop])
    qed
  next
    case (Err e)
    then have "sse_loop encode answer st = Ok (missing_event, st\<lparr>ss_polls := ?n + 1, ss_done := True\<rparr>)"
      using n by (simp add: sse_loop.simps [of encode answer st])
    with Err Suc.prems show ?thesis by (simp add: split sse_events_step sse_events_done)
  qed (use assms(1) in simp)
qed

lemma sse_spec_length: "length (sse_spec encode shown as) \<le> length as + 1"
  by (induction encode shown as rule: sse_spec.induct) auto

text \<open>The last event says why the stream ended.\<close>

definition closing_event :: "(job_event \<Rightarrow> string option) \<Rightarrow> ('j job, queue_error) outcome list \<Rightarrow> sse_event \<Rightarrow> bool" where
  "closing_event encode as e \<longleftrightarrow>
    e = timeout_event \<or> e = missing_event \<and> (\<exists>a \<in> set as. \<not> is_ok a) \<or>
    (\<exists>job. Ok job \<in> set as \<and> is_terminal (j_status job) \<and> e = status_event encode job)"

lemma closing_event_mono: "closing_event encode as e \<Longrightarrow> set as \<subseteq> set bs \<Longrightarrow> closing_event encode bs e"
  unfolding closing_event_def by blast

lemma sse_spec_closed: "\<exists>es e. sse_spec encode shown as = es @ [e] \<and> closing_event encode as e"
proof (induction encode shown as rule: sse_spec.induct)
  case (2 encode shown job as)
  show ?case
  proof (cases "shown = Some (j_status job)")
    case True
    then obtain es e where "sse_spec encode shown as = es @ [e]" "closing_event encode as e" using "2.IH"(1) by blast
    with True show ?thesis using closing_event_mono [of encode as e "Ok job # as"] by auto
  next
    case new: False
    show ?thesis
    proof (cases "is_terminal (j_status job)")
      case True
      with new show ?thesis by (auto simp: closing_event_def intro!: exI [of _ "[]"])
    next
      case False
      then obtain es e where "sse_spec encode (Some (j_status job)) as = es @ [e]" "closing_event encode as e"
        using "2.IH"(2) [OF new] by blast
      with new False show ?thesis
        using closing_event_mono [of encode as e "Ok job # as"]
        by (auto intro!: exI [of _ "status_event encode job # es"])
    qed
  qed
qed (auto simp: closing_event_def)

text \<open>
  C33. The status stream of a job ends, and shows what it should.  Whatever other processes do to the store between
  the polls, the stream of a connection makes at most 1200 polls and sends at most 1201 events: a status
  event for the first poll and for every poll whose status differs from the last one shown, nothing
  for the others.  It ends with the first terminal status, with an error event at the first poll that does not find the job,
  or with a timeout event after 1200 polls, and the last event says which.
\<close>

theorem sse_stream_terminates:
  fixes histories :: "nat \<Rightarrow> 'j call list"
  assumes "\<forall>n. calls_ok (histories n)"
  shows "let answer = (\<lambda>n. fst (svc_get_job pg_store (envs n) i (reached (histories n) (ms n))));
      as = map answer [0..<1200]; events = sse_spec encode None as
    in job_event_stream encode answer i = Ok events \<and> length events \<le> 1201 \<and>
      (\<exists>es e. events = es @ [e] \<and> closing_event encode as e) \<and>
      (\<forall>n. answer n = (case get_job i (run (histories n) empty_db) of
         Ok (Some j) \<Rightarrow> Ok j | _ \<Rightarrow> Err (JobNotFound i)))"
proof -
  define answer :: "'j answers" where
    "answer = (\<lambda>n. fst (svc_get_job pg_store (envs n) i (reached (histories n) (ms n))))"
  have ok: "store_ok (run (histories n) empty_db)" for n using assms by (simp add: store_ok_reached)
  have answer: "answer n = (case pg_view (run (histories n) empty_db) i of Some j \<Rightarrow> Ok j | None \<Rightarrow> Err (JobNotFound i))" for n
    using pg.svc_get_job_eq [of "reached (histories n) (ms n)" "envs n" i] ok by (simp add: answer_def)
  then have "answer n \<noteq> Panic" for n by (simp split: option.splits)
  then have "job_event_stream encode answer i = Ok (sse_spec encode None (map answer [0..<1200]))"
    using sse_events_eq [of answer "stream_start i" encode]
    by (simp add: job_event_stream_def stream_start_def MAX_POLLS_def)
  moreover have "length (sse_spec encode None (map answer [0..<1200])) \<le> 1201"
    using sse_spec_length [of encode None "map answer [0..<1200]"] by simp
  moreover have "answer n = (case get_job i (run (histories n) empty_db) of
      Ok (Some j) \<Rightarrow> Ok j | _ \<Rightarrow> Err (JobNotFound i))" for n
    using answer ok by (simp add: pg_get_job split: option.splits)
  ultimately show ?thesis
    using sse_spec_closed [of encode None "map answer [0..<1200]"]
    unfolding Let_def answer_def [symmetric] by blast
qed

text \<open>A job that is cancelled between the third and the fourth poll.\<close>

definition watched :: "nat \<Rightarrow> unit call list" where
  "watched n = (if n < 3 then take 1 sample_calls else take 1 sample_calls @ [(sample_env 5 0, CancelJob 1)])"

theorem sse_stream_terminates_witness:
  "\<exists>es. job_event_stream (\<lambda>e. Some (je_status e))
      (\<lambda>n. fst (svc_get_job pg_store (sample_env (int n) 0) 1 (reached (watched n) []))) 1 = Ok es \<and>
    length es \<le> 1201"
proof -
  have "calls_ok (take 1 sample_calls)" "calls_ok (take 1 sample_calls @ [(sample_env 5 0, CancelJob 1)])"
    by code_simp+
  then have "\<forall>n. calls_ok (watched n)" by (simp add: watched_def)
  from sse_stream_terminates [OF this, of "\<lambda>n. sample_env (int n) 0" 1 "\<lambda>n. []" "\<lambda>e. Some (je_status e)"]
  show ?thesis by (auto simp: Let_def)
qed

end
