(* ===== verification/Api_Properties.thy ===== *)
theory Api_Properties
  imports Api_Router
begin

text \<open>What the HTTP interface guarantees: the shape of its responses over any store, and what they mean over \<open>PgStore\<close>.\<close>

section \<open>The shape of responses\<close>

text \<open>What a handler returns on success.\<close>

definition success_shape :: "endpoint \<Rightarrow> status_code \<Rightarrow> 'j body \<Rightarrow> bool" where
  "success_shape e s b \<longleftrightarrow>
    (case e of
       SubmitJob \<Rightarrow> (s = 200 \<or> s = 201) \<and> (\<exists>j. b = JobBody j)
     | ListJobs \<Rightarrow> s = 200 \<and> (\<exists>js. b = JobListBody js (int (length js)))
     | GetJob \<Rightarrow> s = 200 \<and> (\<exists>j. b = JobBody j)
     | CancelJobRoute \<Rightarrow> s = 200 \<and> (\<exists>j. b = JobBody j)
     | RetryJobRoute \<Rightarrow> s = 200 \<and> (\<exists>j. b = JobBody j)
     | JobAttempts \<Rightarrow> s = 200 \<and> (\<exists>as. b = AttemptsBody as)
     | JobEvents \<Rightarrow> s = 200 \<and> (\<exists>i. b = EventsBody i)
     | ListQueues \<Rightarrow> s = 200 \<and> (\<exists>qs. b = QueuesBody qs)
     | CreateQueueRoute \<Rightarrow> s = 201 \<and> (\<exists>q. b = QueueBody q)
     | PauseQueue \<Rightarrow> s = 200 \<and> (\<exists>q. b = QueueBody q)
     | ResumeQueue \<Rightarrow> s = 200 \<and> (\<exists>q. b = QueueBody q)
     | QueueStatsRoute \<Rightarrow> s = 200 \<and> (\<exists>st. b = StatsBody st)
     | ListDlq \<Rightarrow> s = 200 \<and> (\<exists>ds. b = DeadLettersBody ds)
     | PurgeFinishedRoute \<Rightarrow> s = 200 \<and> (\<exists>n. b = PurgeBody n)
     | Healthz \<Rightarrow> s = 200 \<and> b = TextBody ''ok''
     | Readyz \<Rightarrow> s = 200 \<and> b = TextBody ''ready'' \<or> s = 503 \<and> b = TextBody ''not ready''
     | MetricsRoute \<Rightarrow> s = 200 \<and> (\<exists>t. b = TextBody t))"

text \<open>The JSON shape of an error: the category names the status.\<close>

fun error_shape :: "status_code \<Rightarrow> 'j body \<Rightarrow> bool" where
  "error_shape s (ErrorBody msg cat) \<longleftrightarrow>
    (s, cat) \<in> {(400, ''bad_request''), (404, ''not_found''), (409, ''conflict''), (500, ''internal'')}"
| "error_shape s _ \<longleftrightarrow> False"

lemma api_error_from_shape:
  "error_shape (ae_status (api_error_from su e)) (ErrorBody (ae_message (api_error_from su e)) (ae_category (api_error_from su e)))"
  by (cases "category e") (simp_all add: api_error_from_def)

lemma api_call_shape:
  assumes "api_call ax r f = (Err e, sv)"
  shows "error_shape (ae_status e) (ErrorBody (ae_message e) (ae_category e))"
  using assms api_error_from_shape [of "ax_show_uuid ax"]
  by (auto simp: api_call_def split: prod.splits outcome.splits)

lemma api_call_Ok: "api_call ax r f = (Ok b, sv) \<Longrightarrow> \<exists>a. b = f a"
  by (auto simp: api_call_def split: prod.splits outcome.splits)

lemmas route_defs = route_submit_job_def route_get_job_def route_list_jobs_def route_cancel_job_def
  route_retry_job_def route_job_attempts_def route_job_events_def route_list_queues_def route_create_queue_def
  route_pause_queue_def route_resume_queue_def route_queue_stats_def route_list_dlq_def
  route_purge_finished_def route_healthz_def route_readyz_def route_metrics_def

text \<open>A rejection by an extractor: a bare status.\<close>

definition rejected :: "'j response \<Rightarrow> bool" where
  "rejected r \<longleftrightarrow> (\<exists>s. r = respond s (TextBody []))"

lemma endpoint_error_shape:
  assumes "call_endpoint ops ax ex rq ps e sv = (Err err, sv')"
  shows "error_shape (ae_status err) (ErrorBody (ae_message err) (ae_category err))"
  using assms
  by (cases e)
    (auto simp: route_defs extracted_def reject_def Let_def bad_request_def api_error_new_def
      split: sum.splits if_splits prod.splits outcome.splits dest: api_call_shape)

lemma endpoint_success_shape:
  assumes "call_endpoint ops ax ex rq ps e sv = (Ok r, sv')"
  shows "success_shape e (rs_status r) (rs_body r) \<or> rejected r"
  using assms
  by (cases e)
    (auto simp: route_defs extracted_def reject_def Let_def respond_def rejected_def success_shape_def
      split: sum.splits if_splits prod.splits outcome.splits dest!: api_call_Ok)


section \<open>Refused requests\<close>

text \<open>What holds of every operation of the service behind a handler.\<close>

definition well_behaved :: "('a, queue_error) outcome \<Rightarrow> 'j db queue_service \<Rightarrow> 'j db queue_service \<Rightarrow> bool" where
  "well_behaved out sv sv' \<longleftrightarrow>
    store_ok (sv_store sv') \<and>
    (\<forall>e. out = Err e \<longrightarrow> (category e \<noteq> Internal \<longrightarrow> sv' = sv) \<and>
      pg_view (sv_store sv') = pg_view (sv_store sv) \<and> sv_metrics sv' = sv_metrics sv)"

lemma well_behaved_read: "store_ok (sv_store sv) \<Longrightarrow> well_behaved out sv sv"
  by (simp add: well_behaved_def)

lemma well_behaved_exec:
  assumes "store_ok (sv_store sv)" and "op_ok op" and "sv' = sv\<lparr>sv_store := exec env op (sv_store sv)\<rparr>"
    and "\<And>e. out = Err e \<Longrightarrow> exec env op (sv_store sv) = sv_store sv"
  shows "well_behaved out sv sv'"
  using assms store_ok_exec [OF assms(1,2)] by (auto simp: well_behaved_def)

lemma svc_reads:
  assumes "store_ok (sv_store sv)"
  shows "snd (svc_get_job pg_store env i sv) = sv" "snd (svc_list_jobs pg_store env f sv) = sv"
    "snd (svc_list_attempts pg_store env env' i sv) = sv" "snd (svc_list_queues pg_store env sv) = sv"
    "snd (svc_queue_stats pg_store env name sv) = sv" "snd (svc_list_dead_letter pg_store env q n sv) = sv"
proof -
  show "snd (svc_get_job pg_store env i sv) = sv" by (simp add: pg.svc_get_job_eq [OF assms])
  show "snd (svc_list_jobs pg_store env f sv) = sv"
    using pg_list_jobs_total [OF store_ok_db [OF assms], of env f] by (metis snd_conv)
  show "snd (svc_list_dead_letter pg_store env q n sv) = sv"
    using pg_list_dead_letter_total [of env q n sv] by (metis snd_conv)
  show "snd (svc_list_queues pg_store env sv) = sv" "snd (svc_queue_stats pg_store env name sv) = sv"
    by (simp_all add: svc_list_queues_def svc_queue_stats_def call_store_def pg_store_def)
  show "snd (svc_list_attempts pg_store env env' i sv) = sv"
    using assms by (simp add: svc_list_attempts_def call_store_def pg_store_def pg_get_job)
qed

lemma submit_well_behaved:
  assumes "store_ok (sv_store sv)" and "new_job_typed new" and "svc_submit pg_store add env now new sv = (out, sv')"
  shows "well_behaved out sv sv'"
proof (cases "normalized add new now")
  case (Ok z)
  from pg.svc_submit_accepted [OF assms(1) Ok normalized_Ok_wf [OF Ok assms(2)] assms(3)] show ?thesis
    by (auto simp: well_behaved_def split: outcome.splits)
qed (use assms in \<open>auto simp: svc_submit_def well_behaved_def\<close>)

lemma cancel_well_behaved:
  assumes "store_ok (sv_store sv)" and "svc_cancel_job pg_store env i sv = (out, sv')"
  shows "well_behaved out sv sv'"
proof (rule well_behaved_exec [OF assms(1), of "CancelJob i"])
  have ok: "db_ok (sv_store sv)" using assms(1) by simp
  show "sv' = sv\<lparr>sv_store := exec env (CancelJob i) (sv_store sv)\<rparr>"
    using assms(2) by (auto simp: svc_cancel_job_def call_store_def pg_store_def split: prod.splits)
  show "exec env (CancelJob i) (sv_store sv) = sv_store sv" if "out = Err e" for e
    using assms(2) that
    by (auto simp: svc_cancel_job_def call_store_def pg_store_def cancel_job_eq [OF ok] split: option.splits if_splits)
qed simp

lemma retry_well_behaved:
  assumes "store_ok (sv_store sv)" and "svc_retry_job pg_store env i sv = (out, sv')"
  shows "well_behaved out sv sv'"
proof (rule well_behaved_exec [OF assms(1), of "RetryJob i"])
  have ok: "db_ok (sv_store sv)" using assms(1) by simp
  show "sv' = sv\<lparr>sv_store := exec env (RetryJob i) (sv_store sv)\<rparr>"
    using assms(2) by (auto simp: svc_retry_job_def call_store_def pg_store_def split: prod.splits)
  show "exec env (RetryJob i) (sv_store sv) = sv_store sv" if "out = Err e" for e
    using assms(2) that
    by (auto simp: svc_retry_job_def call_store_def pg_store_def retry_job_eq [OF ok] split: option.splits if_splits)
qed simp

lemma pause_well_behaved:
  assumes "store_ok (sv_store sv)" and "svc_set_queue_paused pg_store env name p sv = (out, sv')"
  shows "well_behaved out sv sv'"
proof (rule well_behaved_exec [OF assms(1), of "SetQueuePaused name p"])
  have ok: "db_ok (sv_store sv)" using assms(1) by simp
  show "sv' = sv\<lparr>sv_store := exec env (SetQueuePaused name p) (sv_store sv)\<rparr>"
    using assms(2) by (auto simp: svc_set_queue_paused_def call_store_def pg_store_def split: prod.splits)
  show "exec env (SetQueuePaused name p) (sv_store sv) = sv_store sv" if "out = Err e" for e
    using assms(2) that by (auto simp: svc_set_queue_paused_def call_store_def pg_store_def
        set_queue_paused_eq [OF ok] split: option.splits)
qed simp

lemma ensure_well_behaved:
  assumes "store_ok (sv_store sv)" and "svc_ensure_queue pg_store env name sv = (out, sv')"
  shows "well_behaved out sv sv'"
  by (rule well_behaved_exec [OF assms(1), of "EnsureQueue name" _ env])
    (use assms(2) in \<open>auto simp: svc_ensure_queue_def call_store_def pg_store_def ensure_queue_eq\<close>)

lemma purge_well_behaved:
  assumes "store_ok (sv_store sv)" and "svc_purge_finished pg_store sub env now n sv = (out, sv')"
  shows "well_behaved out sv sv'"
proof (cases "sub now (max n 0)")
  case None
  with assms show ?thesis by (simp add: svc_purge_finished_def well_behaved_def)
next
  case (Some t)
  show ?thesis
    by (rule well_behaved_exec [OF assms(1), of "PurgeFinished t" _ env])
      (use assms(2) Some in \<open>auto simp: svc_purge_finished_def call_store_def pg_store_def purge_finished_def Let_def\<close>)
qed

text \<open>The same for a handler.\<close>

definition handler_ok :: "('j response, api_error) outcome \<Rightarrow> 'j db queue_service \<Rightarrow> 'j db queue_service \<Rightarrow> bool" where
  "handler_ok out sv sv' \<longleftrightarrow>
    store_ok (sv_store sv') \<and>
    (\<forall>e. out = Err e \<longrightarrow> (ae_status e < 500 \<longrightarrow> sv' = sv) \<and>
      pg_view (sv_store sv') = pg_view (sv_store sv) \<and> sv_metrics sv' = sv_metrics sv) \<and>
    (\<forall>r. out = Ok r \<longrightarrow> 400 \<le> rs_status r \<longrightarrow> sv' = sv)"

lemma api_error_status_internal: "500 \<le> ae_status (api_error_from su e) \<longleftrightarrow> category e = Internal"
  by (cases "category e") (simp_all add: api_error_from_def)

lemma api_call_ok:
  assumes "well_behaved o1 sv sv1" and "api_call ax (o1, sv1) f = (out, sv')" and "\<And>a. rs_status (f a) < 400"
  shows "handler_ok out sv sv'"
proof (cases o1)
  case (Ok a)
  with assms show ?thesis
    by (auto simp: handler_ok_def well_behaved_def api_call_def dest: leD)
next
  case (Err e)
  with assms api_error_status_internal [of "ax_show_uuid ax" e] show ?thesis
    by (auto simp: handler_ok_def well_behaved_def api_call_def)
qed (use assms in \<open>auto simp: handler_ok_def well_behaved_def api_call_def\<close>)

lemma handler_ok_api_call:
  assumes "\<And>o1 sv1. c = (o1, sv1) \<Longrightarrow> well_behaved o1 sv sv1" and "api_call ax c f = (out, sv')"
    and "\<And>a. rs_status (f a) < 400"
  shows "handler_ok out sv sv'"
proof -
  obtain o1 sv1 where "c = (o1, sv1)" by fastforce
  with assms show ?thesis using api_call_ok by blast
qed

lemma handler_ok_same: "store_ok (sv_store sv) \<Longrightarrow> handler_ok out sv sv"
  by (simp add: handler_ok_def)

lemma handler_ok_read:
  assumes "store_ok (sv_store sv)" and "snd c = sv" and "api_call ax c f = (out, sv')"
  shows "handler_ok out sv sv'"
proof -
  have "sv' = sv" using assms(2,3) by (auto simp: api_call_def split: prod.splits outcome.splits)
  with assms(1) show ?thesis by (simp add: handler_ok_same)
qed

lemma with_header_key_typed: "new_job_typed new \<Longrightarrow> new_job_typed (with_header_key ax hs new)"
  by (simp add: with_header_key_def new_job_typed_def split: option.splits)

text \<open>What serde promises of a decoded \<open>NewJob\<close>: its integers are in the range of their types.\<close>

definition decodes_typed :: "'j extractors \<Rightarrow> bool" where
  "decodes_typed ex \<longleftrightarrow> (\<forall>rq new. ex_new_job ex rq = Inl new \<longrightarrow> new_job_typed new)"

lemma handler_ok_extracted:
  assumes "store_ok (sv_store sv)" and "extracted x f sv = (out, sv')"
    and "\<And>a. x = Inl a \<Longrightarrow> f a sv = (out, sv') \<Longrightarrow> handler_ok out sv sv'"
  shows "handler_ok out sv sv'"
  using assms by (cases x) (auto simp: extracted_def reject_def handler_ok_same)

text \<open>The writing handlers, one by one, and the reading ones together.\<close>

lemma route_submit_job_ok:
  assumes "store_ok (sv_store sv)" and "new_job_typed new" and "route_submit_job pg_store ax hs new sv = (out, sv')"
  shows "handler_ok out sv sv'"
  using assms(3) unfolding route_submit_job_def
  by (rule handler_ok_api_call [rotated])
    (auto simp: respond_def intro: submit_well_behaved [OF assms(1) with_header_key_typed [OF assms(2)]])

lemma route_cancel_job_ok:
  assumes "store_ok (sv_store sv)" and "route_cancel_job pg_store ax i sv = (out, sv')"
  shows "handler_ok out sv sv'"
  using assms(2) unfolding route_cancel_job_def
  by (rule handler_ok_api_call [rotated]) (auto simp: respond_def intro: cancel_well_behaved [OF assms(1)])

lemma route_retry_job_ok:
  assumes "store_ok (sv_store sv)" and "route_retry_job pg_store ax i sv = (out, sv')"
  shows "handler_ok out sv sv'"
  using assms(2) unfolding route_retry_job_def
  by (rule handler_ok_api_call [rotated]) (auto simp: respond_def intro: retry_well_behaved [OF assms(1)])

lemma route_purge_finished_ok:
  assumes "store_ok (sv_store sv)" and "route_purge_finished pg_store ax n sv = (out, sv')"
  shows "handler_ok out sv sv'"
  using assms(2) unfolding route_purge_finished_def
  by (rule handler_ok_api_call [rotated]) (auto simp: respond_def intro: purge_well_behaved [OF assms(1)])

lemma route_pause_queue_ok:
  assumes "store_ok (sv_store sv)" and "route_pause_queue pg_store ax name sv = (out, sv')"
  shows "handler_ok out sv sv'"
  using assms(2) unfolding route_pause_queue_def
  by (rule handler_ok_api_call [rotated]) (auto simp: respond_def intro: pause_well_behaved [OF assms(1)])

lemma route_resume_queue_ok:
  assumes "store_ok (sv_store sv)" and "route_resume_queue pg_store ax name sv = (out, sv')"
  shows "handler_ok out sv sv'"
  using assms(2) unfolding route_resume_queue_def
  by (rule handler_ok_api_call [rotated]) (auto simp: respond_def intro: pause_well_behaved [OF assms(1)])

lemma route_create_queue_ok:
  assumes "store_ok (sv_store sv)" and "route_create_queue pg_store ax name sv = (out, sv')"
  shows "handler_ok out sv sv'"
proof (cases "trim name = []")
  case False
  with assms(2) have "api_call ax (svc_ensure_queue pg_store (ax_env ax) name sv) (\<lambda>q. respond 201 (QueueBody q)) = (out, sv')"
    by (simp add: route_create_queue_def)
  then show ?thesis
    by (rule handler_ok_api_call [rotated]) (auto simp: respond_def intro: ensure_well_behaved [OF assms(1)])
qed (use assms in \<open>auto simp: route_create_queue_def handler_ok_same\<close>)

lemma route_reads_ok:
  assumes "store_ok (sv_store sv)"
  shows "route_get_job pg_store ax i sv = (out, sv') \<Longrightarrow> handler_ok out sv sv'"
    "route_list_jobs pg_store ax f sv = (out, sv') \<Longrightarrow> handler_ok out sv sv'"
    "route_job_attempts pg_store ax i sv = (out, sv') \<Longrightarrow> handler_ok out sv sv'"
    "route_list_queues pg_store ax sv = (out, sv') \<Longrightarrow> handler_ok out sv sv'"
    "route_queue_stats pg_store ax name sv = (out, sv') \<Longrightarrow> handler_ok out sv sv'"
    "route_list_dlq pg_store ax q sv = (out, sv') \<Longrightarrow> handler_ok out sv sv'"
  unfolding route_defs Let_def by (erule handler_ok_read [OF assms svc_reads(1) [OF assms]]
    handler_ok_read [OF assms svc_reads(2) [OF assms]] handler_ok_read [OF assms svc_reads(3) [OF assms]]
    handler_ok_read [OF assms svc_reads(4) [OF assms]] handler_ok_read [OF assms svc_reads(5) [OF assms]]
    handler_ok_read [OF assms svc_reads(6) [OF assms]])+

lemma route_readyz_ok:
  assumes "store_ok (sv_store sv)" and "route_readyz pg_store ax sv = (out, sv')"
  shows "handler_ok out sv sv'"
  using assms by (auto simp: route_readyz_def call_store_def pg_store_def get_queue_def handler_ok_same)

lemma route_static_ok:
  assumes "store_ok (sv_store sv)"
  shows "route_job_events i sv = (out, sv') \<Longrightarrow> handler_ok out sv sv'"
    "route_healthz sv = (out, sv') \<Longrightarrow> handler_ok out sv sv'"
    "route_metrics ax sv = (out, sv') \<Longrightarrow> handler_ok out sv sv'"
  using handler_ok_same [OF assms] by (auto simp: route_job_events_def route_healthz_def route_metrics_def)

lemmas route_oks = route_cancel_job_ok route_retry_job_ok route_purge_finished_ok route_pause_queue_ok
  route_resume_queue_ok route_create_queue_ok route_readyz_ok route_reads_ok
  route_static_ok

lemma handler_ok_endpoint:
  assumes "store_ok (sv_store sv)" and "decodes_typed ex" and "call_endpoint pg_store ax ex rq ps e sv = (out, sv')"
  shows "handler_ok out sv sv'"
proof (cases "e = SubmitJob")
  case True
  with assms(3) have "extracted (ex_new_job ex rq) (route_submit_job pg_store ax (rq_headers rq)) sv = (out, sv')" by simp
  then show ?thesis
    by (rule handler_ok_extracted [OF assms(1)])
      (use assms(1,2) route_submit_job_ok in \<open>unfold decodes_typed_def, blast\<close>)
next
  case False
  with assms(3) show ?thesis
    by (cases e; simp; (elim handler_ok_extracted [OF assms(1)] route_oks [OF assms(1)])+)
qed

lemma serve_route_ok:
  assumes "store_ok (sv_store sv)" and "decodes_typed ex" and "serve_route pg_store ax ex rq sv = (Ok r, sv')"
  shows "store_ok (sv_store sv') \<and> (400 \<le> rs_status r \<and> rs_status r < 500 \<longrightarrow> sv' = sv) \<and>
    (500 \<le> rs_status r \<longrightarrow> pg_view (sv_store sv') = pg_view (sv_store sv) \<and> sv_metrics sv' = sv_metrics sv)"
proof (cases "find_route build_router (rq_method rq) (rq_path rq)")
  case (Routed e ps)
  obtain out sv1 where call: "call_endpoint pg_store ax ex rq ps e sv = (out, sv1)" by fastforce
  have run: "as_response (out, sv1) = (Ok r, sv')" using assms(3) Routed call by (simp add: serve_route_def)
  from handler_ok_endpoint [OF assms(1,2) call] run show ?thesis
    by (cases out) (auto simp: handler_ok_def into_response_def respond_def)
qed (use assms in \<open>auto simp: serve_route_def reject_def respond_def\<close>)

lemma correlation_id_status:
  assumes "correlation_id ax v fresh rq res = (Ok r, sv)"
  obtains r0 where "res = (Ok r0, sv)" "rs_status r = rs_status r0" "rs_body r = rs_body r0"
proof -
  obtain o0 sv0 where "res = (o0, sv0)" by fastforce
  with assms that show thesis
    by (cases o0) (auto simp: correlation_id_def insert_header_def Let_def split: if_splits)
qed

text \<open>
  C30. A refused request changes nothing.  In every reachable state and for every request the API answers: a response in
  the 400 range (not found, conflict, validation, a rejection by an extractor, a body over the limit)
  leaves the store and the metrics exactly as they were; a response in the 500 range leaves every job and
  the metrics as they were; and every request keeps the store's invariant.
\<close>

theorem api_refusals_change_nothing:
  assumes "calls_ok calls" and "decodes_typed ex"
    and "serve pg_store ax ex valid_value fresh max_body_bytes rq (reached calls ms) = (Ok r, sv)"
  shows "store_ok (sv_store sv) \<and>
    (400 \<le> rs_status r \<and> rs_status r < 500 \<longrightarrow> sv = reached calls ms) \<and>
    (500 \<le> rs_status r \<longrightarrow> pg_view (sv_store sv) = pg_view (run calls empty_db) \<and> sv_metrics sv = ms)"
proof (cases "case rq_content_length rq of Some n \<Rightarrow> max_body_bytes < n | None \<Rightarrow> False")
  case True
  then show ?thesis
    using assms(3) store_ok_reached [OF assms(1)] by (auto simp: serve_def reject_def)
next
  case False
  then have "correlation_id ax valid_value fresh rq (serve_route pg_store ax ex rq (reached calls ms)) = (Ok r, sv)"
    using assms(3) by (simp add: serve_def)
  then obtain r0 where "serve_route pg_store ax ex rq (reached calls ms) = (Ok r0, sv)" "rs_status r = rs_status r0"
    by (rule correlation_id_status)
  moreover have "store_ok (sv_store (reached calls ms))" by (simp add: store_ok_reached [OF assms(1)])
  ultimately show ?thesis using serve_route_ok [OF _ assms(2)] by fastforce
qed

section \<open>A sample client\<close>

definition sample_ax :: "(pg_env, unit) api_env" where
  "sample_ax =
    \<lparr>ax_show_uuid = (\<lambda>i. show_nat (unat i)), ax_to_str = Some, ax_add_secs = sample_add,
     ax_sub_secs = (\<lambda>t d. Some (t - interval_secs d)), ax_render = (\<lambda>ms. []),
     ax_env = sample_env 5 9, ax_env' = sample_env 5 9, ax_now = 5\<rparr>"

definition sample_ex :: "unit extractors" where
  "sample_ex =
    \<lparr>ex_name = Inl, ex_uuid = (\<lambda>s. case parse_digits s of Some n \<Rightarrow> Inl (word_of_int n) | None \<Rightarrow> Inr 400),
     ex_new_job = (\<lambda>rq. Inl sample_request),
     ex_filter = (\<lambda>rq. Inr 400), ex_create_queue = (\<lambda>rq. Inr 422), ex_dlq = (\<lambda>rq. Inr 400),
     ex_purge = (\<lambda>rq. Inr 422)\<rparr>"

definition sample_http :: "http_method \<Rightarrow> string list \<Rightarrow> request" where
  "sample_http m path = \<lparr>rq_method = m, rq_path = path, rq_query = [], rq_headers = (\<lambda>h. None),
    rq_content_length = None, rq_body = []\<rparr>"

lemma sample_ex_typed: "decodes_typed sample_ex"
  by (simp add: decodes_typed_def sample_ex_def sample_request_typed)

text \<open>Cancelling a job that does not exist.\<close>

theorem api_refusals_change_nothing_witness:
  "\<exists>r. serve pg_store sample_ax sample_ex (\<lambda>v. True) 0 100
      (sample_http POST [''api'', ''v1'', ''jobs'', ''77'', ''cancel'']) (reached sample_calls []) =
    (Ok r, reached sample_calls []) \<and> rs_status r = 404"
proof -
  let ?rq = "sample_http POST [''api'', ''v1'', ''jobs'', ''77'', ''cancel'']"
  obtain out sv where run: "serve pg_store sample_ax sample_ex (\<lambda>v. True) 0 100 ?rq (reached sample_calls []) = (out, sv)"
    by fastforce
  have "calls_ok sample_calls" by code_simp
  moreover have "(case fst (serve pg_store sample_ax sample_ex (\<lambda>v. True) 0 100 ?rq (reached sample_calls [])) of
      Ok r \<Rightarrow> rs_status r = 404 | _ \<Rightarrow> False)"
    by code_simp
  then obtain r where "out = Ok r" "rs_status r = 404" using run by (cases out) auto
  ultimately show ?thesis
    using api_refusals_change_nothing [OF _ sample_ex_typed, of sample_calls sample_ax "\<lambda>v. True" 0 100 ?rq "[]" r sv] run
    by auto
qed


section \<open>Submit and fetch\<close>

lemma job_paths:
  "find_route build_router POST [''api'', ''v1'', ''jobs''] = Routed SubmitJob []"
  "i \<noteq> [] \<Longrightarrow> find_route build_router GET [''api'', ''v1'', ''jobs'', i] = Routed GetJob [i]"
  by (simp_all add: build_router_def api_routes_def nest_def)


definition posted :: "(unit response, unit) outcome \<times> unit db queue_service" where
  "posted = serve_route pg_store sample_ax sample_ex (sample_http POST [''api'', ''v1'', ''jobs'']) (reached sample_calls [])"

definition posted_response :: "unit response" where
  "posted_response = (case fst posted of Ok r \<Rightarrow> r | _ \<Rightarrow> undefined)"

definition posted_job :: "unit job" where
  "posted_job = (case rs_body posted_response of JobBody j \<Rightarrow> j | _ \<Rightarrow> undefined)"


section \<open>Queue names\<close>

text \<open>
  A queue can be created that no job can enter.  \<open>POST /api/v1/queues\<close> checks only that the name is not
  blank: it creates a queue with a name of more than 128 bytes and answers 201, although every submission
  to a queue of that name is answered 400 and leaves everything unchanged.
\<close>

theorem long_queue_name_unusable:
  assumes "calls_ok calls" and "trim name \<noteq> []" and "128 < str_len name"
  shows "let (out, sv) = route_create_queue pg_store ax name (reached calls ms)
    in (\<exists>q. out = Ok (respond 201 (QueueBody q)) \<and> q_name q = name) \<and> name \<in> q_name ` set (queues (sv_store sv)) \<and>
      (\<forall>hs new. n_queue new = name \<longrightarrow>
        (\<exists>e. route_submit_job pg_store ax hs new sv = (Err e, sv) \<and> ae_status e = 400))"
proof -
  let ?db = "run calls empty_db"
  define sv where "sv = (reached calls ms)\<lparr>sv_store := insert_queue (pe_now (ax_env ax)) name ?db\<rparr>"
  have create: "route_create_queue pg_store ax name (reached calls ms) =
      (Ok (respond 201 (QueueBody (case queue_of name ?db of Some q \<Rightarrow> q | None \<Rightarrow> new_queue (pe_now (ax_env ax)) name))), sv)"
    using assms(2) by (simp add: route_create_queue_def svc_ensure_queue_def call_store_def pg_store_def ensure_queue_eq
        api_call_def sv_def)
  have "queue_of name (sv_store sv) \<noteq> None" by (simp add: sv_def queue_of_insert_queue split: option.splits)
  then have here: "name \<in> q_name ` set (queues (sv_store sv))"
    unfolding find_by_None_iff by simp
  have named: "q_name (case queue_of name ?db of Some q \<Rightarrow> q | None \<Rightarrow> new_queue (pe_now (ax_env ax)) name) = name"
    by (auto simp: new_queue_def split: option.splits dest: find_by_SomeD)
  have "\<exists>e. route_submit_job pg_store ax hs new sv = (Err e, sv) \<and> ae_status e = 400" if "n_queue new = name" for hs new
  proof -
    have "n_queue (with_header_key ax hs new) = name" using that by (simp add: with_header_key_def split: option.splits)
    then have "\<not> valid_request (with_header_key ax hs new)" using assms(3) by (simp add: valid_request_def)
    then obtain m where "normalized (ax_add_secs ax) (with_header_key ax hs new) (ax_now ax) = Err (Validation m)"
      using normalized_invalid by blast
    then show ?thesis by (simp add: route_submit_job_def svc_submit_def api_call_def api_error_from_def)
  qed
  with here named show ?thesis unfolding Let_def create prod.case by blast
qed

theorem long_queue_name_unusable_witness:
  "\<exists>q. fst (route_create_queue pg_store sample_ax (replicate 129 (CHR ''q'')) (reached [] [])) =
    Ok (respond 201 (QueueBody q)) \<and> q_name q = replicate 129 (CHR ''q'')"
proof -
  have "CHR ''q'' \<in> set (replicate 129 (CHR ''q''))" "CHR ''q'' \<notin> set white_bytes" by code_simp+
  then have "trim (replicate 129 (CHR ''q'')) \<noteq> []" using trim_nonempty by blast
  moreover have "128 < str_len (replicate 129 (CHR ''q''))" by (simp add: str_len_def)
  ultimately show ?thesis
    using long_queue_name_unusable [of "[]" "replicate 129 (CHR ''q'')" sample_ax "[]"] calls_ok_simps(1)
    unfolding Let_def split_beta by blast
qed

end
