(* ===== verification/Api_Process.thy ===== *)
theory Api_Process
  imports Process_Boot Api_Properties Api_Sse Maintenance
begin

text \<open>
  The API process of \<^verbatim>\<open>crates/api/src/main.rs\<close> after its start: the listener, the connections, the maintenance task and
  the shutdown, as a state machine.  \<open>axum::serve\<close> with a graceful shutdown accepts no connection once the signal
  came and returns when the open ones are served; a connection that panics is dropped and the server goes on.
\<close>

section \<open>One turn of a stream\<close>

text \<open>
  \<open>sse_loop\<close> asks the store as often as it needs to for the next event.  In the process other tasks run between two polls:
  \<open>stream_turn\<close> is one pass through the loop, with the answer of its poll.
\<close>

datatype turn = Emit sse_event stream_state | Sleep stream_state | Unwound

definition stream_turn ::
  "(job_event \<Rightarrow> string option) \<Rightarrow> ('j job, queue_error) outcome \<Rightarrow> stream_state \<Rightarrow> turn" where
  "stream_turn encode answer st =
    (if MAX_POLLS \<le> ss_polls st then Emit timeout_event (st\<lparr>ss_done := True\<rparr>)
     else let st = st\<lparr>ss_polls := ss_polls st + 1\<rparr>
       in case answer of
            Ok job \<Rightarrow>
              if ss_first st \<or> ss_last st \<noteq> Some (j_status job)
              then let st = st\<lparr>ss_first := False, ss_last := Some (j_status job)\<rparr>;
                       st = (if is_terminal (j_status job) then st\<lparr>ss_done := True\<rparr> else st)
                in Emit (status_event encode job) st
              else Sleep st
          | Err e \<Rightarrow> Emit missing_event (st\<lparr>ss_done := True\<rparr>)
          | Panic \<Rightarrow> Unwound)"

text \<open>The loop is its turns.\<close>

lemma sse_loop_turns:
  "sse_loop encode answer st =
    (case stream_turn encode (answer (ss_polls st)) st of
       Emit e st' \<Rightarrow> Ok (e, st')
     | Sleep st' \<Rightarrow> sse_loop encode answer st'
     | Unwound \<Rightarrow> Panic)"
  by (subst sse_loop.simps) (simp add: stream_turn_def Let_def split: outcome.split)

section \<open>The process\<close>

datatype connection = Pending request | Streaming stream_state

datatype server_phase = Binding | Serving | Joining | Exited "(unit, failure) outcome"

fun has_exited :: "server_phase \<Rightarrow> bool" where
  "has_exited (Exited out) \<longleftrightarrow> True"
| "has_exited _ \<longleftrightarrow> False"

text \<open>What the process has sent: the head of a response with its body, and the events of a stream.\<close>

datatype 'j sent = Response "'j response" | StreamEvent sse_event

record ('s, 'j) api_process =
  ap_phase :: server_phase
  ap_shutdown :: bool
  ap_maintaining :: bool
  ap_next :: nat
  ap_connections :: "(nat \<times> connection) list"
  ap_sent :: "(nat \<times> 'j sent) list"
  ap_service :: "'s queue_service"

text \<open>What the router and the listener were built with.\<close>

record ('j, 'a) server =
  sr_extractors :: "'j extractors"
  sr_valid_value :: "string \<Rightarrow> bool"
  sr_encode :: "job_event \<Rightarrow> string option"
  sr_show_addr :: "'a \<Rightarrow> string"
  sr_config :: "'a api_config"

definition api_start :: "('s, 'a, 'r) api_boot \<Rightarrow> ('s, 'j) api_process" where
  "api_start b =
    \<lparr>ap_phase = Binding, ap_shutdown = False, ap_maintaining = True, ap_next = 0, ap_connections = [], ap_sent = [],
     ap_service = ab_service b\<rparr>"

datatype ('e, 'j) api_event =
    Bound
  | BindError string
  | Signal
  | Accepted request
  | Handled nat "('e, 'j) api_env" uuid
  | Polled nat 'e
  | Disconnected nat
  | ServerDone
  | ServerError string
  | SweepTick "nat \<Rightarrow> 'e"
  | LoopBreak
  | Joined

definition connection_at :: "nat \<Rightarrow> ('s, 'j) api_process \<Rightarrow> connection option" where
  "connection_at k p = map_option snd (find_by fst k (ap_connections p))"

definition close_connection :: "nat \<Rightarrow> ('s, 'j) api_process \<Rightarrow> ('s, 'j) api_process" where
  "close_connection k p = p\<lparr>ap_connections := delete_where (\<lambda>c. fst c = k) (ap_connections p)\<rparr>"

definition set_connection :: "nat \<Rightarrow> connection \<Rightarrow> ('s, 'j) api_process \<Rightarrow> ('s, 'j) api_process" where
  "set_connection k c p =
    p\<lparr>ap_connections := update_where (\<lambda>c. fst c = k) (\<lambda>(k, _). (k, c)) (ap_connections p)\<rparr>"

definition send :: "nat \<Rightarrow> 'j sent \<Rightarrow> ('s, 'j) api_process \<Rightarrow> ('s, 'j) api_process" where
  "send k x p = p\<lparr>ap_sent := ap_sent p @ [(k, x)]\<rparr>"

text \<open>A request is handled; the response of \<open>job_events\<close> leaves the connection open with its stream.\<close>

definition on_request ::
  "('s, 'e, 'j) store_ops \<Rightarrow> ('j, 'a) server \<Rightarrow> nat \<Rightarrow> ('e, 'j) api_env \<Rightarrow> uuid \<Rightarrow> request \<Rightarrow> ('s, 'j) api_process \<Rightarrow>
   ('s, 'j) api_process" where
  "on_request ops srv k ax fresh rq p =
    (case serve ops ax (sr_extractors srv) (sr_valid_value srv) fresh (ac_max_body_bytes (sr_config srv)) rq (ap_service p) of
       (Ok r, sv) \<Rightarrow>
         let p = send k (Response r) (p\<lparr>ap_service := sv\<rparr>)
         in (case rs_body r of
               EventsBody i \<Rightarrow> set_connection k (Streaming (stream_start i)) p
             | _ \<Rightarrow> close_connection k p)
     | (_, sv) \<Rightarrow> close_connection k (p\<lparr>ap_service := sv\<rparr>))"

definition on_poll ::
  "('s, 'e, 'j) store_ops \<Rightarrow> ('j, 'a) server \<Rightarrow> nat \<Rightarrow> 'e \<Rightarrow> stream_state \<Rightarrow> ('s, 'j) api_process \<Rightarrow> ('s, 'j) api_process" where
  "on_poll ops srv k env st p =
    (if ss_done st then close_connection k p
     else let (answer, sv) = svc_get_job ops env (ss_id st) (ap_service p)
       in case stream_turn (sr_encode srv) answer st of
            Emit e st' \<Rightarrow>
              send k (StreamEvent e) (set_connection k (Streaming st')
                (if MAX_POLLS \<le> ss_polls st then p else p\<lparr>ap_service := sv\<rparr>))
          | Sleep st' \<Rightarrow> set_connection k (Streaming st') (p\<lparr>ap_service := sv\<rparr>)
          | Unwound \<Rightarrow> close_connection k (p\<lparr>ap_service := sv\<rparr>))"

text \<open>
  The events and when they can occur.  The select of the maintenance task may still pick a tick after the token is
  cancelled; a sweep that panics ends the task, and joining it ignores that.
\<close>

fun api_step ::
  "('s, 'e, 'j) store_ops \<Rightarrow> ('j, 'a) server \<Rightarrow> ('e, 'j) api_event \<Rightarrow> ('s, 'j) api_process \<Rightarrow> ('s, 'j) api_process option" where
  "api_step ops srv Bound p =
    (if ap_phase p = Binding then Some (p\<lparr>ap_phase := Serving\<rparr>) else None)"
| "api_step ops srv (BindError e) p =
    (if ap_phase p = Binding
     then Some (p\<lparr>ap_phase := Exited (Err [''failed to bind '' @ sr_show_addr srv (ac_bind_addr (sr_config srv)), e])\<rparr>)
     else None)"
| "api_step ops srv Signal p =
    (if ap_phase p = Serving \<and> \<not> ap_shutdown p then Some (p\<lparr>ap_shutdown := True\<rparr>) else None)"
| "api_step ops srv (Accepted rq) p =
    (if ap_phase p = Serving \<and> \<not> ap_shutdown p
     then Some (p\<lparr>ap_connections := ap_connections p @ [(ap_next p, Pending rq)], ap_next := ap_next p + 1\<rparr>) else None)"
| "api_step ops srv (Handled k ax fresh) p =
    (case connection_at k p of
       Some (Pending rq) \<Rightarrow> if ap_phase p = Serving then Some (on_request ops srv k ax fresh rq p) else None
     | _ \<Rightarrow> None)"
| "api_step ops srv (Polled k env) p =
    (case connection_at k p of
       Some (Streaming st) \<Rightarrow> if ap_phase p = Serving then Some (on_poll ops srv k env st p) else None
     | _ \<Rightarrow> None)"
| "api_step ops srv (Disconnected k) p =
    (case connection_at k p of
       Some c \<Rightarrow> if ap_phase p = Serving then Some (close_connection k p) else None
     | None \<Rightarrow> None)"
| "api_step ops srv ServerDone p =
    (if ap_phase p = Serving \<and> ap_shutdown p \<and> ap_connections p = [] then Some (p\<lparr>ap_phase := Joining\<rparr>) else None)"
| "api_step ops srv (ServerError e) p =
    (if ap_phase p = Serving then Some (p\<lparr>ap_phase := Exited (Err [''server error'', e])\<rparr>) else None)"
| "api_step ops srv (SweepTick envs) p =
    (if ap_maintaining p \<and> \<not> has_exited (ap_phase p)
     then (case sweep ops envs default_maintenance (ap_service p) of
             (Panic, sv) \<Rightarrow> Some (p\<lparr>ap_service := sv, ap_maintaining := False\<rparr>)
           | (_, sv) \<Rightarrow> Some (p\<lparr>ap_service := sv\<rparr>))
     else None)"
| "api_step ops srv LoopBreak p =
    (if ap_maintaining p \<and> ap_shutdown p \<and> \<not> has_exited (ap_phase p)
     then Some (p\<lparr>ap_maintaining := False\<rparr>) else None)"
| "api_step ops srv Joined p =
    (if ap_phase p = Joining \<and> \<not> ap_maintaining p then Some (p\<lparr>ap_phase := Exited (Ok ())\<rparr>) else None)"

text \<open>The process on a \<open>PgStore\<close> it shares with workers and other API servers.\<close>

datatype 'j server_event = Here "(pg_env, 'j) api_event" | Elsewhere "'j call"

fun server_step ::
  "('j, 'a) server \<Rightarrow> 'j server_event \<Rightarrow> ('j db, 'j) api_process \<Rightarrow> ('j db, 'j) api_process option" where
  "server_step srv (Here ev) p = api_step pg_store srv ev p"
| "server_step srv (Elsewhere (env, op)) p =
    Some (p\<lparr>ap_service := (ap_service p)\<lparr>sv_store := exec env op (sv_store (ap_service p))\<rparr>\<rparr>)"

fun legal_event :: "'j server_event \<Rightarrow> bool" where
  "legal_event (Here ev) \<longleftrightarrow> True"
| "legal_event (Elsewhere c) \<longleftrightarrow> calls_ok [c]"

inductive serves ::
  "('j, 'a) server \<Rightarrow> ('j db, 'j) api_process \<Rightarrow> 'j server_event list \<Rightarrow> ('j db, 'j) api_process \<Rightarrow> bool" for srv where
  serves_Nil: "serves srv p [] p"
| serves_Cons: "legal_event e \<Longrightarrow> server_step srv e p = Some p' \<Longrightarrow> serves srv p' es p'' \<Longrightarrow> serves srv p (e # es) p''"

fun server_run ::
  "('j, 'a) server \<Rightarrow> 'j server_event list \<Rightarrow> ('j db, 'j) api_process \<Rightarrow> ('j db, 'j) api_process option" where
  "server_run srv [] p = Some p"
| "server_run srv (e # es) p =
    (if legal_event e then Option.bind (server_step srv e p) (server_run srv es) else None)"

inductive_cases serves_NilE [elim!]: "serves srv p [] p'"
inductive_cases serves_ConsE [elim!]: "serves srv p (e # es) p'"

lemma serves_run: "serves srv p es p' \<longleftrightarrow> server_run srv es p = Some p'"
proof
  show "serves srv p es p' \<Longrightarrow> server_run srv es p = Some p'"
    by (induction rule: serves.induct) simp_all
  show "server_run srv es p = Some p' \<Longrightarrow> serves srv p es p'"
    by (induction es arbitrary: p) (auto simp: bind_eq_Some_conv intro: serves.intros split: if_splits)
qed

section \<open>The invariant\<close>

text \<open>The numbers given to connections are below the next one.\<close>

definition numbered_below :: "nat \<Rightarrow> (nat \<times> connection) list \<Rightarrow> bool" where
  "numbered_below n cs \<longleftrightarrow> (\<forall>c \<in> set cs. fst c < n)"

lemma numbered_below_same: "fst ` set cs' \<subseteq> fst ` set cs \<Longrightarrow> numbered_below n cs \<Longrightarrow> numbered_below n cs'"
  unfolding numbered_below_def by (fastforce simp: image_subset_iff)

lemma numbered_below_next:
  assumes "numbered_below n cs"
  shows "numbered_below (Suc n) (cs @ [(n, c)])" and "n \<notin> fst ` set cs"
  using assms by (auto simp: numbered_below_def)

definition server_ok :: "('j db, 'j) api_process \<Rightarrow> bool" where
  "server_ok p \<longleftrightarrow>
    store_ok (sv_store (ap_service p)) \<and> distinct (map fst (ap_connections p)) \<and>
    numbered_below (ap_next p) (ap_connections p) \<and>
    (ap_phase p = Binding \<longrightarrow> ap_connections p = [] \<and> \<not> ap_shutdown p) \<and>
    (ap_phase p = Joining \<or> ap_phase p = Exited (Ok ()) \<longrightarrow> ap_shutdown p \<and> ap_connections p = []) \<and>
    (ap_phase p = Exited (Ok ()) \<longrightarrow> \<not> ap_maintaining p)"

lemma map_fst_set_connection [simp]: "map fst (ap_connections (set_connection k c p)) = map fst (ap_connections p)"
  unfolding set_connection_def by (simp add: map_key_update_where split: prod.split)

lemma connection_fields [simp]:
  "ap_phase (close_connection k p) = ap_phase p" "ap_shutdown (close_connection k p) = ap_shutdown p"
  "ap_service (close_connection k p) = ap_service p" "ap_next (close_connection k p) = ap_next p"
  "ap_maintaining (close_connection k p) = ap_maintaining p"
  "ap_phase (set_connection k c p) = ap_phase p" "ap_shutdown (set_connection k c p) = ap_shutdown p"
  "ap_service (set_connection k c p) = ap_service p" "ap_next (set_connection k c p) = ap_next p"
  "ap_maintaining (set_connection k c p) = ap_maintaining p"
  "ap_phase (send k x p) = ap_phase p" "ap_shutdown (send k x p) = ap_shutdown p"
  "ap_service (send k x p) = ap_service p" "ap_next (send k x p) = ap_next p"
  "ap_maintaining (send k x p) = ap_maintaining p" "ap_connections (send k x p) = ap_connections p"
  by (simp_all add: close_connection_def set_connection_def send_def)

text \<open>Handling a request changes the connections only by closing or updating one of them.\<close>

definition same_server :: "('s, 'j) api_process \<Rightarrow> ('s, 'j) api_process \<Rightarrow> bool" where
  "same_server p' p \<longleftrightarrow>
    ap_phase p' = ap_phase p \<and> ap_shutdown p' = ap_shutdown p \<and> ap_maintaining p' = ap_maintaining p \<and>
    ap_next p' = ap_next p \<and> (distinct (map fst (ap_connections p)) \<longrightarrow> distinct (map fst (ap_connections p'))) \<and>
    fst ` set (ap_connections p') \<subseteq> fst ` set (ap_connections p)"

lemma same_server_simps [simp]:
  "same_server (send k x p') p = same_server p' p" "same_server (p'\<lparr>ap_service := sv\<rparr>) p = same_server p' p"
  "same_server p p"
  by (simp_all add: same_server_def send_def)

lemma same_server_close: "same_server p' p \<Longrightarrow> same_server (close_connection k p') p"
  by (auto simp: same_server_def close_connection_def distinct_map_delete_where)

lemma same_server_set: "same_server p' p \<Longrightarrow> same_server (set_connection k c p') p"
proof -
  assume *: "same_server p' p"
  have "fst ` set (ap_connections (set_connection k c p')) = fst ` set (ap_connections p')"
    using arg_cong [OF map_fst_set_connection [of k c p'], of set] unfolding set_map .
  with * show ?thesis by (simp add: same_server_def)
qed

lemma on_request_same: "same_server (on_request ops srv k ax fresh rq p) p"
  by (simp add: on_request_def Let_def same_server_close same_server_set split: prod.split outcome.split body.split)

lemma on_poll_same: "same_server (on_poll ops srv k env st p) p"
  by (simp add: on_poll_def Let_def same_server_close same_server_set split: prod.split turn.split)

lemma server_ok_same:
  assumes "server_ok p" and "same_server p' p" and "store_ok (sv_store (ap_service p'))"
  shows "server_ok p'"
proof -
  have "ap_connections p' = []" if "ap_connections p = []" using assms(2) that by (simp add: same_server_def)
  moreover have "numbered_below (ap_next p') (ap_connections p')"
    using assms(1,2) numbered_below_same [of "ap_connections p'" "ap_connections p"] by (simp add: same_server_def server_ok_def)
  ultimately show ?thesis using assms by (simp add: same_server_def server_ok_def)
qed

text \<open>Every request keeps the invariant of the store, also one whose handler panics.\<close>

lemma serve_keeps:
  assumes "store_ok (sv_store sv)" and "decodes_typed ex"
  shows "store_ok (sv_store (snd (serve pg_store ax ex valid_value fresh max_body_bytes rq sv)))"
proof -
  have "store_ok (sv_store (snd (serve_route pg_store ax ex rq sv)))"
  proof (cases "find_route build_router (rq_method rq) (rq_path rq)")
    case (Routed e ps)
    obtain out sv1 where call: "call_endpoint pg_store ax ex rq ps e sv = (out, sv1)" by fastforce
    have "store_ok (sv_store sv1)" using handler_ok_endpoint [OF assms call] by (simp add: handler_ok_def)
    with Routed call show ?thesis by (cases out) (simp_all add: serve_route_def)
  qed (use assms(1) in \<open>simp_all add: serve_route_def reject_def\<close>)
  moreover have "snd (correlation_id ax valid_value fresh rq res) = snd res" for res :: "('a response, unit) outcome \<times> 'a db queue_service"
    by (simp add: correlation_id_def Let_def split: prod.split outcome.split)
  ultimately show ?thesis using assms(1) by (simp add: serve_def reject_def)
qed

lemma on_request_keeps:
  assumes "store_ok (sv_store (ap_service p))" and "decodes_typed (sr_extractors srv)"
  shows "store_ok (sv_store (ap_service (on_request pg_store srv k ax fresh rq p)))"
  using serve_keeps [OF assms, of ax "sr_valid_value srv" fresh "ac_max_body_bytes (sr_config srv)" rq]
  by (auto simp: on_request_def Let_def split: prod.split outcome.split body.split)

lemma on_poll_keeps:
  assumes "store_ok (sv_store (ap_service p))"
  shows "ap_service (on_poll pg_store srv k env st p) = ap_service p"
  using svc_reads(1) [OF assms, of env "ss_id st"]
  by (auto simp: on_poll_def Let_def split: prod.split turn.split)

lemma sweep_keeps:
  assumes "store_ok (sv_store sv)"
  obtains sv' where "sweep pg_store envs cfg sv = (Ok (), sv')" "store_ok (sv_store sv')"
  using pgm.sweep_exact [OF assms, of envs cfg] by blast

lemma server_ok_api_step:
  assumes "server_ok p" and "decodes_typed (sr_extractors srv)" and "api_step pg_store srv ev p = Some p'"
  shows "server_ok p'"
proof -
  have store: "store_ok (sv_store (ap_service p))" using assms(1) by (simp add: server_ok_def)
  show ?thesis
  proof (cases ev)
    case (Handled k ax fresh)
    then obtain rq where "p' = on_request pg_store srv k ax fresh rq p"
      using assms(3) by (auto split: option.splits connection.splits if_splits)
    then show ?thesis using server_ok_same [OF assms(1) on_request_same] on_request_keeps [OF store assms(2)] by blast
  next
    case (Polled k env)
    then obtain st where "p' = on_poll pg_store srv k env st p"
      using assms(3) by (auto split: option.splits connection.splits if_splits)
    then show ?thesis using server_ok_same [OF assms(1) on_poll_same] on_poll_keeps [OF store] store by metis
  next
    case (Disconnected k)
    then have "p' = close_connection k p" using assms(3) by (auto split: option.splits if_splits)
    then show ?thesis using server_ok_same [OF assms(1) same_server_close [OF same_server_simps(3)]] store by simp
  next
    case (SweepTick envs)
    obtain sv' where "sweep pg_store envs default_maintenance (ap_service p) = (Ok (), sv')" "store_ok (sv_store sv')"
      using sweep_keeps [OF store] .
    moreover from this have "p' = p\<lparr>ap_service := sv'\<rparr>" using SweepTick assms(3) by (simp split: if_splits)
    ultimately show ?thesis using server_ok_same [OF assms(1), of p'] by simp
  next
    case (Accepted rq)
    then show ?thesis
      using assms(1,3) numbered_below_next [of "ap_next p" "ap_connections p"] by (auto simp: server_ok_def split: if_splits)
  qed (use assms(1,3) in \<open>auto simp: server_ok_def split: if_splits\<close>)
qed

lemma server_ok_step:
  assumes "server_ok p" and "decodes_typed (sr_extractors srv)" and "legal_event e" and "server_step srv e p = Some p'"
  shows "server_ok p'"
proof (cases e)
  case (Here ev)
  with assms server_ok_api_step show ?thesis by simp
next
  case (Elsewhere c)
  obtain env op where c: "c = (env, op)" by fastforce
  have "store_ok (exec env op (sv_store (ap_service p)))"
    using assms(1,3) Elsewhere c by (simp add: server_ok_def store_ok_exec)
  then show ?thesis using server_ok_same [OF assms(1), of p'] assms(4) Elsewhere c by auto
qed

lemma serves_ok:
  assumes "serves srv p es p'" and "server_ok p" and "decodes_typed (sr_extractors srv)"
  shows "server_ok p'"
  using assms by (induction rule: serves.induct) (blast dest: server_ok_step)+

section \<open>Shutdown\<close>

text \<open>The steps a connection, the server and the maintenance task still have to take.\<close>

fun connection_weight :: "connection \<Rightarrow> nat" where
  "connection_weight (Pending rq) = MAX_POLLS + 3"
| "connection_weight (Streaming st) = (MAX_POLLS - ss_polls st) + (if ss_done st then 1 else 2)"

fun server_weight :: "server_phase \<Rightarrow> nat" where
  "server_weight Binding = 3"
| "server_weight Serving = 2"
| "server_weight Joining = 1"
| "server_weight (Exited out) = 0"

definition connections_weight :: "(nat \<times> connection) list \<Rightarrow> nat" where
  "connections_weight cs = sum_list (map (\<lambda>c. connection_weight (snd c)) cs)"

definition api_remaining :: "('s, 'j) api_process \<Rightarrow> nat" where
  "api_remaining p =
    connections_weight (ap_connections p) + server_weight (ap_phase p) + (if ap_maintaining p then 1 else 0)"

text \<open>Every event of the process but a tick of the maintenance task.\<close>

fun is_own_step :: "'j server_event \<Rightarrow> bool" where
  "is_own_step (Here (SweepTick envs)) \<longleftrightarrow> False"
| "is_own_step (Here _) \<longleftrightarrow> True"
| "is_own_step (Elsewhere c) \<longleftrightarrow> False"

lemma connection_weight_pos [simp]: "0 < connection_weight c"
  by (cases c) simp_all

lemma connections_weight_simps [simp]:
  "connections_weight [] = 0" "connections_weight (c # cs) = connection_weight (snd c) + connections_weight cs"
  by (simp_all add: connections_weight_def)

lemma connections_weight_bound: "connections_weight cs \<le> (MAX_POLLS + 3) * length cs"
proof (induction cs)
  case (Cons c cs)
  moreover have "connection_weight (snd c) \<le> MAX_POLLS + 3" by (cases "snd c") auto
  ultimately show ?case by simp
qed simp

lemma connections_weight_delete_le: "connections_weight (delete_where (\<lambda>c. fst c = k) cs) \<le> connections_weight cs"
  by (induction cs) simp_all

lemma connections_weight_delete:
  "find_by fst k cs = Some c \<Longrightarrow> connections_weight (delete_where (\<lambda>c. fst c = k) cs) < connections_weight cs"
proof (induction cs)
  case (Cons d cs)
  with connections_weight_delete_le [of k cs] connection_weight_pos [of "snd d"] show ?case
    by (auto simp del: connection_weight_pos split: if_splits)
qed simp

lemma connections_weight_keep:
  "k \<notin> fst ` set cs \<Longrightarrow> connections_weight (update_where (\<lambda>c. fst c = k) f cs) = connections_weight cs"
  by (induction cs) auto

lemma connections_weight_update:
  assumes "distinct (map fst cs)" and "find_by fst k cs = Some (k, c)" and "connection_weight c' < connection_weight c"
  shows "connections_weight (update_where (\<lambda>c. fst c = k) (\<lambda>(k, _). (k, c')) cs) < connections_weight cs"
  using assms(1,2)
proof (induction cs)
  case (Cons d cs)
  show ?case
  proof (cases "fst d = k")
    case True
    with Cons.prems assms(3) show ?thesis by (auto simp: connections_weight_keep)
  next
    case False
    with Cons show ?thesis by auto
  qed
qed simp

lemma remaining_close:
  assumes "connection_at k p = Some c" and "ap_connections p' = ap_connections p"
  shows "connections_weight (ap_connections (close_connection k p')) < connections_weight (ap_connections p)"
  using assms connections_weight_delete by (fastforce simp: connection_at_def close_connection_def)

lemma remaining_set:
  assumes "distinct (map fst (ap_connections p))" and "connection_at k p = Some c" and "ap_connections p' = ap_connections p"
    and "connection_weight c' < connection_weight c"
  shows "connections_weight (ap_connections (set_connection k c' p')) < connections_weight (ap_connections p)"
proof -
  have "find_by fst k (ap_connections p) = Some (k, c)"
    using assms(2) find_by_SomeD [of fst k "ap_connections p"] by (fastforce simp: connection_at_def)
  from connections_weight_update [OF assms(1) this assms(4)] assms(3) show ?thesis by (simp add: set_connection_def)
qed

lemma remaining_request:
  assumes "distinct (map fst (ap_connections p))" and "connection_at k p = Some (Pending rq)"
  shows "connections_weight (ap_connections (on_request ops srv k ax fresh rq p)) < connections_weight (ap_connections p)"
  by (auto simp: on_request_def Let_def stream_start_def split: prod.split outcome.split body.split
      intro!: remaining_close [OF assms(2)] remaining_set [OF assms] simp: send_def)

lemma turn_weight:
  assumes "\<not> ss_done st"
  shows "stream_turn encode answer st = Emit e st' \<Longrightarrow> connection_weight (Streaming st') < connection_weight (Streaming st)"
    and "stream_turn encode answer st = Sleep st' \<Longrightarrow> connection_weight (Streaming st') < connection_weight (Streaming st)"
  using assms by (auto simp: stream_turn_def Let_def split: if_splits outcome.splits)

lemma remaining_poll:
  assumes "distinct (map fst (ap_connections p))" and "connection_at k p = Some (Streaming st)"
  shows "connections_weight (ap_connections (on_poll ops srv k env st p)) < connections_weight (ap_connections p)"
proof (cases "ss_done st")
  case True
  then show ?thesis using remaining_close [OF assms(2) refl] by (simp add: on_poll_def)
next
  case False
  obtain answer sv where call: "svc_get_job ops env (ss_id st) (ap_service p) = (answer, sv)" by fastforce
  show ?thesis
  proof (cases "stream_turn (sr_encode srv) answer st")
    case (Emit e st')
    with turn_weight(1) [OF False Emit] False call show ?thesis
      by (auto simp: on_poll_def intro!: remaining_set [OF assms])
  next
    case (Sleep st')
    with turn_weight(2) [OF False Sleep] False call show ?thesis
      by (auto simp: on_poll_def intro!: remaining_set [OF assms])
  next
    case Unwound
    with False call show ?thesis by (auto simp: on_poll_def intro!: remaining_close [OF assms(2)])
  qed
qed

lemma remaining_step:
  assumes "server_ok p" and "ap_shutdown p" and "api_step pg_store srv ev p = Some p'" and "is_own_step (Here ev)"
  shows "api_remaining p' < api_remaining p"
proof -
  have keys: "distinct (map fst (ap_connections p))" using assms(1) by (simp add: server_ok_def)
  show ?thesis
  proof (cases ev)
    case (Handled k ax fresh)
    then obtain rq where rq: "p' = on_request pg_store srv k ax fresh rq p" "connection_at k p = Some (Pending rq)"
      using assms(3) by (auto split: option.splits connection.splits if_splits)
    with remaining_request [OF keys rq(2)] on_request_same [of pg_store srv k ax fresh rq p] show ?thesis
      by (simp add: api_remaining_def same_server_def)
  next
    case (Polled k env)
    then obtain st where st: "p' = on_poll pg_store srv k env st p" "connection_at k p = Some (Streaming st)"
      using assms(3) by (auto split: option.splits connection.splits if_splits)
    with remaining_poll [OF keys st(2)] on_poll_same [of pg_store srv k env st p] show ?thesis
      by (simp add: api_remaining_def same_server_def)
  next
    case (Disconnected k)
    then obtain c where c: "p' = close_connection k p" "connection_at k p = Some c"
      using assms(3) by (auto split: option.splits if_splits)
    with remaining_close [OF c(2) refl] show ?thesis by (simp add: api_remaining_def)
  qed (use assms(2-) in \<open>auto simp: api_remaining_def split: if_splits\<close>)
qed

lemma shutdown_step:
  assumes "server_ok p" and "ap_shutdown p" and "server_step srv e p = Some p'"
  shows "ap_shutdown p' \<and> ap_next p' = ap_next p \<and>
    api_remaining p' + (if is_own_step e then 1 else 0) \<le> api_remaining p"
proof (cases "is_own_step e")
  case True
  then obtain ev where ev: "e = Here ev" by (cases e) auto
  then have step: "api_step pg_store srv ev p = Some p'" using assms(3) by simp
  have "ap_shutdown p' \<and> ap_next p' = ap_next p"
    using step assms(2) True ev on_request_same [of pg_store srv] on_poll_same [of pg_store srv]
    by (cases ev) (auto simp: same_server_def split: if_splits option.splits connection.splits)
  with remaining_step [OF assms(1,2) step] True ev show ?thesis by simp
next
  case False
  show ?thesis
  proof (cases e)
    case (Here ev)
    with False obtain envs where "ev = SweepTick envs" by (cases ev) auto
    with Here assms(2,3) False show ?thesis
      by (auto simp: api_remaining_def split: if_splits prod.splits outcome.splits)
  next
    case (Elsewhere c)
    with assms(2,3) False show ?thesis by (cases c) (auto simp: api_remaining_def)
  qed
qed

lemma serves_shutdown:
  assumes "serves srv p es p'" and "server_ok p" and "decodes_typed (sr_extractors srv)" and "ap_shutdown p"
  shows "ap_shutdown p' \<and> ap_next p' = ap_next p \<and> length (filter is_own_step es) \<le> api_remaining p"
  using assms
proof (induction rule: serves.induct)
  case (serves_Cons e p p' es p'')
  note step = shutdown_step [OF serves_Cons.prems(1,3) serves_Cons.hyps(2)]
  have "server_ok p'" using server_ok_step [OF serves_Cons.prems(1,2) serves_Cons.hyps(1,2)] .
  from serves_Cons.IH [OF this serves_Cons.prems(2)] step show ?case by auto
qed simp

text \<open>The steps that need neither the client nor a failure: until it has exited, a process that is shutting down has one.\<close>

fun is_server_step :: "('e, 'j) api_event \<Rightarrow> bool" where
  "is_server_step (Handled k ax fresh) \<longleftrightarrow> True"
| "is_server_step (Polled k env) \<longleftrightarrow> True"
| "is_server_step ServerDone \<longleftrightarrow> True"
| "is_server_step LoopBreak \<longleftrightarrow> True"
| "is_server_step Joined \<longleftrightarrow> True"
| "is_server_step _ \<longleftrightarrow> False"

lemma shutdown_not_stuck:
  assumes "server_ok p" and "ap_shutdown p" and "\<not> has_exited (ap_phase p)"
  shows "\<exists>ev p'. is_server_step ev \<and> api_step pg_store srv ev p = Some p'"
proof (cases "ap_phase p")
  case Serving
  show ?thesis
  proof (cases "ap_connections p")
    case Nil
    with Serving assms(2) show ?thesis by (intro exI [of _ ServerDone]) simp
  next
    case (Cons c cs)
    then have at: "connection_at (fst c) p = Some (snd c)" by (simp add: connection_at_def)
    show ?thesis
    proof (cases "snd c")
      case (Pending rq)
      with Serving at show ?thesis by (intro exI [of _ "Handled (fst c) ax fresh"]) simp
    next
      case (Streaming st)
      with Serving at show ?thesis by (intro exI [of _ "Polled (fst c) env"]) simp
    qed
  qed
next
  case Joining
  show ?thesis
  proof (cases "ap_maintaining p")
    case True
    with Joining assms(2) show ?thesis by (intro exI [of _ LoopBreak]) simp
  next
    case False
    with Joining show ?thesis by (intro exI [of _ Joined]) simp
  qed
qed (use assms in \<open>auto simp: server_ok_def\<close>)

lemma api_start_ok:
  assumes "store_ok (sv_store (ab_service b))"
  shows "server_ok (api_start b)"
  using assms by (simp add: server_ok_def api_start_def numbered_below_def)

lemma boot_api_store:
  assumes "crates_documented cr names db" and "boot_api cr version env cell = (Ok b, st)"
  shows "sv_store (ab_service b) = db"
proof -
  obtain config where config: "api_config_from_env (cr_parse_addr cr) env = Ok config"
    using assms(2) by (cases "api_config_from_env (cr_parse_addr cr) env") (simp_all add: boot_api_def)
  let ?cell = "init_tracing cr ''djq-api'' (ac_json_logs config) cell"
  show ?thesis
    by (rule open_service_outcomes [OF assms(1), of version "ac_database_url config" "ac_db_max_connections config" ?cell])
      (use assms(2) config in \<open>auto simp: boot_api_def Let_def\<close>)
qed

text \<open>
  C34. The API server shuts down.  Take any run of an API process that was started on a reachable store, with any requests,
  clients that leave, sweeps, and calls by other processes in between, in which the signal has arrived.  Then, however it goes on: no
  connection is accepted any more; the process takes at most 1203 steps for each open connection (a status stream polls up to
  1200 times) and three more, the ticks of its maintenance task apart; until it has exited it can take the next of these steps without help from a
  client; if it exits without an error, every connection is closed and the maintenance task has stopped; and the store's
  invariant holds throughout.
\<close>

theorem api_shutdown_completes:
  assumes "calls_ok calls" and "crates_documented cr names (run calls empty_db)"
    and "boot_api cr version env cell = (Ok b, st)" and "decodes_typed (sr_extractors srv)"
    and "serves srv (api_start b) es p" and "ap_shutdown p"
    and "serves srv p es' p'"
  shows "ap_next p' = ap_next p \<and>
    length (filter is_own_step es') \<le> 1203 * length (ap_connections p) + 3 \<and>
    (has_exited (ap_phase p') \<or> (\<exists>ev p''. is_server_step ev \<and> api_step pg_store srv ev p' = Some p'')) \<and>
    (ap_phase p' = Exited (Ok ()) \<longrightarrow> ap_connections p' = [] \<and> \<not> ap_maintaining p') \<and>
    store_ok (sv_store (ap_service p'))"
proof -
  have "server_ok (api_start b :: ('a db, 'a) api_process)"
    using api_start_ok boot_api_store [OF assms(2,3)] store_ok_reached [OF assms(1)] by metis
  then have ok: "server_ok p" using serves_ok [OF assms(5) _ assms(4)] by blast
  then have ok': "server_ok p'" using serves_ok [OF assms(7) _ assms(4)] by blast
  note run = serves_shutdown [OF assms(7) ok assms(4,6)]
  have "server_weight (ap_phase p) \<le> 2" using ok assms(6) by (cases "ap_phase p") (simp_all add: server_ok_def)
  then have "api_remaining p \<le> 1203 * length (ap_connections p) + 3"
    using connections_weight_bound [of "ap_connections p"] by (simp add: api_remaining_def MAX_POLLS_def)
  moreover have "has_exited (ap_phase p') \<or> (\<exists>ev p''. is_server_step ev \<and> api_step pg_store srv ev p' = Some p'')"
    using shutdown_not_stuck [OF ok', of srv] run by blast
  ultimately show ?thesis using run ok' by (simp add: server_ok_def)
qed

text \<open>A client watches a job that does not exist when the signal arrives.\<close>

definition sample_server :: "(unit, string) server" where
  "sample_server =
    \<lparr>sr_extractors = sample_ex, sr_valid_value = (\<lambda>v. True), sr_encode = (\<lambda>e. Some (je_status e)), sr_show_addr = (\<lambda>a. a),
     sr_config = \<lparr>ac_database_url = ''postgres'', ac_bind_addr = ''0.0.0.0:8080'', ac_db_max_connections = 10,
       ac_max_body_bytes = 1024, ac_json_logs = False\<rparr>\<rparr>"

definition sample_boot :: "(unit db, string, string list) api_boot" where
  "sample_boot =
    (case fst (boot_api sample_crates ''1'' [''DATABASE_URL'' \<mapsto> ''postgres''] None) of
       Ok b \<Rightarrow> b
     | _ \<Rightarrow> \<lparr>ab_service = reached [] [], ab_config = sr_config sample_server, ab_metrics = []\<rparr>)"

lemma sample_boot_eq:
  obtains st where "boot_api sample_crates ''1'' [''DATABASE_URL'' \<mapsto> ''postgres''] None = (Ok sample_boot, st)"
proof -
  let ?boot = "boot_api sample_crates ''1'' [''DATABASE_URL'' \<mapsto> ''postgres''] None ::
    ((unit db, string, string list) api_boot, failure) outcome \<times> (unit db, unit) started"
  have "is_ok (fst ?boot)" by code_simp
  then have "fst ?boot = Ok sample_boot" by (auto simp: sample_boot_def is_ok_iff)
  then show thesis using that [of "snd ?boot"] by (simp add: prod_eq_iff)
qed

definition watch_events :: "unit server_event list" where
  "watch_events =
    [Here Bound, Here (Accepted (sample_http GET [''api'', ''v1'', ''jobs'', ''7'', ''events''])), Here (Handled 0 sample_ax 0),
     Here Signal]"

definition stop_events :: "unit server_event list" where
  "stop_events =
    [Here (Polled 0 (sample_env 1 0)), Here (Polled 0 (sample_env 2 0)), Here ServerDone, Here LoopBreak, Here Joined]"

theorem api_shutdown_completes_witness:
  "\<exists>p p'. serves sample_server (api_start sample_boot) watch_events p \<and> ap_shutdown p \<and>
    serves sample_server p stop_events p' \<and> ap_phase p' = Exited (Ok ()) \<and> length (ap_connections p) = 1 \<and>
    ap_connections p' = [] \<and> ap_next p' = ap_next p"
proof -
  have "server_run sample_server watch_events (api_start sample_boot) \<noteq> None"
    "(case server_run sample_server watch_events (api_start sample_boot) of
        Some p \<Rightarrow> ap_shutdown p \<and> length (ap_connections p) = 1 \<and>
          (case server_run sample_server stop_events p of Some p' \<Rightarrow> ap_phase p' = Exited (Ok ()) | None \<Rightarrow> False)
      | None \<Rightarrow> False)"
    by code_simp+
  then obtain p p' where run: "serves sample_server (api_start sample_boot) watch_events p" "ap_shutdown p"
      "serves sample_server p stop_events p'" "ap_phase p' = Exited (Ok ())" "length (ap_connections p) = 1"
    by (auto simp: serves_run split: option.splits)
  obtain st where boot: "boot_api sample_crates ''1'' [''DATABASE_URL'' \<mapsto> ''postgres''] None = (Ok sample_boot, st)"
    using sample_boot_eq .
  have "decodes_typed (sr_extractors sample_server)" by (simp add: sample_server_def sample_ex_typed)
  from api_shutdown_completes [OF calls_ok_simps(1) sample_crates_documented boot this run(1-3)] run show ?thesis by blast
qed

end
