(* ===== verification/Backoff_Jitter.thy ===== *)
theory Backoff_Jitter
  imports Backoff
begin

text \<open>
  How far \<open>BackoffPolicy::delay_with_jitter\<close> of \<^verbatim>\<open>crates/core/src/backoff.rs\<close> moves a delay.  The sums and products of the
  computation are rounded, so the bounds rest on rounding being monotone.
\<close>

section \<open>Rounding is monotone\<close>

lemma f64_exp_less:
  assumes "0 < x"
  shows "x < 2 powi (f64_exp x + 1)"
proof -
  obtain a b where ab: "quotient_of x = (a, b)" by fastforce
  then have x: "x = of_int a / of_int b" and b: "0 < b" by (auto intro: quotient_of_div quotient_of_denom_pos)
  have a: "0 < a" using assms x b by (simp add: zero_less_divide_iff)
  have "(of_int a :: rat) < 2 powi bitlen a" using bitlen_less_two_powi [OF a] .
  also have "\<dots> = 2 powi (bitlen a - bitlen b + 1) * 2 powi (bitlen b - 1)"
    by (simp flip: power_int_add)
  also have "\<dots> \<le> 2 powi (bitlen a - bitlen b + 1) * of_int b"
    using two_powi_le_bitlen [OF b] by (intro mult_left_mono) simp_all
  finally have "x < 2 powi (bitlen a - bitlen b + 1)" using b by (simp add: x pos_divide_less_eq)
  then show ?thesis by (auto simp: f64_exp_def ab Let_def)
qed

lemma f64_exp_mono:
  assumes "0 < x" and "x \<le> y"
  shows "f64_exp x \<le> f64_exp y"
proof -
  have "2 powi f64_exp x \<le> x" using f64_exp_le [OF assms(1)] .
  also have "\<dots> < 2 powi (f64_exp y + 1)" using assms f64_exp_less [of y] by simp
  finally show ?thesis using powi_less_cancel by fastforce
qed

text \<open>A positive number is rounded within its binade.\<close>

lemma f64_round_binade:
  assumes "0 < x"
  shows "2 powi f64_exp x \<le> f64_round x" and "f64_round x \<le> 2 powi (f64_exp x + 1)"
proof -
  let ?q = "2 powi (f64_exp x - 52) :: rat"
  have q: "0 < ?q" "of_int (2 ^ 52) * ?q = 2 powi f64_exp x" "of_int (2 ^ 53) * ?q = 2 powi (f64_exp x + 1)"
    by (simp_all add: power_int_diff power_int_add)
  have "of_int (2 ^ 52) \<le> x / ?q" using f64_exp_le [OF assms] q by (simp add: pos_le_divide_eq)
  then have "2 ^ 52 \<le> round_half_even (x / ?q)"
    using round_half_even_mono [of "of_int (2 ^ 52)" "x / ?q"] by (simp only: round_half_even_of_int)
  then have "(of_int (2 ^ 52) :: rat) \<le> of_int (round_half_even (x / ?q))" by (simp only: of_int_le_iff)
  then show "2 powi f64_exp x \<le> f64_round x"
    using q mult_right_mono [of "of_int (2 ^ 52)" _ ?q] assms by (simp add: f64_round_def Let_def)
  have "x / ?q \<le> of_int (2 ^ 53)" using f64_exp_less [OF assms] q by (simp add: pos_divide_le_eq)
  then have "round_half_even (x / ?q) \<le> 2 ^ 53"
    using round_half_even_mono [of "x / ?q" "of_int (2 ^ 53)"] by (simp only: round_half_even_of_int)
  then have "of_int (round_half_even (x / ?q)) \<le> (of_int (2 ^ 53) :: rat)" by (simp only: of_int_le_iff)
  then show "f64_round x \<le> 2 powi (f64_exp x + 1)"
    using q mult_right_mono [of _ "of_int (2 ^ 53)" ?q] assms by (simp add: f64_round_def Let_def)
qed

lemma f64_round_mono_pos:
  assumes "0 < x" and "x \<le> y"
  shows "f64_round x \<le> f64_round y"
proof (cases "f64_exp x = f64_exp y")
  case True
  let ?q = "2 powi (f64_exp x - 52) :: rat"
  have "round_half_even (x / ?q) \<le> round_half_even (y / ?q)"
    using assms by (intro round_half_even_mono divide_right_mono) simp_all
  then have "of_int (round_half_even (x / ?q)) * ?q \<le> of_int (round_half_even (y / ?q)) * ?q"
    by (intro mult_right_mono) simp_all
  with True assms show ?thesis by (simp add: f64_round_def Let_def)
next
  case False
  then have "f64_exp x + 1 \<le> f64_exp y" using f64_exp_mono [OF assms] by simp
  then have "(2 :: rat) powi (f64_exp x + 1) \<le> 2 powi f64_exp y" by (intro power_int_increasing) simp_all
  with f64_round_binade(2) [OF assms(1)] f64_round_binade(1) [of y] assms show ?thesis by linarith
qed

lemma round_half_even_minus: "round_half_even (- x) = - round_half_even x"
proof (cases "x \<in> \<int>")
  case True
  then obtain n where "x = of_int n" by (auto elim: Ints_cases)
  then show ?thesis using round_half_even_of_int [of n] round_half_even_of_int [of "- n"] by simp
next
  case False
  then have "\<lfloor>- x\<rfloor> = - \<lfloor>x\<rfloor> - 1" by (simp add: floor_minus ceiling_altdef) (metis Ints_of_int)
  then show ?thesis by (auto simp: round_half_even_def Let_def)
qed

lemma f64_round_minus: "f64_round (- x) = - f64_round x"
  by (simp add: f64_round_def Let_def round_half_even_minus)

lemma f64_round_0 [simp]: "f64_round 0 = 0"
  by (simp add: f64_round_def)

lemma f64_round_nonneg: "0 \<le> x \<Longrightarrow> 0 \<le> f64_round x"
  using f64_round_binade(1) [of x] by (cases "x = 0") (auto intro: order_trans [rotated])

lemma f64_round_mono:
  assumes "x \<le> y"
  shows "f64_round x \<le> f64_round y"
proof -
  consider "0 < x" | "x \<le> 0" "0 \<le> y" | "y < 0" by linarith
  then show ?thesis
  proof cases
    case 1
    with assms show ?thesis by (intro f64_round_mono_pos)
  next
    case 2
    then show ?thesis using f64_round_nonneg [of y] f64_round_nonneg [of "- x"] by (simp add: f64_round_minus)
  next
    case 3
    with assms show ?thesis using f64_round_mono_pos [of "- y" "- x"] by (simp add: f64_round_minus)
  qed
qed

lemma f64_round_int_bounds:
  assumes "\<bar>n\<bar> < 2 ^ 53"
  shows "of_int n \<le> x \<Longrightarrow> of_int n \<le> f64_round x" and "x \<le> of_int n \<Longrightarrow> f64_round x \<le> of_int n"
  using f64_round_mono [of "of_int n" x] f64_round_mono [of x "of_int n"] f64_round_int [OF assms] by simp_all

text \<open>A rounded number is an \<open>f64\<close>: rounding it again changes nothing.\<close>

lemma f64_round_idem_pos:
  assumes "0 < x"
  shows "f64_round (f64_round x) = f64_round x"
proof -
  let ?k = "f64_exp x - 52"
  define m where "m = round_half_even (x / 2 powi ?k)"
  have x: "f64_round x = of_int m * 2 powi ?k" using assms by (simp add: f64_round_def Let_def m_def)
  have pow: "(2 :: rat) powi (f64_exp x + 1) = of_int (2 ^ 53) * 2 powi ?k"
    by (simp add: power_int_diff power_int_add)
  have "of_int m * (2 :: rat) powi ?k \<le> of_int (2 ^ 53) * 2 powi ?k"
    using f64_round_binade(2) [OF assms] x pow by simp
  then have "(of_int m :: rat) \<le> of_int (2 ^ 53)" by (rule mult_right_le_imp_le) simp
  then have m: "m \<le> 2 ^ 53" by (simp only: of_int_le_iff)
  have "0 * (2 :: rat) powi ?k \<le> of_int m * 2 powi ?k" using f64_round_nonneg [of x] assms x by simp
  then have "(0 :: rat) \<le> of_int m" by (rule mult_right_le_imp_le) simp
  then have "0 \<le> m" by simp
  show ?thesis
  proof (cases "m = 2 ^ 53")
    case True
    then have "f64_round x = of_int 1 * 2 powi (f64_exp x + 1)" using x pow by simp
    with f64_round_dyadic [of 1 "f64_exp x + 1"] show ?thesis by simp
  next
    case False
    with m \<open>0 \<le> m\<close> f64_round_dyadic [of m ?k] show ?thesis by (simp only: x)
  qed
qed

lemma f64_round_idem [simp]: "f64_round (f64_round x) = f64_round x"
proof -
  consider "0 < x" | "x = 0" | "0 < - x" by linarith
  then show ?thesis
    by cases (use f64_round_idem_pos [of x] f64_round_idem_pos [of "- x"] in \<open>simp_all add: f64_round_minus\<close>)
qed

text \<open>Reading a duration back as seconds keeps whole bounds.\<close>

lemma as_secs_f64_ends:
  assumes "0 \<le> d_nanos d" and "d_nanos d < 1000000000" and "0 \<le> n" and "n < 2 ^ 53"
  shows "duration_le (from_secs n) d \<Longrightarrow> of_int n \<le> as_secs_f64 d"
    and "duration_le d (from_secs n) \<Longrightarrow> as_secs_f64 d \<le> of_int n"
proof -
  have n53: "\<bar>n\<bar> < 2 ^ 53" using assms(3,4) by simp
  let ?f = "f64_div (of_int (d_nanos d)) 1000000000"
  have f: "0 \<le> ?f" "?f \<le> 1"
    using assms(1,2) f64_round_int_bounds(2) [of 1 "of_int (d_nanos d) / 1000000000"]
    by (simp_all add: f64_div_def f64_round_nonneg)
  show "of_int n \<le> as_secs_f64 d" if "duration_le (from_secs n) d"
  proof -
    have "n \<le> d_secs d" using that assms(1,2) by (simp add: duration_le_def from_secs_def)
    then have "of_int n \<le> f64_round (of_int (d_secs d))" by (intro f64_round_int_bounds(1) [OF n53]) simp
    with f(1) show ?thesis unfolding as_secs_f64_def f64_add_def by (intro f64_round_int_bounds(1) [OF n53]) linarith
  qed
  show "as_secs_f64 d \<le> of_int n" if le: "duration_le d (from_secs n)"
  proof (cases "d_secs d = n")
    case True
    then have "d_nanos d = 0" using le assms(1) by (simp add: duration_le_def from_secs_def)
    with True show ?thesis
      using f64_round_int [OF n53] by (simp add: as_secs_f64_def f64_add_def f64_div_def)
  next
    case False
    then have "d_secs d \<le> n - 1" using le assms(1) by (simp add: duration_le_def from_secs_def)
    then have "of_int (d_secs d) \<le> (of_int (n - 1) :: rat)" by (simp only: of_int_le_iff)
    then have "f64_round (of_int (d_secs d)) \<le> f64_round (of_int (n - 1))" by (rule f64_round_mono)
    also have "\<dots> = of_int (n - 1)" using f64_round_int [of "n - 1"] assms(3,4) by simp
    finally show ?thesis
      unfolding as_secs_f64_def f64_add_def using f by (intro f64_round_int_bounds(2) [OF n53]) simp
  qed
qed

section \<open>The spread of a jittered delay\<close>

text \<open>\<open>(rand_unit * 2.0 - 1.0)\<close> stays between minus one and one.\<close>

lemma jitter_unit:
  fixes r :: rat
  shows "\<bar>f64_sub (f64_mul (min (max r 0) 1) 2) 1\<bar> \<le> 1"
proof -
  let ?u = "f64_mul (min (max r 0) 1) 2"
  have "0 \<le> ?u" "?u \<le> 2"
    using f64_round_int_bounds [of 0 "min (max r 0) 1 * 2"] f64_round_int_bounds [of 2 "min (max r 0) 1 * 2"]
    by (simp_all add: f64_mul_def)
  then have "- 1 \<le> f64_sub ?u 1" "f64_sub ?u 1 \<le> 1"
    using f64_round_int_bounds [of "- 1" "?u - 1"] f64_round_int_bounds [of 1 "?u - 1"]
    by (simp_all add: f64_sub_def)
  then show ?thesis by linarith
qed

text \<open>A product with a factor of at most one is not larger, once the other factor is an \<open>f64\<close>.\<close>

lemma f64_mul_unit:
  assumes "\<bar>u\<bar> \<le> 1" and "0 \<le> w" and "f64_round w = w"
  shows "\<bar>f64_mul u w\<bar> \<le> w"
proof -
  have "\<bar>u * w\<bar> \<le> 1 * w" unfolding abs_mult using assms(1,2) by (intro mult_mono) simp_all
  then have "u * w \<le> w" "- w \<le> u * w" by (simp_all add: abs_le_iff)
  then have "f64_round (u * w) \<le> f64_round w" "f64_round (- w) \<le> f64_round (u * w)"
    using f64_round_mono by blast+
  then show ?thesis using assms(3) by (simp add: f64_mul_def f64_round_minus abs_le_iff)
qed

lemma jitter_offset:
  fixes r :: rat
  assumes "0 \<le> w"
  shows "\<bar>f64_mul (f64_sub (f64_mul (min (max r 0) 1) 2) 1) (f64_round w)\<bar> \<le> f64_round w"
  by (rule f64_mul_unit [OF jitter_unit]) (simp_all add: f64_round_nonneg assms)

text \<open>The computed number of seconds, between the two ends of the spread.\<close>

lemma jitter_secs:
  fixes r :: rat
  assumes "1 \<le> n" and "n \<le> m" and "m < 2 ^ 53" and "0 \<le> j" and "j \<le> 1"
  defines "spread \<equiv> f64_mul (of_int n) j"
  defines "secs \<equiv> min (max (f64_add (of_int n) (f64_mul (f64_sub (f64_mul (min (max r 0) 1) 2) 1) spread)) 0) (of_int m)"
  shows "0 \<le> f64_sub (of_int n) spread" "f64_sub (of_int n) spread \<le> secs" "secs \<le> f64_add (of_int n) spread"
    "f64_add (of_int n) spread \<le> of_int (2 * n)"
proof -
  define x where "x = f64_mul (f64_sub (f64_mul (min (max r 0) 1) 2) 1) spread"
  have n53: "\<bar>n\<bar> < 2 ^ 53" using assms(1-3) by linarith
  have w: "0 \<le> of_int n * j" "of_int n * j \<le> of_int n" using assms(1,4,5) by (simp_all add: mult_left_le)
  then have spread: "0 \<le> spread" "spread \<le> of_int n"
    using f64_round_nonneg f64_round_int_bounds(2) [OF n53] by (simp_all add: spread_def f64_mul_def)
  have offset: "\<bar>x\<bar> \<le> spread" using jitter_offset [OF w(1), of r] by (simp add: x_def spread_def f64_mul_def)
  show low: "0 \<le> f64_sub (of_int n) spread" using spread(2) by (simp add: f64_sub_def f64_round_nonneg)
  have "f64_sub (of_int n) spread \<le> f64_add (of_int n) x"
    unfolding f64_sub_def f64_add_def using offset by (intro f64_round_mono) linarith
  moreover have "f64_sub (of_int n) spread \<le> of_int n"
    unfolding f64_sub_def using spread(1) by (intro f64_round_int_bounds(2) [OF n53]) linarith
  moreover have "(of_int n :: rat) \<le> of_int m" using assms(2) by simp
  ultimately show "f64_sub (of_int n) spread \<le> secs" unfolding secs_def x_def [symmetric] by (intro min.boundedI) linarith+
  have "f64_add (of_int n) x \<le> f64_add (of_int n) spread"
    unfolding f64_add_def using offset by (intro f64_round_mono) linarith
  moreover have "0 \<le> f64_add (of_int n) spread" using spread(1) assms(1) by (simp add: f64_add_def f64_round_nonneg)
  ultimately show "secs \<le> f64_add (of_int n) spread" unfolding secs_def x_def [symmetric] by (intro min.coboundedI1) simp
  have "f64_round (of_int n * 2 powi 1) = of_int n * 2 powi 1" by (rule f64_round_dyadic [OF n53])
  moreover have "f64_add (of_int n) spread \<le> f64_round (of_int n * 2 powi 1)"
    unfolding f64_add_def using spread(2) by (intro f64_round_mono) simp
  ultimately show "f64_add (of_int n) spread \<le> of_int (2 * n)" by simp
qed

lemma jittered_delay_ends:
  assumes "0 \<le> b" "b < 2 ^ 53" "0 \<le> m" "m < 2 ^ 53" and "0 \<le> j" and "j \<le> 1"
  shows "\<exists>base d low high.
    delay_for_attempt (exponential b m) a = (Ok base :: (duration, 'e) outcome) \<and>
    delay_with_jitter ((exponential b m)\<lparr>bp_jitter := j\<rparr>) a r = (Ok d :: (duration, 'e) outcome) \<and>
    from_secs_f64 (f64_sub (as_secs_f64 base) (f64_mul (as_secs_f64 base) j)) = (Ok low :: (duration, 'e) outcome) \<and>
    from_secs_f64 (f64_add (as_secs_f64 base) (f64_mul (as_secs_f64 base) j)) = (Ok high :: (duration, 'e) outcome) \<and>
    duration_le low d \<and> duration_le d high \<and> duration_le d (bp_max (exponential b m))"
proof -
  define m' where "m' = max m (max b 1)"
  have m': "m' < 2 ^ 53" "bp_max (exponential b m) = from_secs m'" using assms by (auto simp: m'_def exponential_def)
  obtain n where n: "delay_for_attempt (exponential b m) a = (Ok (from_secs n) :: (duration, 'e) outcome)" "1 \<le> n" "n \<le> m'"
    using assms(1-4) unfolding m'_def by (rule exact_delay_le_max)
  have f64: "as_secs_f64 (from_secs n) = of_int n" "as_secs_f64 (from_secs m') = of_int m'"
    using n m' by (simp_all add: as_secs_f64_from_secs)
  let ?low = "f64_sub (of_int n) (f64_mul (of_int n) j)" and ?high = "f64_add (of_int n) (f64_mul (of_int n) j)"
  let ?secs = "min (max (f64_add (of_int n) (f64_mul (f64_sub (f64_mul (min (max r 0) 1) 2) 1) (f64_mul (of_int n) j))) 0) (of_int m')"
  note ends = jitter_secs(1,4) [OF n(2,3) m'(1) assms(5,6)] jitter_secs(2,3) [OF n(2,3) m'(1) assms(5,6), of r]
  have n64: "0 \<le> 2 * n" "2 * n < 2 ^ 64" using n(2,3) m'(1) by simp_all
  have "?low \<le> of_int (2 * n)" "?secs \<le> of_int (2 * n)" "0 \<le> ?secs" "0 \<le> ?high" using ends by linarith+
  then obtain low high d where made: "from_secs_f64 ?low = (Ok low :: (duration, 'e) outcome)"
      "from_secs_f64 ?high = (Ok high :: (duration, 'e) outcome)" "from_secs_f64 ?secs = (Ok d :: (duration, 'e) outcome)"
    using from_secs_f64_returns [OF ends(1) _ n64] from_secs_f64_returns [OF _ ends(2) n64]
      from_secs_f64_returns [OF _ _ n64] by meson
  then have order: "duration_le low d" "duration_le d high" using from_secs_f64_mono ends(3,4) by blast+
  obtain d' where d': "delay_with_jitter ((exponential b m)\<lparr>bp_jitter := j\<rparr>) a r = (Ok d' :: (duration, 'e) outcome)"
      "duration_le d' (from_secs m')" "j \<le> 0 \<longrightarrow> d' = from_secs n"
    using jittered_delay_bounded [OF assms(1-4), of j a r, where ?'e = 'e] n(1) m'(2) by auto
  show ?thesis
  proof (cases "j \<le> 0")
    case True
    then have "j = 0" using assms(5) by simp
    then have "low = from_secs n" "high = from_secs n"
      using made(1,2) n m'(1) by (auto simp: f64_sub_def f64_add_def f64_mul_def f64_round_int from_secs_f64_int)
    with d' True made n(1) f64 m'(2) show ?thesis by (auto simp: duration_le_def)
  next
    case False
    have "delay_with_jitter ((exponential b m)\<lparr>bp_jitter := j\<rparr>) a r = (from_secs_f64 ?secs :: (duration, 'e) outcome)"
      using False n(1) f64 m'(2) by (simp add: delay_with_jitter_def delay_for_attempt_def Let_def)
    with d' made order n(1) f64 m'(2) show ?thesis by auto
  qed
qed

text \<open>Ten seconds with a jitter of a half: five to fifteen.\<close>

lemma ten_seconds_halved:
  "from_secs_f64 (f64_sub (as_secs_f64 (from_secs 10)) (f64_mul (as_secs_f64 (from_secs 10)) (1 / 2))) =
    (Ok (from_secs 5) :: (duration, unit) outcome)"
  "from_secs_f64 (f64_add (as_secs_f64 (from_secs 10)) (f64_mul (as_secs_f64 (from_secs 10)) (1 / 2))) =
    (Ok (from_secs 15) :: (duration, unit) outcome)"
  using f64_round_int [of 5] f64_round_int [of 15] from_secs_f64_int [of 5] from_secs_f64_int [of 15]
  by (simp_all add: as_secs_f64_from_secs f64_mul_def f64_sub_def f64_add_def)



end
