(* ===== verification/Unit_Tests.thy ===== *)
theory Unit_Tests
  imports Job_Status Backoff_Jitter Job_Model
begin

text \<open>
  The unit tests that \<^verbatim>\<open>crates/core\<close> keeps beside its code, each \<open>#[test]\<close> as the conjunction of its assertions over the
  model's functions; an \<open>unwrap\<close> of an error fails the test.  The repository runs them against the program, the
  theorem below against the model.
\<close>

fun unwrapped :: "('a, 'e) outcome \<Rightarrow> ('a \<Rightarrow> bool) \<Rightarrow> bool" where
  "unwrapped (Ok a) test \<longleftrightarrow> test a"
| "unwrapped _ test \<longleftrightarrow> False"

fun is_err :: "('a, 'e) outcome \<Rightarrow> bool" where
  "is_err (Err e) \<longleftrightarrow> True"
| "is_err _ \<longleftrightarrow> False"

section \<open>\<open>status.rs\<close>\<close>

definition roundtrips_through_string :: bool where
  "roundtrips_through_string \<longleftrightarrow>
    list_all (\<lambda>s. unwrapped (from_str (as_str s)) (\<lambda>s'. s' = s))
      [Queued, Scheduled, Processing, Completed, Failed, Retrying, Cancelled, DeadLettered]"

definition terminal_states_have_no_outgoing_edges :: bool where
  "terminal_states_have_no_outgoing_edges \<longleftrightarrow>
    list_all (\<lambda>s. is_terminal s \<and> list_all (\<lambda>t. \<not> can_transition_to s t) [Queued, Processing, Completed, Retrying])
      [Completed, Cancelled, DeadLettered]"

definition happy_path_is_legal :: bool where
  "happy_path_is_legal \<longleftrightarrow> can_transition_to Queued Processing \<and> can_transition_to Processing Completed"

definition retry_path_is_legal :: bool where
  "retry_path_is_legal \<longleftrightarrow>
    can_transition_to Processing Retrying \<and> can_transition_to Retrying Processing \<and>
    can_transition_to Retrying DeadLettered"

definition cannot_complete_a_queued_job_directly :: bool where
  "cannot_complete_a_queued_job_directly \<longleftrightarrow> \<not> can_transition_to Queued Completed"

definition lease_expiry_requeue_is_legal :: bool where
  "lease_expiry_requeue_is_legal \<longleftrightarrow> can_transition_to Processing Queued"

section \<open>\<open>backoff.rs\<close>\<close>

definition waits :: "backoff_policy \<Rightarrow> int \<Rightarrow> int \<Rightarrow> bool" where
  "waits p attempt secs \<longleftrightarrow> delay_for_attempt p attempt = (Ok (from_secs secs) :: (duration, unit) outcome)"

definition grows_exponentially :: bool where
  "grows_exponentially \<longleftrightarrow>
    (let p = exponential 2 1000 in waits p 1 2 \<and> waits p 2 4 \<and> waits p 3 8 \<and> waits p 4 16)"

definition respects_the_ceiling :: bool where
  "respects_the_ceiling \<longleftrightarrow> waits (exponential 2 10) 10 10"

definition attempt_zero_is_treated_as_one :: bool where
  "attempt_zero_is_treated_as_one \<longleftrightarrow> waits (exponential 3 1000) 0 3"

text \<open>The literal \<open>0.999\<close> is the \<open>f64\<close> nearest to it.\<close>

definition jitter_stays_within_bounds :: bool where
  "jitter_stays_within_bounds \<longleftrightarrow>
    (let p = (exponential 10 1000)\<lparr>bp_jitter := 1 / 2\<rparr>
     in list_all (\<lambda>r. unwrapped (delay_with_jitter p 1 r :: (duration, unit) outcome)
            (\<lambda>d. 5 \<le> as_secs_f64 d \<and> as_secs_f64 d \<le> 15))
          [0, 1 / 4, 1 / 2, 3 / 4, f64_round (999 / 1000)])"

definition zero_jitter_is_identity :: bool where
  "zero_jitter_is_identity \<longleftrightarrow>
    (let p = exponential 5 1000
     in delay_with_jitter p 2 (f64_round (9 / 10)) = (delay_for_attempt p 2 :: (duration, unit) outcome))"

definition does_not_overflow_for_large_attempts :: bool where
  "does_not_overflow_for_large_attempts \<longleftrightarrow> waits (exponential 2 600) 1000 600"

section \<open>\<open>model.rs\<close>\<close>

text \<open>The JSON values of a request are only handed on; \<open>j\<close> and \<open>md\<close> stand for the payload and \<open>default_metadata()\<close>.\<close>

definition test_now :: time where
  "test_now = interval_secs 1700000000"

definition base_job :: "'j \<Rightarrow> 'j \<Rightarrow> 'j new_job" where
  "base_job j md =
    \<lparr>n_queue = ''emails'', n_job_type = ''send'', n_payload = j, n_priority = 0, n_idempotency_key = None,
     n_max_attempts = None, n_delay_secs = None, n_run_at = None, n_timeout_secs = None, n_backoff_base_secs = None,
     n_backoff_max_secs = None, n_dead_letter = None, n_metadata = md, n_correlation_id = None\<rparr>"

definition applies_sensible_defaults :: "chrono_add \<Rightarrow> 'j new_job \<Rightarrow> bool" where
  "applies_sensible_defaults add base \<longleftrightarrow>
    unwrapped (normalized add base test_now) (\<lambda>n.
      z_max_attempts n = 5 \<and> z_timeout_secs n = 300 \<and> z_status n = Queued \<and> z_run_at n = test_now)"

definition delay_makes_it_scheduled :: "chrono_add \<Rightarrow> 'j new_job \<Rightarrow> bool" where
  "delay_makes_it_scheduled add base \<longleftrightarrow>
    unwrapped (normalized add (base\<lparr>n_delay_secs := Some 60\<rparr>) test_now) (\<lambda>n.
      z_status n = Scheduled \<and> Some (z_run_at n) = add test_now 60)"

definition explicit_run_at_overrides_delay :: "chrono_add \<Rightarrow> 'j new_job \<Rightarrow> bool" where
  "explicit_run_at_overrides_delay add base \<longleftrightarrow>
    (case add test_now 3600 of
       None \<Rightarrow> False
     | Some target \<Rightarrow>
         unwrapped (normalized add (base\<lparr>n_run_at := Some target, n_delay_secs := Some 10\<rparr>) test_now) (\<lambda>n.
           z_run_at n = target \<and> z_status n = Scheduled))"

definition rejects_empty_queue :: "chrono_add \<Rightarrow> 'j new_job \<Rightarrow> bool" where
  "rejects_empty_queue add base \<longleftrightarrow> is_err (normalized add (base\<lparr>n_queue := ''  ''\<rparr>) test_now)"

definition rejects_bad_max_attempts :: "chrono_add \<Rightarrow> 'j new_job \<Rightarrow> bool" where
  "rejects_bad_max_attempts add base \<longleftrightarrow> is_err (normalized add (base\<lparr>n_max_attempts := Some 0\<rparr>) test_now)"

definition backoff_max_is_floored_to_base :: "chrono_add \<Rightarrow> 'j new_job \<Rightarrow> bool" where
  "backoff_max_is_floored_to_base add base \<longleftrightarrow>
    unwrapped (normalized add (base\<lparr>n_backoff_base_secs := Some 30, n_backoff_max_secs := Some 5\<rparr>) test_now) (\<lambda>n.
      z_backoff_max_secs n = 30)"

section \<open>They pass\<close>

lemma status_tests:
  "roundtrips_through_string" "terminal_states_have_no_outgoing_edges" "happy_path_is_legal" "retry_path_is_legal"
  "cannot_complete_a_queued_job_directly" "lease_expiry_requeue_is_legal"
  by code_simp+

lemma backoff_tests:
  "grows_exponentially" "respects_the_ceiling" "attempt_zero_is_treated_as_one" "zero_jitter_is_identity"
  "does_not_overflow_for_large_attempts"
proof -
  note exact = waits_def delay_for_attempt_exact Let_def
  show "grows_exponentially" by (simp add: grows_exponentially_def exact)
  show "respects_the_ceiling" by (simp add: respects_the_ceiling_def exact)
  show "attempt_zero_is_treated_as_one" by (simp add: attempt_zero_is_treated_as_one_def exact)
  show "does_not_overflow_for_large_attempts" by (simp add: does_not_overflow_for_large_attempts_def exact)
  show "zero_jitter_is_identity"
    by (simp add: zero_jitter_is_identity_def Let_def delay_with_jitter_def delay_for_attempt_exact) (simp add: exponential_def)
qed

lemma from_secs_f64_nanos: "from_secs_f64 x = Ok d \<Longrightarrow> 0 \<le> d_nanos d \<and> d_nanos d < 1000000000"
  by (auto simp: from_secs_f64_Ok_iff Let_def)

lemma jittered_nanos: "delay_with_jitter p a r = Ok d \<Longrightarrow> 0 \<le> d_nanos d \<and> d_nanos d < 1000000000"
  by (auto simp: delay_with_jitter_def delay_for_attempt_def Let_def dest: from_secs_f64_nanos split: if_splits)

text \<open>The jitter test asserts five values of what holds for all of them.\<close>

lemma jitter_test_general:
  "unwrapped (delay_with_jitter ((exponential 10 1000)\<lparr>bp_jitter := 1 / 2\<rparr>) 1 r :: (duration, unit) outcome)
    (\<lambda>d. 5 \<le> as_secs_f64 d \<and> as_secs_f64 d \<le> 15)"
proof -
  have base: "delay_for_attempt (exponential 10 1000) 1 = (Ok (from_secs 10) :: (duration, unit) outcome)"
    by (simp add: delay_for_attempt_exact)
  obtain d where d: "delay_with_jitter ((exponential 10 1000)\<lparr>bp_jitter := 1 / 2\<rparr>) 1 r = (Ok d :: (duration, unit) outcome)"
      "duration_le (from_secs 5) d" "duration_le d (from_secs 15)"
    using jittered_delay_ends [of 10 1000 "1 / 2" 1 r, where ?'e = unit] base ten_seconds_halved by auto
  moreover have "0 \<le> d_nanos d" "d_nanos d < 1000000000"
    using jittered_nanos [OF d(1)] by simp_all
  ultimately show ?thesis using as_secs_f64_ends [of d 5] as_secs_f64_ends [of d 15] by simp
qed

lemma jitter_test: "jitter_stays_within_bounds"
  by (simp add: jitter_stays_within_bounds_def Let_def jitter_test_general)

lemma base_job_trim: "trim ''emails'' \<noteq> []" "trim ''send'' \<noteq> []" "trim ''  '' = []"
  by code_simp+

lemma model_tests:
  assumes "chrono_exact add" and "add test_now 60 \<noteq> None" and "add test_now 3600 \<noteq> None"
  shows "applies_sensible_defaults add (base_job j md)" "delay_makes_it_scheduled add (base_job j md)"
    "explicit_run_at_overrides_delay add (base_job j md)" "rejects_empty_queue add (base_job j md)"
    "rejects_bad_max_attempts add (base_job j md)" "backoff_max_is_floored_to_base add (base_job j md)"
proof -
  note defs = normalized_def resolve_run_at_def base_job_def base_job_trim str_len_def Let_def
  obtain t where t: "add test_now 60 = Some t" "test_now < t"
    using assms(1,2) by (auto dest: chrono_exactD)
  obtain u where u: "add test_now 3600 = Some u" "test_now < u"
    using assms(1,3) by (auto dest: chrono_exactD)
  show "applies_sensible_defaults add (base_job j md)"
    by (simp add: applies_sensible_defaults_def defs)
  show "delay_makes_it_scheduled add (base_job j md)"
    using t by (simp add: delay_makes_it_scheduled_def defs)
  show "explicit_run_at_overrides_delay add (base_job j md)"
    using u by (simp add: explicit_run_at_overrides_delay_def defs)
  show "rejects_empty_queue add (base_job j md)" by (simp add: rejects_empty_queue_def defs)
  show "rejects_bad_max_attempts add (base_job j md)" by (simp add: rejects_bad_max_attempts_def defs)
  show "backoff_max_is_floored_to_base add (base_job j md)" by (simp add: backoff_max_is_floored_to_base_def defs)
qed

text \<open>
  The model passes the program's own unit tests: the six tests of the status machine, the six of the backoff policy
  (the jitter test on the rounded \<open>f64\<close> arithmetic) and the six of \<open>NewJob::normalized\<close>, for every payload, when
  \<^verbatim>\<open>chrono\<close>'s addition is exact and the two sums the tests form are in its range.
\<close>

theorem unit_tests_pass:
  assumes "chrono_exact add" and "add test_now 60 \<noteq> None" and "add test_now 3600 \<noteq> None"
  shows "roundtrips_through_string \<and> terminal_states_have_no_outgoing_edges \<and> happy_path_is_legal \<and>
    retry_path_is_legal \<and> cannot_complete_a_queued_job_directly \<and> lease_expiry_requeue_is_legal \<and>
    grows_exponentially \<and> respects_the_ceiling \<and> attempt_zero_is_treated_as_one \<and> jitter_stays_within_bounds \<and>
    zero_jitter_is_identity \<and> does_not_overflow_for_large_attempts \<and>
    applies_sensible_defaults add (base_job j md) \<and> delay_makes_it_scheduled add (base_job j md) \<and>
    explicit_run_at_overrides_delay add (base_job j md) \<and> rejects_empty_queue add (base_job j md) \<and>
    rejects_bad_max_attempts add (base_job j md) \<and> backoff_max_is_floored_to_base add (base_job j md)"
  by (intro conjI status_tests backoff_tests jitter_test model_tests [OF assms])

theorem unit_tests_pass_witness:
  "jitter_stays_within_bounds \<and> delay_makes_it_scheduled sample_add (base_job () ())"
proof -
  have "sample_add test_now 60 \<noteq> None" "sample_add test_now 3600 \<noteq> None" by (simp_all add: sample_add_def)
  from unit_tests_pass [OF sample_add_exact this, of "()" "()"] show ?thesis by blast
qed

end
