(* ===== verification/Integration_Tests.thy ===== *)
theory Integration_Tests
  imports Process_Boot Worker_Liveness
begin

text \<open>
  The integration tests of \<^verbatim>\<open>crates/integration-tests\<close> run on the model: the tests of submission, leasing, retries, dead letters,
  recovery and the worker registry, and the one of a flaky job.  The two that start several tasks are in \<open>Concurrency_Tests\<close>.  Each test is the conjunction of its assertions along its calls; an
  \<open>unwrap\<close> of an error or of \<open>None\<close> fails it.
\<close>

section \<open>Helpers\<close>

text \<open>\<open>ctx()\<close>: \<open>Ok None\<close> skips the test, \<open>expect\<close> panics.\<close>

definition test_ctx ::
  "('s, 'f, 'a, 'r) crates \<Rightarrow> string \<Rightarrow> environment \<Rightarrow> ('s queue_service option, unit) outcome" where
  "test_ctx cr version env =
    (case (case env ''TEST_DATABASE_URL'' of Some u \<Rightarrow> Some u | None \<Rightarrow> env ''DATABASE_URL'') of
       None \<Rightarrow> Ok None
     | Some url \<Rightarrow>
         (case pg_connect cr url 16 of
            Ok s \<Rightarrow>
              (case pg_migrate cr s of
                 (Ok _, s') \<Rightarrow>
                   (case metrics_new (cr_accepts cr) (cr_register cr) (cr_registry cr) version of
                      Ok r \<Rightarrow> Ok (Some \<lparr>sv_store = s', sv_metrics = []\<rparr>)
                    | _ \<Rightarrow> Panic)
               | _ \<Rightarrow> Panic)
          | _ \<Rightarrow> Panic))"

definition test_job :: "string \<Rightarrow> string \<Rightarrow> json \<Rightarrow> json new_job" where
  "test_job queue job_type payload =
    \<lparr>n_queue = queue, n_job_type = job_type, n_payload = payload, n_priority = 0, n_idempotency_key = None,
     n_max_attempts = None, n_delay_secs = None, n_run_at = None, n_timeout_secs = None, n_backoff_base_secs = None,
     n_backoff_max_secs = None, n_dead_letter = None, n_metadata = JObject [], n_correlation_id = None\<rparr>"

text \<open>\<open>let x = call.await.unwrap()\<close>, and the same for an option inside.\<close>

abbreviation unwrap_call :: "('a, 'e) outcome \<times> 's \<Rightarrow> ('a \<Rightarrow> 's \<Rightarrow> bool) \<Rightarrow> bool" where
  "unwrap_call r test \<equiv> (case r of (Ok a, s) \<Rightarrow> test a s | _ \<Rightarrow> False)"

abbreviation unwrap_some :: "('a option, 'e) outcome \<times> 's \<Rightarrow> ('a \<Rightarrow> 's \<Rightarrow> bool) \<Rightarrow> bool" where
  "unwrap_some r test \<equiv> (case r of (Ok (Some a), s) \<Rightarrow> test a s | _ \<Rightarrow> False)"

text \<open>The \<open>k\<close>-th call of a test, a millisecond after the one before it, with a new id.\<close>

definition tick :: "int \<Rightarrow> pg_env" where
  "tick k = sample_env (interval_secs 1700000000 + 1000 * k) (word_of_int (100 + k))"

abbreviation test_submit :: "int \<Rightarrow> json new_job \<Rightarrow> json db queue_service \<Rightarrow> (json submission, queue_error) outcome \<times> json db queue_service" where
  "test_submit k \<equiv> svc_submit pg_store sample_add (tick k) (pe_now (tick k))"

abbreviation test_lease :: "int \<Rightarrow> uuid \<Rightarrow> string \<Rightarrow> int \<Rightarrow> json db queue_service \<Rightarrow> (json job option, queue_error) outcome \<times> json db queue_service" where
  "test_lease k w q secs \<equiv> call_store (so_lease_next pg_store (tick k) w [q] secs)"

definition queue_filter :: "string \<Rightarrow> job_filter" where
  "queue_filter q = \<lparr>jf_queue = Some q, jf_status = None, jf_job_type = None, jf_limit = None, jf_offset = None\<rparr>"

section \<open>\<open>lifecycle.rs\<close>\<close>

definition submit_get_and_list :: "string \<Rightarrow> json db queue_service \<Rightarrow> bool" where
  "submit_get_and_list q sv \<longleftrightarrow>
    unwrap_call (test_submit 0 (test_job q ''echo'' (JObject [(''hello'', JString ''world'')])) sv) (\<lambda>sub sv.
      sub_created sub \<and> j_status (sub_job sub) = Queued \<and>
      unwrap_call (svc_get_job pg_store (tick 1) (j_id (sub_job sub)) sv) (\<lambda>fetched sv.
        j_id fetched = j_id (sub_job sub) \<and> json_get (j_payload fetched) ''hello'' = Some (JString ''world'') \<and>
        unwrap_call (svc_list_jobs pg_store (tick 2) (queue_filter q) sv) (\<lambda>js sv. length js = 1)))"

definition idempotency_key_returns_same_job :: "string \<Rightarrow> json db queue_service \<Rightarrow> bool" where
  "idempotency_key_returns_same_job q sv \<longleftrightarrow>
    (let job = (test_job q ''echo'' (JObject [(''n'', JNumber 1)]))\<lparr>n_idempotency_key := Some ''order-42''\<rparr>
     in unwrap_call (test_submit 0 job sv) (\<lambda>fst_sub sv.
          sub_created fst_sub \<and>
          unwrap_call (test_submit 1 job sv) (\<lambda>snd_sub sv.
            \<not> sub_created snd_sub \<and> j_id (sub_job fst_sub) = j_id (sub_job snd_sub) \<and>
            unwrap_call (svc_list_jobs pg_store (tick 2) (queue_filter q) sv) (\<lambda>js sv. length js = 1))))"

text \<open>The kind of the error is computed and not asserted by the test; here it is.\<close>

definition cancel_queued_job_then_reject_recancel :: "string \<Rightarrow> json db queue_service \<Rightarrow> bool" where
  "cancel_queued_job_then_reject_recancel q sv \<longleftrightarrow>
    unwrap_call (test_submit 0 (test_job q ''echo'' (JObject [])) sv) (\<lambda>sub sv.
      unwrap_call (svc_cancel_job pg_store (tick 1) (j_id (sub_job sub)) sv) (\<lambda>cancelled sv.
        j_status cancelled = Cancelled \<and>
        (case fst (svc_cancel_job pg_store (tick 2) (j_id (sub_job sub)) sv) of
           Err (InvalidOperation op s) \<Rightarrow> True | _ \<Rightarrow> False)))"

definition delayed_job_is_scheduled_and_not_leaseable :: "string \<Rightarrow> json db queue_service \<Rightarrow> bool" where
  "delayed_job_is_scheduled_and_not_leaseable q sv \<longleftrightarrow>
    unwrap_call (test_submit 0 ((test_job q ''echo'' (JObject []))\<lparr>n_delay_secs := Some 3600\<rparr>) sv) (\<lambda>sub sv.
      j_status (sub_job sub) = Scheduled \<and>
      unwrap_call (test_lease 1 7 q 30 sv) (\<lambda>leased sv. Option.is_none leased))"

definition higher_priority_is_leased_first :: "string \<Rightarrow> json db queue_service \<Rightarrow> bool" where
  "higher_priority_is_leased_first q sv \<longleftrightarrow>
    unwrap_call (test_submit 0 ((test_job q ''echo'' (JObject [(''p'', JString ''low'')]))\<lparr>n_priority := 0\<rparr>) sv) (\<lambda>low sv.
      unwrap_call (test_submit 1 ((test_job q ''echo'' (JObject [(''p'', JString ''high'')]))\<lparr>n_priority := 100\<rparr>) sv) (\<lambda>high sv.
        unwrap_some (test_lease 2 7 q 30 sv) (\<lambda>leased sv.
          json_get (j_payload leased) ''p'' = Some (JString ''high'') \<and> j_id leased \<noteq> j_id (sub_job low))))"

definition paused_queue_yields_no_work :: "string \<Rightarrow> json db queue_service \<Rightarrow> bool" where
  "paused_queue_yields_no_work q sv \<longleftrightarrow>
    unwrap_call (test_submit 0 (test_job q ''echo'' (JObject [])) sv) (\<lambda>sub sv.
      unwrap_call (svc_set_queue_paused pg_store (tick 1) q True sv) (\<lambda>_ sv.
        unwrap_call (test_lease 2 7 q 30 sv) (\<lambda>leased sv.
          Option.is_none leased \<and>
          unwrap_call (svc_set_queue_paused pg_store (tick 3) q False sv) (\<lambda>_ sv.
            unwrap_call (test_lease 4 7 q 30 sv) (\<lambda>leased sv. \<not> Option.is_none leased)))))"

section \<open>\<open>reliability.rs\<close>\<close>

abbreviation test_fail :: "int \<Rightarrow> uuid \<Rightarrow> uuid \<Rightarrow> string \<Rightarrow> json db queue_service \<Rightarrow> (json job, queue_error) outcome \<times> json db queue_service" where
  "test_fail k i w err \<equiv> call_store (so_fail_job pg_store (tick k) i w err False)"

definition lease_then_complete_transitions :: "string \<Rightarrow> json db queue_service \<Rightarrow> bool" where
  "lease_then_complete_transitions q sv \<longleftrightarrow>
    unwrap_call (test_submit 0 (test_job q ''echo'' (JObject [])) sv) (\<lambda>sub sv.
      unwrap_some (test_lease 1 7 q 30 sv) (\<lambda>leased sv.
        j_status leased = Processing \<and> j_attempts leased = 1 \<and> j_locked_by leased = Some 7 \<and>
        unwrap_call (call_store (so_complete_job pg_store (tick 2) (j_id leased) 7
            (Some (JObject [(''ok'', JString ''true'')]))) sv) (\<lambda>done_job sv.
          j_status done_job = Completed \<and>
          Option.bind (j_result done_job) (\<lambda>r. json_get r ''ok'') = Some (JString ''true'') \<and>
          unwrap_call (test_lease 3 7 q 30 sv) (\<lambda>again sv.
            Option.is_none again \<and>
            unwrap_call (svc_list_attempts pg_store (tick 4) (tick 5) (j_id (sub_job sub)) sv) (\<lambda>attempts sv.
              map a_status attempts = [''succeeded''])))))"

definition failure_schedules_retry_with_backoff :: "string \<Rightarrow> json db queue_service \<Rightarrow> bool" where
  "failure_schedules_retry_with_backoff q sv \<longleftrightarrow>
    (let job = (test_job q ''fail'' (JObject []))\<lparr>n_max_attempts := Some 3, n_backoff_base_secs := Some 60\<rparr>
     in unwrap_call (test_submit 0 job sv) (\<lambda>sub sv.
          unwrap_some (test_lease 1 7 q 30 sv) (\<lambda>leased sv.
            unwrap_call (test_fail 2 (j_id leased) 7 ''boom'' sv) (\<lambda>failed sv.
              j_status failed = Retrying \<and> j_run_at (sub_job sub) < j_run_at failed \<and>
              unwrap_call (test_lease 3 7 q 30 sv) (\<lambda>again sv.
                Option.is_none again \<and>
                unwrap_call (svc_list_attempts pg_store (tick 4) (tick 5) (j_id (sub_job sub)) sv) (\<lambda>attempts sv.
                  map a_status attempts = [''failed'']))))))"

definition exhausted_attempts_dead_letter :: "string \<Rightarrow> json db queue_service \<Rightarrow> bool" where
  "exhausted_attempts_dead_letter q sv \<longleftrightarrow>
    unwrap_call (test_submit 0 ((test_job q ''fail'' (JObject []))\<lparr>n_max_attempts := Some 1\<rparr>) sv) (\<lambda>sub sv.
      unwrap_some (test_lease 1 7 q 30 sv) (\<lambda>leased sv.
        unwrap_call (test_fail 2 (j_id leased) 7 ''fatal'' sv) (\<lambda>dead sv.
          j_status dead = DeadLettered \<and>
          unwrap_call (svc_list_dead_letter pg_store (tick 3) (Some q) 50 sv) (\<lambda>dlq sv.
            map dl_id dlq = [j_id (sub_job sub)] \<and>
            unwrap_call (svc_retry_job pg_store (tick 4) (j_id (sub_job sub)) sv) (\<lambda>retried sv.
              j_status retried = Queued \<and> j_attempts retried = 0 \<and>
              unwrap_call (svc_list_dead_letter pg_store (tick 5) (Some q) 50 sv) (\<lambda>dlq sv. dlq = []))))))"

definition exhausted_without_dlq_becomes_failed :: "string \<Rightarrow> json db queue_service \<Rightarrow> bool" where
  "exhausted_without_dlq_becomes_failed q sv \<longleftrightarrow>
    (let job = (test_job q ''fail'' (JObject []))\<lparr>n_max_attempts := Some 1, n_dead_letter := Some False\<rparr>
     in unwrap_call (test_submit 0 job sv) (\<lambda>sub sv.
          unwrap_some (test_lease 1 7 q 30 sv) (\<lambda>leased sv.
            unwrap_call (test_fail 2 (j_id leased) 7 ''fatal'' sv) (\<lambda>failed sv.
              j_status failed = Failed \<and>
              unwrap_call (svc_list_dead_letter pg_store (tick 3) (Some q) 50 sv) (\<lambda>dlq sv.
                dlq = [] \<and>
                unwrap_call (svc_retry_job pg_store (tick 4) (j_id (sub_job sub)) sv) (\<lambda>retried sv.
                  j_status retried = Queued))))))"

text \<open>A lease of zero seconds; the test sleeps 150 ms before the sweep.\<close>

definition expired_lease_is_recovered :: "string \<Rightarrow> json db queue_service \<Rightarrow> bool" where
  "expired_lease_is_recovered q sv \<longleftrightarrow>
    unwrap_call (test_submit 0 ((test_job q ''echo'' (JObject []))\<lparr>n_max_attempts := Some 5\<rparr>) sv) (\<lambda>sub sv.
      unwrap_some (test_lease 1 7 q 0 sv) (\<lambda>leased sv.
        j_status leased = Processing \<and>
        unwrap_call (call_store (so_recover_expired_leases pg_store (tick 151) 100) sv) (\<lambda>recovered sv.
          j_id (sub_job sub) \<in> set recovered \<and>
          unwrap_call (svc_get_job pg_store (tick 152) (j_id (sub_job sub)) sv) (\<lambda>after sv.
            j_status after = Retrying \<and> j_locked_by after = None))))"

section \<open>\<open>workers.rs\<close>\<close>

definition register_heartbeat_and_missing_worker :: "string \<Rightarrow> json db queue_service \<Rightarrow> bool" where
  "register_heartbeat_and_missing_worker q sv \<longleftrightarrow>
    (let worker = \<lparr>w_id = 7, w_hostname = ''test-host'', w_queues = [q], w_concurrency = 4,
           w_registered_at = pe_now (tick 0), w_last_heartbeat = pe_now (tick 0)\<rparr>
     in unwrap_call (call_store (so_register_worker pg_store (tick 1) worker) sv) (\<lambda>_ sv.
          unwrap_call (call_store (so_heartbeat pg_store (tick 2) 7) sv) (\<lambda>known sv.
            known \<and>
            unwrap_call (call_store (so_heartbeat pg_store (tick 3) 8) sv) (\<lambda>unknown sv.
              \<not> unknown \<and>
              unwrap_call (call_store (so_list_active_workers pg_store (tick 4) 60) sv) (\<lambda>active sv.
                list_ex (\<lambda>w. w_id w = 7) active \<and>
                unwrap_call (call_store (so_prune_dead_workers pg_store (tick 5) 3600) sv) (\<lambda>pruned sv.
                  pruned = 0 \<and>
                  unwrap_call (call_store (so_deregister_worker pg_store (tick 6) 7) sv) (\<lambda>_ sv.
                    unwrap_call (call_store (so_heartbeat pg_store (tick 7) 7) sv) (\<lambda>again sv. \<not> again))))))))"

text \<open>The runtime of this test polls every 50 ms; here it makes a round whenever the job is due.\<close>

definition test_round :: "int \<Rightarrow> round_input" where
  "test_round k = \<lparr>ri_lease = tick k, ri_renew = tick (k + 1), ri_took = 5, ri_elapsed = 0, ri_report = tick (k + 2)\<rparr>"

fun after_rounds :: "string \<Rightarrow> (json submission, queue_error) outcome \<times> json db queue_service \<Rightarrow> bool" where
  "after_rounds q (Ok sub, sv) \<longleftrightarrow>
    unwrap_call (svc_get_job pg_store (tick 6000) (j_id (sub_job sub))
        (fold (work_round (with_examples sample_json registry_new) 7 [q] 30) (map test_round [10, 1100, 3200]) sv)) (\<lambda>job sv.
      j_status job = Completed \<and> 3 \<le> j_attempts job)"
| "after_rounds q (_, sv) \<longleftrightarrow> False"

definition flaky_job_eventually_succeeds_via_retries :: "string \<Rightarrow> json db queue_service \<Rightarrow> bool" where
  "flaky_job_eventually_succeeds_via_retries q sv \<longleftrightarrow>
    after_rounds q (test_submit 0 ((test_job q ''flaky'' (JObject [(''fail_until'', JNumber 3)]))\<lparr>n_max_attempts := Some 5,
      n_backoff_base_secs := Some 1, n_backoff_max_secs := Some 2\<rparr>) sv)"

section \<open>They pass\<close>

definition fresh_service :: "json db queue_service" where
  "fresh_service = \<lparr>sv_store = run [] empty_db, sv_metrics = []\<rparr>"

lemma test_ctx_fresh: "test_ctx sample_crates ''1'' [''TEST_DATABASE_URL'' \<mapsto> ''postgres''] = Ok (Some fresh_service)"
proof -
  let ?cr = "sample_crates :: (json db, unit, string, string list) crates"
  have "\<exists>r. metrics_new (cr_accepts ?cr) (cr_register ?cr) (cr_registry ?cr) ''1'' = Ok r"
    by (rule crates_metrics [OF sample_crates_documented])
  moreover have "pg_connect ?cr ''postgres'' 16 = Ok (sv_store fresh_service)"
    "pg_migrate ?cr (sv_store fresh_service) = (Ok (), sv_store fresh_service)"
    by (simp_all add: pg_connect_def pg_migrate_def sample_crates_def fresh_service_def)
  ultimately show ?thesis by (auto simp: test_ctx_def fresh_service_def)
qed

lemma lifecycle_tests:
  "submit_get_and_list ''test_1'' fresh_service \<and>
   idempotency_key_returns_same_job ''test_1'' fresh_service \<and>
   cancel_queued_job_then_reject_recancel ''test_1'' fresh_service \<and>
   delayed_job_is_scheduled_and_not_leaseable ''test_1'' fresh_service \<and>
   higher_priority_is_leased_first ''test_1'' fresh_service \<and>
   paused_queue_yields_no_work ''test_1'' fresh_service"
  by code_simp

lemma reliability_tests:
  "lease_then_complete_transitions ''test_1'' fresh_service \<and>
   failure_schedules_retry_with_backoff ''test_1'' fresh_service \<and>
   exhausted_attempts_dead_letter ''test_1'' fresh_service \<and>
   exhausted_without_dlq_becomes_failed ''test_1'' fresh_service \<and>
   expired_lease_is_recovered ''test_1'' fresh_service"
  by code_simp

lemma registry_test: "register_heartbeat_and_missing_worker ''test_1'' fresh_service"
  by code_simp

lemma flaky_test: "flaky_job_eventually_succeeds_via_retries ''test_1'' fresh_service"
  by code_simp

text \<open>The tests that make their calls one after the other, on a fresh database.\<close>

theorem integration_tests_pass:
  "case test_ctx sample_crates ''1'' [''TEST_DATABASE_URL'' \<mapsto> ''postgres''] of
     Ok (Some sv) \<Rightarrow>
       (let q = ''test_1'' in
          submit_get_and_list q sv \<and> idempotency_key_returns_same_job q sv \<and>
          cancel_queued_job_then_reject_recancel q sv \<and> delayed_job_is_scheduled_and_not_leaseable q sv \<and>
          higher_priority_is_leased_first q sv \<and> paused_queue_yields_no_work q sv \<and>
          lease_then_complete_transitions q sv \<and> failure_schedules_retry_with_backoff q sv \<and>
          exhausted_attempts_dead_letter q sv \<and> exhausted_without_dlq_becomes_failed q sv \<and>
          expired_lease_is_recovered q sv \<and> register_heartbeat_and_missing_worker q sv \<and>
          flaky_job_eventually_succeeds_via_retries q sv)
   | _ \<Rightarrow> False"
  unfolding test_ctx_fresh Let_def outcome.case option.case
  using lifecycle_tests reliability_tests registry_test flaky_test by blast

end
