(* ===== verification/Contention.thy ===== *)
theory Contention
  imports Worker_Liveness
begin

text \<open>
  Many workers on one queue (\<^verbatim>\<open>integration-tests/tests/concurrency.rs\<close>).  Each task of the test leases, counts and completes
  until a lease finds nothing; a step is one awaited operation of one task, and the steps of all tasks interleave.  Every
  interleaving ends, and hands out every job exactly once.
\<close>

section \<open>The tasks\<close>

datatype contest_phase = Seeking | Counting uuid | Completing uuid | TaskReturned | TaskPanicked

record 'j contest =
  ct_db :: "'j db"
  ct_counts :: "(uuid \<times> nat) list"
  ct_workers :: "uuid list"
  ct_phases :: "contest_phase list"

text \<open>\<open>entry(id).and_modify(|c| *c += 1).or_insert(1)\<close>.\<close>

fun bump :: "uuid \<Rightarrow> (uuid \<times> nat) list \<Rightarrow> (uuid \<times> nat) list" where
  "bump i [] = [(i, 1)]"
| "bump i ((j, c) # cs) = (if i = j then (j, c + 1) # cs else (j, c) # bump i cs)"

text \<open>The body of a spawned task, from one \<open>await\<close> to the next.\<close>

definition leased_phase :: "('j job option, queue_error) outcome \<Rightarrow> contest_phase" where
  "leased_phase out = (case out of Ok (Some job) \<Rightarrow> Counting (j_id job) | Ok None \<Rightarrow> TaskReturned | _ \<Rightarrow> TaskPanicked)"

definition completed_phase :: "('j job, queue_error) outcome \<Rightarrow> contest_phase" where
  "completed_phase out = (case out of Ok _ \<Rightarrow> Seeking | _ \<Rightarrow> TaskPanicked)"

definition contest_step :: "string \<Rightarrow> nat \<times> pg_env \<Rightarrow> 'j contest \<Rightarrow> 'j contest" where
  "contest_step q ev st =
    (case ev of (k, env) \<Rightarrow>
       let w = ct_workers st ! k
       in case ct_phases st ! k of
            Seeking \<Rightarrow>
              (case lease_next env w [q] 30 (ct_db st) of (out, db') \<Rightarrow>
                 st\<lparr>ct_db := db', ct_phases := (ct_phases st)[k := leased_phase out]\<rparr>)
          | Counting i \<Rightarrow>
              st\<lparr>ct_counts := bump i (ct_counts st), ct_phases := (ct_phases st)[k := Completing i]\<rparr>
          | Completing i \<Rightarrow>
              (case complete_job env i w None (ct_db st) of (out, db') \<Rightarrow>
                 st\<lparr>ct_db := db', ct_phases := (ct_phases st)[k := completed_phase out]\<rparr>)
          | _ \<Rightarrow> st)"

text \<open>
  A task that is not done can take its step.  A lease runs when the waiting jobs are due, and skips a waiting job only if it is locked,
  that is if another task is inside its own lease.
\<close>

definition contest_allowed :: "string \<Rightarrow> nat \<times> pg_env \<Rightarrow> 'j contest \<Rightarrow> bool" where
  "contest_allowed q ev st \<longleftrightarrow>
    (case ev of (k, env) \<Rightarrow>
       k < length (ct_phases st) \<and> ct_phases st ! k \<notin> {TaskReturned, TaskPanicked} \<and>
       (ct_phases st ! k = Seeking \<longrightarrow>
         list_all (\<lambda>x. waiting [q] (ct_db st) x \<longrightarrow> r_run_at x \<le> pe_now env \<and>
           (r_id x \<in> set (pe_locked env) \<longrightarrow> Seeking \<in> set ((ct_phases st)[k := TaskReturned]))) (jobs (ct_db st))))"

definition contest_start :: "uuid list \<Rightarrow> 'j db \<Rightarrow> 'j contest" where
  "contest_start ws db = \<lparr>ct_db = db, ct_counts = [], ct_workers = ws, ct_phases = map (\<lambda>_. Seeking) ws\<rparr>"

section \<open>What the tasks keep\<close>

definition ids_of :: "string \<Rightarrow> 'j db \<Rightarrow> uuid list" where
  "ids_of q db = map r_id (filter (\<lambda>r. r_queue r = q) (jobs db))"

text \<open>Where a job is: the status of its row, the tasks at work on it, and how often it was counted.\<close>

definition job_accounted :: "job_status \<Rightarrow> nat \<Rightarrow> nat \<Rightarrow> nat option \<Rightarrow> bool" where
  "job_accounted s counting completing n \<longleftrightarrow>
    is_leaseable s \<and> counting = 0 \<and> completing = 0 \<and> n = None \<or>
    s = Processing \<and> counting = 1 \<and> completing = 0 \<and> n = None \<or>
    s = Processing \<and> counting = 0 \<and> completing = 1 \<and> n = Some 1 \<or>
    s = Completed \<and> counting = 0 \<and> completing = 0 \<and> n = Some 1"

fun phase_ok :: "string \<Rightarrow> 'j db \<Rightarrow> uuid \<Rightarrow> contest_phase \<Rightarrow> bool" where
  "phase_ok q db w (Counting i) \<longleftrightarrow> (\<exists>r. row_of i db = Some r \<and> held_by i w r \<and> r_queue r = q)"
| "phase_ok q db w (Completing i) \<longleftrightarrow> (\<exists>r. row_of i db = Some r \<and> held_by i w r \<and> r_queue r = q)"
| "phase_ok q db w TaskPanicked \<longleftrightarrow> False"
| "phase_ok q db w _ \<longleftrightarrow> True"

definition accounted :: "string \<Rightarrow> 'j db \<Rightarrow> contest_phase list \<Rightarrow> (uuid \<times> nat) list \<Rightarrow> bool" where
  "accounted q db phases counts \<longleftrightarrow>
    (\<forall>i r. row_of i db = Some r \<longrightarrow> r_queue r = q \<longrightarrow>
      job_accounted (status_of r) (count_list phases (Counting i)) (count_list phases (Completing i)) (map_of counts i))"

definition contest_ok :: "string \<Rightarrow> uuid list \<Rightarrow> 'j contest \<Rightarrow> bool" where
  "contest_ok q ids st \<longleftrightarrow>
    store_ok (ct_db st) \<and> queue_open q (ct_db st) \<and> ids_of q (ct_db st) = ids \<and>
    list_all2 (phase_ok q (ct_db st)) (ct_workers st) (ct_phases st) \<and>
    accounted q (ct_db st) (ct_phases st) (ct_counts st) \<and>
    distinct (map fst (ct_counts st)) \<and> set (map fst (ct_counts st)) \<subseteq> set ids \<and>
    ((\<forall>p \<in> set (ct_phases st). p = TaskReturned) \<longrightarrow> (\<forall>x \<in> set (jobs (ct_db st)). \<not> waiting [q] (ct_db st) x))"

text \<open>The steps that are left.\<close>

fun phase_work :: "contest_phase \<Rightarrow> nat" where
  "phase_work Seeking = 1"
| "phase_work (Counting i) = 3"
| "phase_work (Completing i) = 2"
| "phase_work _ = 0"

definition contest_work :: "string \<Rightarrow> 'j contest \<Rightarrow> nat" where
  "contest_work q st =
    3 * sum_list (map (\<lambda>x. of_bool (waiting [q] (ct_db st) x)) (jobs (ct_db st))) + sum_list (map phase_work (ct_phases st))"

lemma count_list_update:
  "k < length xs \<Longrightarrow> count_list (xs[k := y]) z + of_bool (xs ! k = z) = count_list xs z + of_bool (y = z)"
proof (induction xs arbitrary: k)
  case (Cons x xs)
  show ?case
  proof (cases k)
    case (Suc j)
    then show ?thesis using Cons.IH [of j] Cons.prems by (cases "x = z") simp_all
  qed (cases "x = z"; cases "y = z"; simp)
qed simp

lemma map_of_bump: "map_of (bump i cs) = (map_of cs)(i \<mapsto> case map_of cs i of None \<Rightarrow> 1 | Some c \<Rightarrow> c + 1)"
  by (induction i cs rule: bump.induct) (auto simp: fun_eq_iff split: option.splits)

lemma keys_bump: "set (map fst (bump i cs)) = insert i (set (map fst cs))"
  by (induction i cs rule: bump.induct) auto

lemma distinct_bump: "distinct (map fst cs) \<Longrightarrow> distinct (map fst (bump i cs))"
  by (induction i cs rule: bump.induct) (use keys_bump in \<open>auto simp: image_iff\<close>)

section \<open>Every step keeps it\<close>

lemma contest_okD:
  assumes "contest_ok q ids st"
  shows "store_ok (ct_db st)" "db_ok (ct_db st)" "queue_open q (ct_db st)" "ids_of q (ct_db st) = ids"
    "list_all2 (phase_ok q (ct_db st)) (ct_workers st) (ct_phases st)" "accounted q (ct_db st) (ct_phases st) (ct_counts st)"
    "distinct (map fst (ct_counts st))" "set (map fst (ct_counts st)) \<subseteq> set ids"
    "length (ct_workers st) = length (ct_phases st)"
  using assms by (auto simp: contest_ok_def dest: list_all2_lengthD)

lemma ids_of_update_job:
  assumes "\<And>x. same_identity x (f x)"
  shows "ids_of q (update_job i f db) = ids_of q db"
proof -
  have "map r_id (filter (\<lambda>r. r_queue r = q) (update_where p f rows)) = map r_id (filter (\<lambda>r. r_queue r = q) rows)" for p rows
    using assms by (induction rows) (simp_all add: same_identity_def)
  then show ?thesis by (simp add: ids_of_def update_job_def)
qed

lemma ids_of_jobs: "jobs db = jobs db' \<Longrightarrow> ids_of q db = ids_of q db'"
  by (simp add: ids_of_def)

lemma waiting_single: "waiting [q] db r \<longleftrightarrow> r_queue r = q \<and> queue_open q db \<and> is_leaseable (status_of r)"
  by (auto simp: waiting_def)

text \<open>The phase of another task survives a change of rows it does not hold.\<close>

lemma phase_ok_other:
  assumes "\<And>i r. row_of i db = Some r \<Longrightarrow> held_by i w r \<Longrightarrow> r_queue r = q \<Longrightarrow> p = Counting i \<or> p = Completing i \<Longrightarrow>
      row_of i db' = Some r"
    and "phase_ok q db w p"
  shows "phase_ok q db' w p"
  using assms by (cases p) auto

lemma accounted_step:
  assumes "accounted q db phases counts" and "k < length phases"
    and "\<And>j. j \<noteq> i \<Longrightarrow> row_of j db' = row_of j db"
    and "\<And>j. j \<noteq> i \<Longrightarrow> phases ! k \<notin> {Counting j, Completing j} \<and> p \<notin> {Counting j, Completing j}"
    and "\<And>j. j \<noteq> i \<Longrightarrow> map_of counts' j = map_of counts j"
    and "\<And>r. row_of i db' = Some r \<Longrightarrow> r_queue r = q \<Longrightarrow>
      job_accounted (status_of r) (count_list (phases[k := p]) (Counting i)) (count_list (phases[k := p]) (Completing i))
        (map_of counts' i)"
  shows "accounted q db' (phases[k := p]) counts'"
  unfolding accounted_def
proof (intro allI impI)
  fix j r
  assume r: "row_of j db' = Some r" "r_queue r = q"
  show "job_accounted (status_of r) (count_list (phases[k := p]) (Counting j)) (count_list (phases[k := p]) (Completing j))
      (map_of counts' j)"
  proof (cases "j = i")
    case False
    have "count_list (phases[k := p]) x = count_list phases x" if "x \<in> {Counting j, Completing j}" for x
      using count_list_update [OF assms(2), of p x] assms(4) [OF False] that by auto
    with assms(1) assms(3,5) [OF False] r show ?thesis by (simp add: accounted_def)
  qed (use assms(6) r in simp)
qed

text \<open>A task at work on a job is the only one.\<close>

lemma sole_holder:
  assumes "contest_ok q ids st" and "k < length (ct_phases st)" and "l < length (ct_phases st)"
    and "ct_phases st ! k \<in> {Counting i, Completing i}" and "ct_phases st ! l \<in> {Counting i, Completing i}"
  shows "l = k"
proof (rule ccontr)
  assume "l \<noteq> k"
  let ?ps = "ct_phases st"
  have "phase_ok q (ct_db st) (ct_workers st ! k) (?ps ! k)"
    using contest_okD(5) [OF assms(1)] assms(2) by (simp add: list_all2_conv_all_nth)
  then obtain r where "row_of i (ct_db st) = Some r" "r_queue r = q" using assms(4) by auto
  then have acc: "job_accounted (status_of r) (count_list ?ps (Counting i)) (count_list ?ps (Completing i)) (map_of (ct_counts st) i)"
    using contest_okD(6) [OF assms(1)] by (simp add: accounted_def)
  have "count_list ?ps x = count_list (?ps[k := TaskReturned]) x + of_bool (?ps ! k = x)"
    "count_list (?ps[k := TaskReturned]) x = count_list (?ps[k := TaskReturned, l := TaskReturned]) x + of_bool (?ps ! l = x)"
    if "x \<noteq> TaskReturned" for x
    using count_list_update [OF assms(2), of TaskReturned x] count_list_update [of l "?ps[k := TaskReturned]" TaskReturned x] assms(3) that \<open>l \<noteq> k\<close>
    by simp_all
  then have "2 \<le> count_list ?ps (Counting i) + count_list ?ps (Completing i)"
    using assms(4,5) by auto
  with acc show False by (auto simp: job_accounted_def)
qed

lemma phases_step:
  assumes "list_all2 (phase_ok q db) ws ps" and "k < length ps" and "phase_ok q db' (ws ! k) p"
    and "\<And>l. l < length ps \<Longrightarrow> l \<noteq> k \<Longrightarrow> phase_ok q db (ws ! l) (ps ! l) \<Longrightarrow> phase_ok q db' (ws ! l) (ps ! l)"
  shows "list_all2 (phase_ok q db') ws (ps[k := p])"
  using assms by (auto simp: list_all2_conv_all_nth nth_list_update)

lemma contest_accounted:
  assumes "contest_ok q ids st" and "row_of i (ct_db st) = Some r" and "r_queue r = q"
  shows "job_accounted (status_of r) (count_list (ct_phases st) (Counting i)) (count_list (ct_phases st) (Completing i))
    (map_of (ct_counts st) i)"
  using contest_okD(6) [OF assms(1)] assms(2,3) by (simp add: accounted_def)

lemma not_returned: "k < length ps \<Longrightarrow> p \<noteq> TaskReturned \<Longrightarrow> \<exists>x \<in> set (ps[k := p]). x \<noteq> TaskReturned"
  using set_update_memI [of k ps p] by blast

lemma contest_lease_none:
  assumes ok: "contest_ok q ids st" and allowed: "contest_allowed q (k, env) st" and k: "ct_phases st ! k = Seeking"
    and none: "lease_candidate env [q] (ct_db st) = None"
  shows "contest_step q (k, env) st = st\<lparr>ct_phases := (ct_phases st)[k := TaskReturned]\<rparr>"
    and "contest_ok q ids (contest_step q (k, env) st)"
proof -
  let ?db = "ct_db st" and ?ps = "(ct_phases st)[k := TaskReturned]"
  show step: "contest_step q (k, env) st = st\<lparr>ct_phases := ?ps\<rparr>"
    using k none by (simp add: contest_step_def lease_next_eq [OF contest_okD(2) [OF ok]] leased_phase_def)
  have len: "k < length (ct_phases st)" using allowed by (simp add: contest_allowed_def)
  have "accounted q ?db ?ps (ct_counts st)"
  proof -
    have "count_list ?ps (Counting i) = count_list (ct_phases st) (Counting i)"
      "count_list ?ps (Completing i) = count_list (ct_phases st) (Completing i)" for i
      using k count_list_update [OF len, of TaskReturned "Counting i"] count_list_update [OF len, of TaskReturned "Completing i"] by simp_all
    then show ?thesis using contest_okD(6) [OF ok] by (simp add: accounted_def)
  qed
  moreover have "list_all2 (phase_ok q ?db) (ct_workers st) ?ps"
    using contest_okD(5) [OF ok] len by (rule phases_step) simp_all
  moreover have "\<not> waiting [q] ?db x" if "\<forall>p \<in> set ?ps. p = TaskReturned" and x: "x \<in> set (jobs ?db)" for x
  proof
    assume "waiting [q] ?db x"
    moreover have "Seeking \<notin> set ?ps" using that by auto
    ultimately have "lease_eligible env [q] ?db x"
      using allowed k x waiting_eligible [OF contest_okD(2) [OF ok] x] by (auto simp: contest_allowed_def list_all_iff)
    then show False using none x by (simp add: lease_candidate_None_iff)
  qed
  ultimately show "contest_ok q ids (contest_step q (k, env) st)"
    unfolding step using ok by (simp add: contest_ok_def)
qed

lemma contest_lease_some:
  assumes ok: "contest_ok q ids st" and allowed: "contest_allowed q (k, env) st" and k: "ct_phases st ! k = Seeking"
    and some: "lease_candidate env [q] (ct_db st) = Some c"
  shows "contest_step q (k, env) st =
      st\<lparr>ct_db := exec env (LeaseNext (ct_workers st ! k) [q] 30) (ct_db st), ct_phases := (ct_phases st)[k := Counting (r_id c)]\<rparr>"
    and "contest_ok q ids (contest_step q (k, env) st)"
proof -
  let ?db = "ct_db st" and ?ps = "(ct_phases st)[k := Counting (r_id c)]" and ?w = "ct_workers st ! k"
  let ?db' = "exec env (LeaseNext ?w [q] 30) ?db"
  note db = contest_okD(2) [OF ok]
  let ?f = "lease_set (pe_now env) ?w 30"
  have id: "j_id (job_of (?f c)) = r_id c" by (simp add: job_of_fields(1) [OF status_after(3)])
  show step: "contest_step q (k, env) st = st\<lparr>ct_db := ?db', ct_phases := ?ps\<rparr>"
    using k some id by (simp add: contest_step_def lease_next_eq [OF db] leased_phase_def Let_def)
  have len: "k < length (ct_phases st)" using allowed by (simp add: contest_allowed_def)
  have c: "row_of (r_id c) ?db = Some c" "r_queue c = q" "is_leaseable (status_of c)"
    using lease_candidate_SomeD(1,2) [OF some] waiting_eligible [OF db] by (auto simp: db_ok_find [OF db] waiting_def)
  have rows: "row_of j ?db' = (if j = r_id c then Some (?f c) else row_of j ?db)" for j
    using row_of_leased [OF db some, of j ?w 30] by simp
  note count = count_list_update [OF len, of "Counting (r_id c)"]
  have "accounted q ?db' ?ps (ct_counts st)"
  proof (rule accounted_step [OF contest_okD(6) [OF ok] len, where i = "r_id c"])
    have "job_accounted (status_of c) (count_list (ct_phases st) (Counting (r_id c)))
        (count_list (ct_phases st) (Completing (r_id c))) (map_of (ct_counts st) (r_id c))"
      by (rule contest_accounted [OF ok c(1,2)])
    then show "job_accounted (status_of r) (count_list ?ps (Counting (r_id c))) (count_list ?ps (Completing (r_id c)))
        (map_of (ct_counts st) (r_id c))" if "row_of (r_id c) ?db' = Some r" for r
      using that c(3) k count [of "Counting (r_id c)"] count [of "Completing (r_id c)"] rows
      by (auto simp: job_accounted_def is_leaseable_def)
  qed (use rows k in simp_all)
  moreover have "phase_ok q ?db' ?w (Counting (r_id c))"
    using c(2) rows [of "r_id c"] by (simp add: held_by_def) (simp add: lease_set_def)
  then have "list_all2 (phase_ok q ?db') (ct_workers st) ?ps"
  proof (rule phases_step [OF contest_okD(5) [OF ok] len])
    show "phase_ok q ?db' (ct_workers st ! l) (ct_phases st ! l)"
      if "phase_ok q ?db (ct_workers st ! l) (ct_phases st ! l)" for l
      by (rule phase_ok_other [OF _ that]) (use c rows in \<open>auto simp: is_leaseable_def dest: held_status\<close>)
  qed
  moreover have "ids_of q ?db' = ids_of q ?db"
    using some ids_of_update_job [of ?f q "r_id c" ?db] by (simp add: lease_next_eq [OF db] Let_def ids_of_def)
  moreover have "queue_open q ?db'" using contest_okD(3) [OF ok] some by (simp add: lease_next_eq [OF db] Let_def queue_open_def update_job_def)
  moreover have "store_ok ?db'" by (rule store_ok_exec [OF contest_okD(1) [OF ok]]) simp
  ultimately show "contest_ok q ids (contest_step q (k, env) st)"
    unfolding step using ok not_returned [OF len, of "Counting (r_id c)"] by (auto simp: contest_ok_def)
qed

lemma contest_count:
  assumes ok: "contest_ok q ids st" and len: "k < length (ct_phases st)" and k: "ct_phases st ! k = Counting i"
  shows "contest_ok q ids (contest_step q (k, env) st)"
proof -
  let ?db = "ct_db st" and ?ps = "(ct_phases st)[k := Completing i]" and ?w = "ct_workers st ! k" and ?cs = "bump i (ct_counts st)"
  have "phase_ok q ?db ?w (Counting i)"
    using contest_okD(5) [OF ok] len k by (metis list_all2_nthD2)
  then obtain r where r: "row_of i ?db = Some r" "r_queue r = q" "held_by i ?w r" by auto
  have acc: "job_accounted (status_of r) (count_list (ct_phases st) (Counting i)) (count_list (ct_phases st) (Completing i))
      (map_of (ct_counts st) i)" by (rule contest_accounted [OF ok r(1,2)])
  note count = count_list_update [OF len, of "Completing i"]
  have "accounted q ?db ?ps ?cs"
  proof (rule accounted_step [OF contest_okD(6) [OF ok] len, where i = i])
    show "job_accounted (status_of r') (count_list ?ps (Counting i)) (count_list ?ps (Completing i)) (map_of ?cs i)"
      if "row_of i ?db = Some r'" for r'
      using that acc r k count [of "Counting i"] count [of "Completing i"] held_status [OF r(3)]
      by (auto simp: job_accounted_def map_of_bump is_leaseable_def)
  qed (use k map_of_bump in auto)
  moreover have "list_all2 (phase_ok q ?db) (ct_workers st) ?ps"
    by (rule phases_step [OF contest_okD(5) [OF ok] len]) (use r in auto)
  moreover have "i \<in> set (ids_of q ?db)"
    using row_of_in [OF r(1)] r(2) by (auto simp: ids_of_def)
  ultimately show ?thesis
    using ok k not_returned [OF len, of "Completing i"] distinct_bump [of "ct_counts st" i] keys_bump [of i "ct_counts st"]
    by (auto simp: contest_ok_def contest_step_def)
qed

lemma contest_complete:
  assumes ok: "contest_ok q ids st" and len: "k < length (ct_phases st)" and k: "ct_phases st ! k = Completing i"
  shows "contest_step q (k, env) st =
      st\<lparr>ct_db := exec env (CompleteJob i (ct_workers st ! k) None) (ct_db st), ct_phases := (ct_phases st)[k := Seeking]\<rparr>"
    and "contest_ok q ids (contest_step q (k, env) st)"
    and "waiting [q] (ct_db (contest_step q (k, env) st)) = waiting [q] (ct_db st)"
    and "\<exists>r. row_of i (ct_db st) = Some r \<and> \<not> waiting [q] (ct_db st) r \<and>
      jobs (ct_db (contest_step q (k, env) st)) = jobs (update_job i (complete_set (pe_now env) None) (ct_db st))"
proof -
  let ?db = "ct_db st" and ?ps = "(ct_phases st)[k := Seeking]" and ?w = "ct_workers st ! k"
  let ?db' = "exec env (CompleteJob i ?w None) ?db" and ?f = "complete_set (pe_now env) None"
  note db = contest_okD(2) [OF ok]
  have "phase_ok q ?db ?w (Completing i)"
    using contest_okD(5) [OF ok] len k by (metis list_all2_nthD2)
  then obtain r where r: "row_of i ?db = Some r" "r_queue r = q" "held_by i ?w r" by auto
  note call = complete_job_eq [OF db, of env i ?w None, unfolded r(1) option.case if_P [OF r(3)]]
  show step: "contest_step q (k, env) st = st\<lparr>ct_db := ?db', ct_phases := ?ps\<rparr>"
    using k by (simp add: contest_step_def call completed_phase_def)
  have jobs: "jobs ?db' = jobs (update_job i ?f ?db)" and queues: "queues ?db' = queues ?db"
    by (simp_all add: call update_job_def)
  have rows: "row_of j ?db' = (if j = i then Some (?f r) else row_of j ?db)" for j
    unfolding jobs using r(1) by (simp add: row_of_update_job)
  have acc: "job_accounted (status_of r) (count_list (ct_phases st) (Counting i)) (count_list (ct_phases st) (Completing i))
      (map_of (ct_counts st) i)" by (rule contest_accounted [OF ok r(1,2)])
  note count = count_list_update [OF len, of Seeking]
  have "accounted q ?db' ?ps (ct_counts st)"
  proof (rule accounted_step [OF contest_okD(6) [OF ok] len, where i = i])
    show "job_accounted (status_of r') (count_list ?ps (Counting i)) (count_list ?ps (Completing i)) (map_of (ct_counts st) i)"
      if "row_of i ?db' = Some r'" for r'
      using that acc rows k count [of "Counting i"] count [of "Completing i"] held_status [OF r(3)]
      by (auto simp: job_accounted_def is_leaseable_def)
  qed (use rows k in simp_all)
  moreover have "list_all2 (phase_ok q ?db') (ct_workers st) ?ps"
  proof (rule phases_step [OF contest_okD(5) [OF ok] len])
    show "phase_ok q ?db' (ct_workers st ! l) (ct_phases st ! l)"
      if "l < length (ct_phases st)" "l \<noteq> k" and l: "phase_ok q ?db (ct_workers st ! l) (ct_phases st ! l)" for l
      by (rule phase_ok_other [OF _ l]) (use rows sole_holder [OF ok len that(1), of i] that(2) k in auto)
  qed simp
  moreover have "ids_of q ?db' = ids_of q ?db"
    using ids_of_jobs [OF jobs] ids_of_update_job [of ?f q i ?db] by simp
  moreover have "queue_open q ?db'" using contest_okD(3) [OF ok] queues by (simp add: queue_open_def)
  moreover have "store_ok ?db'" by (rule store_ok_exec [OF contest_okD(1) [OF ok]]) simp
  ultimately show "contest_ok q ids (contest_step q (k, env) st)"
    unfolding step using ok not_returned [OF len, of Seeking] by (auto simp: contest_ok_def)
  show "waiting [q] (ct_db (contest_step q (k, env) st)) = waiting [q] ?db"
    unfolding step using waiting_queues [OF queues] by (simp add: fun_eq_iff)
  show "\<exists>r. row_of i ?db = Some r \<and> \<not> waiting [q] ?db r \<and> jobs (ct_db (contest_step q (k, env) st)) = jobs (update_job i ?f ?db)"
    unfolding step using r(1) held_status [OF r(3)] jobs by (simp add: waiting_def is_leaseable_def)
qed

section \<open>The tasks finish\<close>

lemma phase_work_update:
  "k < length ps \<Longrightarrow> sum_list (map phase_work (ps[k := p])) + phase_work (ps ! k) = sum_list (map phase_work ps) + phase_work p"
proof (induction ps arbitrary: k)
  case (Cons x ps)
  then show ?case by (cases k) (use Cons.IH in \<open>fastforce+\<close>)
qed simp

abbreviation waiting_count :: "string \<Rightarrow> 'j db \<Rightarrow> nat" where
  "waiting_count q db \<equiv> sum_list (map (\<lambda>x. of_bool (waiting [q] db x)) (jobs db))"

lemma waiting_count_update:
  assumes "db_ok db" and "row_of i db = Some r" and "queues db' = queues db" and "jobs db' = jobs (update_job i f db)"
    and "\<not> waiting [q] db (f r)"
  shows "waiting_count q db' \<le> waiting_count q db" and "waiting [q] db r \<Longrightarrow> waiting_count q db' < waiting_count q db"
proof -
  let ?g = "\<lambda>x. of_bool (waiting [q] db (if r_id x = i then f x else x)) :: nat"
  have jobs: "waiting_count q db' = sum_list (map ?g (jobs db))"
    unfolding assms(4) by (simp add: update_job_def update_where_def comp_def waiting_queues [OF assms(3)])
  have le: "?g x \<le> of_bool (waiting [q] db x)" if "x \<in> set (jobs db)" for x
    using that row_of_in [OF assms(2)] db_ok_same_id [OF assms(1) that, of r] assms(5) by auto
  then show "waiting_count q db' \<le> waiting_count q db" unfolding jobs by (rule sum_list_mono)
  show "waiting_count q db' < waiting_count q db" if "waiting [q] db r"
    unfolding jobs by (rule sum_list_less [OF le, where y = r]) (use row_of_in [OF assms(2)] that assms(5) in auto)
qed

lemma contest_progress:
  assumes ok: "contest_ok q ids st" and allowed: "contest_allowed q (k, env) st"
  shows "contest_ok q ids (contest_step q (k, env) st) \<and> contest_work q (contest_step q (k, env) st) < contest_work q st"
proof (cases "ct_phases st ! k")
  case Seeking
  have len: "k < length (ct_phases st)" using allowed by (simp add: contest_allowed_def)
  show ?thesis
  proof (cases "lease_candidate env [q] (ct_db st)")
    case None
    show ?thesis
      using contest_lease_none [OF ok allowed Seeking None] phase_work_update [OF len, of TaskReturned] Seeking
      by (simp add: contest_work_def)
  next
    case (Some c)
    let ?w = "ct_workers st ! k"
    let ?db' = "exec env (LeaseNext ?w [q] 30) (ct_db st)" and ?f = "lease_set (pe_now env) ?w 30"
    note db = contest_okD(2) [OF ok]
    have c: "row_of (r_id c) (ct_db st) = Some c" "waiting [q] (ct_db st) c"
      using lease_candidate_SomeD(1,2) [OF Some] waiting_eligible [OF db] by (auto simp: db_ok_find [OF db])
    have "waiting_count q ?db' < waiting_count q (ct_db st)"
      by (rule waiting_count_update(2) [OF db c(1) _ _ _ c(2), where f = ?f])
        (use Some in \<open>simp_all add: lease_next_eq [OF db] Let_def update_job_def waiting_def is_leaseable_def\<close>)
    then show ?thesis
      using contest_lease_some [OF ok allowed Seeking Some] phase_work_update [OF len, of "Counting (r_id c)"] Seeking
      by (simp add: contest_work_def)
  qed
next
  case (Counting i)
  have len: "k < length (ct_phases st)" using allowed by (simp add: contest_allowed_def)
  show ?thesis
    using contest_count [OF ok len Counting] Counting phase_work_update [OF len, of "Completing i"]
    by (simp add: contest_work_def contest_step_def)
next
  case (Completing i)
  have len: "k < length (ct_phases st)" using allowed by (simp add: contest_allowed_def)
  let ?st' = "contest_step q (k, env) st"
  obtain r where r: "row_of i (ct_db st) = Some r" "\<not> waiting [q] (ct_db st) r"
    "jobs (ct_db ?st') = jobs (update_job i (complete_set (pe_now env) None) (ct_db st))"
    using contest_complete(4) [OF ok len Completing] by blast
  have "queues (ct_db ?st') = queues (ct_db st)"
    unfolding contest_complete(1) [OF ok len Completing] by (simp add: complete_job_eq [OF contest_okD(2) [OF ok]] update_job_def split: option.splits)
  then have "waiting_count q (ct_db ?st') \<le> waiting_count q (ct_db st)"
    by (rule waiting_count_update(1) [OF contest_okD(2) [OF ok] r(1) _ r(3)]) (simp add: waiting_def is_leaseable_def)
  then have "contest_work q ?st' < contest_work q st"
    using phase_work_update [OF len, of Seeking] Completing
    unfolding contest_work_def contest_complete(1) [OF ok len Completing] by simp
  then show ?thesis using contest_complete(2) [OF ok len Completing] by simp
qed (use allowed in \<open>simp_all add: contest_allowed_def\<close>)

interpretation ct: finite_work "contest_ok q ids" "contest_allowed q" "contest_step q" "contest_work q"
proof unfold_locales
  fix st :: "'a contest" and ev :: "nat \<times> pg_env"
  assume ok: "contest_ok q ids st"
  obtain k env where ev: "ev = (k, env)" by fastforce
  assume allowed: "contest_allowed q ev st"
  show "contest_ok q ids (contest_step q ev st)" "0 < contest_work q st"
    using contest_progress [OF ok allowed [unfolded ev]] ev by simp_all
  show "contest_work q (contest_step q ev st) < contest_work q st"
    using contest_progress [OF ok allowed [unfolded ev]] ev by simp
  show "contest_work q (contest_step q ev st) = 0" if "contest_work q st = 0"
    using contest_progress [OF ok allowed [unfolded ev]] that by simp
qed

text \<open>When no task can go on, every job was counted once and is completed.\<close>

lemma some_later_time:
  obtains t :: int where "\<And>x. x \<in> set xs \<Longrightarrow> f x \<le> t"
proof (rule that [of "Max (insert 0 (f ` set xs))"])
qed simp

lemma contest_stuck:
  assumes ok: "contest_ok q ids st" and stuck: "\<And>ev. \<not> contest_allowed q ev st"
  shows "list_all (\<lambda>p. p = TaskReturned) (ct_phases st)"
proof (rule ccontr)
  assume "\<not> ?thesis"
  then obtain k where k: "k < length (ct_phases st)" "ct_phases st ! k \<noteq> TaskReturned" by (auto simp: list_all_length)
  have "phase_ok q (ct_db st) (ct_workers st ! k) (ct_phases st ! k)"
    using contest_okD(5) [OF ok] k(1) by (metis list_all2_nthD2)
  then have running: "ct_phases st ! k \<noteq> TaskPanicked" by auto
  obtain t where t: "\<And>x. x \<in> set (jobs (ct_db st)) \<Longrightarrow> r_run_at x \<le> t"
    using some_later_time [of "jobs (ct_db st)" r_run_at] by blast
  have "contest_allowed q (k, (sample_env t 0)\<lparr>pe_locked := []\<rparr>) st"
    using k running t by (auto simp: contest_allowed_def list_all_iff sample_env_def)
  with stuck show False by blast
qed

lemma contest_final:
  assumes ok: "contest_ok q ids st" and fin: "list_all (\<lambda>p. p = TaskReturned) (ct_phases st)"
  shows "\<And>r. r \<in> set (jobs (ct_db st)) \<Longrightarrow> r_queue r = q \<Longrightarrow> has_status r Completed \<and> map_of (ct_counts st) (r_id r) = Some 1"
    and "length (ct_counts st) = length ids" and "list_all (\<lambda>(i, c). c = 1) (ct_counts st)"
proof -
  let ?db = "ct_db st"
  note db = contest_okD(2) [OF ok]
  have idle: "\<not> waiting [q] ?db x" if "x \<in> set (jobs ?db)" for x
    using ok fin that by (auto simp: contest_ok_def list_all_iff)
  have none: "count_list (ct_phases st) x = 0" if "x \<noteq> TaskReturned" for x
    using fin that by (auto simp: list_all_iff count_list_0_iff)
  show row: "has_status r Completed \<and> map_of (ct_counts st) (r_id r) = Some 1"
    if r: "r \<in> set (jobs ?db)" and q: "r_queue r = q" for r
  proof -
    have "job_accounted (status_of r) 0 0 (map_of (ct_counts st) (r_id r))"
      using contest_accounted [OF ok _ q, of "r_id r"] r none by (simp add: db_ok_find [OF db])
    moreover have "\<not> is_leaseable (status_of r)" using idle [OF r] contest_okD(3) [OF ok] q by (simp add: waiting_single)
    ultimately have "status_of r = Completed \<and> map_of (ct_counts st) (r_id r) = Some 1" by (auto simp: job_accounted_def)
    then show ?thesis using has_status_iff [OF db_ok_row [OF db r], of Completed] by simp
  qed
  have "set ids \<subseteq> set (map fst (ct_counts st))"
  proof
    fix i
    assume "i \<in> set ids"
    then obtain r where "r \<in> set (jobs ?db)" "r_queue r = q" "r_id r = i"
      unfolding contest_okD(4) [OF ok, symmetric] ids_of_def by auto
    then show "i \<in> set (map fst (ct_counts st))" using row [of r] by (auto dest: map_of_SomeD intro: rev_image_eqI)
  qed
  then have keys: "set (map fst (ct_counts st)) = set ids" using contest_okD(8) [OF ok] by blast
  have "distinct ids"
    using distinct_map_filter [OF db_ok_distinct [OF db]] unfolding contest_okD(4) [OF ok, symmetric] ids_of_def .
  then show "length (ct_counts st) = length ids"
    using distinct_card [OF contest_okD(7) [OF ok]] distinct_card [of ids] keys by simp
  have "c = 1" if "(i, c) \<in> set (ct_counts st)" for i c
  proof -
    have "i \<in> set ids" using keys that by force
    then obtain r where "r \<in> set (jobs ?db)" "r_queue r = q" "r_id r = i"
      unfolding contest_okD(4) [OF ok, symmetric] ids_of_def by auto
    then show ?thesis using row [of r] map_of_is_SomeI [OF contest_okD(7) [OF ok] that] by simp
  qed
  then show "list_all (\<lambda>(i, c). c = 1) (ct_counts st)" by (auto simp: list_all_iff)
qed

end
