(* ===== verification/Concurrency_Tests.thy ===== *)
theory Concurrency_Tests
  imports Integration_Tests Contention
begin

text \<open>
  The two integration tests that start several tasks: many workers on one queue (\<^verbatim>\<open>tests/concurrency.rs\<close>), with its assertions proved
  for every number of jobs and workers and every interleaving, and the worker runtime from its start to its shutdown
  (\<^verbatim>\<open>runtime_processes_jobs_and_shuts_down\<close> of \<^verbatim>\<open>tests/workers.rs\<close>), run on one schedule of its tasks.
\<close>

section \<open>\<open>concurrency.rs\<close>\<close>

text \<open>
  The jobs are submitted one after the other, each with its environment; then the tasks take their steps in the order of \<open>events\<close>, and
  the assertions are about what is left when all of them have returned.
\<close>

fun submit_all ::
  "chrono_add \<Rightarrow> string \<Rightarrow> nat \<Rightarrow> pg_env list \<Rightarrow> json db queue_service \<Rightarrow> (uuid list, queue_error) outcome \<times> json db queue_service" where
  "submit_all add_secs q i [] sv = (Ok [], sv)"
| "submit_all add_secs q i (e # es) sv =
    then_call (svc_submit pg_store add_secs e (pe_now e) (test_job q ''echo'' (JObject [(''i'', JNumber (of_nat i))])) sv) (\<lambda>sub sv.
      then_call (submit_all add_secs q (i + 1) es sv) (\<lambda>ids sv. (Ok (j_id (sub_job sub) # ids), sv)))"

definition contest_asserts :: "string \<Rightarrow> nat \<Rightarrow> pg_env \<Rightarrow> 'j db queue_service \<Rightarrow> 'j contest \<Rightarrow> bool" where
  "contest_asserts q n env sv st \<longleftrightarrow>
    list_all (\<lambda>p. p = TaskReturned) (ct_phases st) \<and>
    length (ct_counts st) = n \<and> list_all (\<lambda>(i, c). c = 1) (ct_counts st) \<and>
    unwrap_call (svc_queue_stats pg_store env q (sv\<lparr>sv_store := ct_db st\<rparr>)) (\<lambda>stats sv. st_completed stats = int n)"

fun after_submissions ::
  "string \<Rightarrow> nat \<Rightarrow> uuid list \<Rightarrow> (nat \<times> pg_env) list \<Rightarrow> pg_env \<Rightarrow>
   (uuid list, queue_error) outcome \<times> json db queue_service \<Rightarrow> bool" where
  "after_submissions q n ws events env (Ok ids, sv) \<longleftrightarrow>
    contest_asserts q n env sv (fold (contest_step q) events (contest_start ws (sv_store sv)))"
| "after_submissions q n ws events env (_, sv) \<longleftrightarrow> False"

definition concurrent_workers_do_not_double_process ::
  "chrono_add \<Rightarrow> string \<Rightarrow> pg_env list \<Rightarrow> uuid list \<Rightarrow> (nat \<times> pg_env) list \<Rightarrow> pg_env \<Rightarrow> json db queue_service \<Rightarrow> bool" where
  "concurrent_workers_do_not_double_process add_secs q submissions ws events env sv \<longleftrightarrow>
    after_submissions q (length submissions) ws events env (submit_all add_secs q 0 submissions sv)"

definition test_queue_ready :: "string \<Rightarrow> 'j db \<Rightarrow> bool" where
  "test_queue_ready q db \<longleftrightarrow>
    store_ok db \<and> list_all (\<lambda>x. q_name x = q \<longrightarrow> \<not> q_paused x) (queues db) \<and>
    list_all (\<lambda>r. r_queue r = q \<longrightarrow> status_of r = Queued) (jobs db)"

lemma test_submit_row:
  assumes ready: "test_queue_ready q (sv_store sv)" and name: "trim q \<noteq> []" "str_len q \<le> 128"
    and fresh: "row_of (pe_uuid e) (sv_store sv) = None"
  obtains sub sv' where "svc_submit pg_store add_secs e (pe_now e) (test_job q ''echo'' p) sv = (Ok sub, sv')"
    "j_id (sub_job sub) = pe_uuid e" "test_queue_ready q (sv_store sv')" "queue_open q (sv_store sv')"
    "map r_id (jobs (sv_store sv')) = map r_id (jobs (sv_store sv)) @ [pe_uuid e]"
    "ids_of q (sv_store sv') = ids_of q (sv_store sv) @ [pe_uuid e]"
proof -
  let ?db = "sv_store sv" and ?now = "pe_now e"
  have db: "store_ok ?db" "db_ok ?db" using ready by (simp_all add: test_queue_ready_def)
  have "trim ''echo'' \<noteq> []" by code_simp
  with name obtain z where z: "normalized add_secs (test_job q ''echo'' p) ?now = Ok z" "z_queue z = q" "z_idempotency_key z = None"
    "z_status z = Queued" "normalized_ok z"
    by (simp add: normalized_def test_job_def resolve_run_at_def Let_def normalized_ok_def is_i32_def)
  let ?r = "new_row ?now (pe_uuid e) z"
  let ?db' = "add_job ?r (insert_queue ?now q ?db)"
  have call: "submit e z ?db = (Ok \<lparr>sub_job = job_of ?r, sub_created = True\<rparr>, ?db')"
    using fresh z by (simp add: submit_eq [OF db(2) z(5)] Let_def job_by_key_def)
  have "svc_submit pg_store add_secs e ?now (test_job q ''echo'' p) sv =
      (Ok \<lparr>sub_job = job_of ?r, sub_created = True\<rparr>, emit (JobsSubmitted q) (sv\<lparr>sv_store := ?db'\<rparr>))"
    using z(1,2) call by (simp add: svc_submit_def call_store_def pg_store_def)
  moreover have "sv_store (emit (JobsSubmitted q) (sv\<lparr>sv_store := ?db'\<rparr>)) = ?db'" by (simp add: emit_def)
  moreover have "j_id (job_of ?r) = pe_uuid e" by (simp add: job_of_fields(1) [OF new_row_status(1)] new_row_status)
  moreover have rows: "jobs ?db' = jobs ?db @ [?r]" by (simp add: add_job_def)
  moreover have "store_ok ?db'" using store_ok_exec [OF db(1), of "Submit z" e] z(5) call by simp
  moreover have "r_id ?r = pe_uuid e" "r_queue ?r = q" "status_of ?r = Queued"
    using z(2,4) new_row_status(1) [of ?now "pe_uuid e" z] by (simp_all add: new_row_def status_of_known)
  moreover have "queue_open q ?db'" "list_all (\<lambda>x. q_name x = q \<longrightarrow> \<not> q_paused x) (queues ?db')"
    using ready by (auto simp: test_queue_ready_def queue_open_def add_job_def insert_queue_def list_all_iff list_ex_iff)
  ultimately show thesis
    using ready that [of "\<lparr>sub_job = job_of ?r, sub_created = True\<rparr>" "emit (JobsSubmitted q) (sv\<lparr>sv_store := ?db'\<rparr>)"]
    by (simp add: test_queue_ready_def ids_of_def)
qed

lemma submit_all_ready:
  assumes "test_queue_ready q (sv_store sv)" and "trim q \<noteq> []" "str_len q \<le> 128"
    and "distinct (map r_id (jobs (sv_store sv)) @ map pe_uuid es)"
  shows "\<exists>sv'. submit_all add_secs q i es sv = (Ok (map pe_uuid es), sv') \<and> test_queue_ready q (sv_store sv') \<and>
    (es \<noteq> [] \<longrightarrow> queue_open q (sv_store sv')) \<and> ids_of q (sv_store sv') = ids_of q (sv_store sv) @ map pe_uuid es"
  using assms(1,4)
proof (induction es arbitrary: i sv)
  case (Cons e es)
  let ?job = "test_job q ''echo'' (JObject [(''i'', JNumber (of_nat i))])"
  have "row_of (pe_uuid e) (sv_store sv) = None" using Cons.prems(2) by (auto simp: find_by_None_iff)
  then obtain sub sv1 where one: "svc_submit pg_store add_secs e (pe_now e) ?job sv = (Ok sub, sv1)"
    "j_id (sub_job sub) = pe_uuid e" "test_queue_ready q (sv_store sv1)" "queue_open q (sv_store sv1)"
    "map r_id (jobs (sv_store sv1)) = map r_id (jobs (sv_store sv)) @ [pe_uuid e]"
    "ids_of q (sv_store sv1) = ids_of q (sv_store sv) @ [pe_uuid e]"
    using test_submit_row [OF Cons.prems(1) assms(2,3)] by metis
  have "distinct (map r_id (jobs (sv_store sv1)) @ map pe_uuid es)" using Cons.prems(2) unfolding one(5) by auto
  from Cons.IH [OF one(3) this, of "i + 1"] obtain sv2 where
    "submit_all add_secs q (i + 1) es sv1 = (Ok (map pe_uuid es), sv2)" "test_queue_ready q (sv_store sv2)"
    "es \<noteq> [] \<longrightarrow> queue_open q (sv_store sv2)" "ids_of q (sv_store sv2) = ids_of q (sv_store sv1) @ map pe_uuid es"
    by blast
  then show ?case using one by (cases es) simp_all
qed simp

lemma sum_list_of_bool: "sum_list (map (\<lambda>x. of_bool (P x)) xs) = length (filter P xs)"
  by (induction xs) simp_all

lemma contest_start_ok:
  assumes "test_queue_ready q db" and "queue_open q db" and "ws \<noteq> []"
  shows "contest_ok q (ids_of q db) (contest_start ws db)"
    and "contest_work q (contest_start ws db) = 3 * length (ids_of q db) + length ws"
proof -
  let ?ps = "map (\<lambda>_. Seeking) ws"
  have db: "store_ok db" "db_ok db" using assms(1) by (simp_all add: test_queue_ready_def)
  have queued: "status_of r = Queued" if "r \<in> set (jobs db)" "r_queue r = q" for r
    using assms(1) that by (auto simp: test_queue_ready_def list_all_iff)
  have "count_list ?ps (Counting i) = 0" "count_list ?ps (Completing i) = 0" for i
    by (auto simp: count_list_0_iff)
  then have "accounted q db ?ps []"
    unfolding accounted_def using queued by (auto simp: job_accounted_def is_leaseable_def dest!: row_of_in)
  moreover have "list_all2 (phase_ok q db) ws ?ps" by (simp add: list_all2_conv_all_nth)
  moreover have "\<exists>p \<in> set ?ps. p \<noteq> TaskReturned" using assms(3) by (cases ws) simp_all
  ultimately show "contest_ok q (ids_of q db) (contest_start ws db)"
    using db assms(2) by (simp add: contest_ok_def contest_start_def)
  have "waiting [q] db r \<longleftrightarrow> r_queue r = q" if "r \<in> set (jobs db)" for r
    using queued [OF that] assms(2) by (auto simp: waiting_single is_leaseable_def)
  then have "filter (waiting [q] db) (jobs db) = filter (\<lambda>r. r_queue r = q) (jobs db)" by (rule filter_cong [OF refl])
  then show "contest_work q (contest_start ws db) = 3 * length (ids_of q db) + length ws"
    by (simp add: contest_work_def contest_start_def sum_list_of_bool ids_of_def comp_def sum_list_triv)
qed

text \<open>
  C18. No job is leased twice and none is lost.  Let any number of jobs be submitted to a new queue of any reachable database and any
  number of workers lease and complete them, their steps interleaved in any order, where a lease passes over a waiting job only while
  another task is inside its own lease.  Then no run has more than three steps for each job and one for each worker, and a run either can go
  on or all tasks have returned and the assertions of the test hold: every job was leased exactly once and is completed.
\<close>

theorem concurrent_workers_lease_once:
  assumes "calls_ok calls" and "ids_of q (run calls empty_db) = []"
    and "list_all (\<lambda>x. q_name x = q \<longrightarrow> \<not> q_paused x) (queues (run calls empty_db))"
    and "trim q \<noteq> []" and "str_len q \<le> 128"
    and "distinct (map r_id (jobs (run calls empty_db)) @ map pe_uuid es)" and "es \<noteq> []" and "ws \<noteq> []"
    and "along (contest_allowed q) (contest_step q) events
      (contest_start ws (sv_store (snd (submit_all add_secs q 0 es (reached calls ms)))))"
  shows "length events \<le> 3 * length es + length ws \<and>
    (concurrent_workers_do_not_double_process add_secs q es ws events env (reached calls ms) \<or>
     (\<exists>ev. contest_allowed q ev (fold (contest_step q) events
        (contest_start ws (sv_store (snd (submit_all add_secs q 0 es (reached calls ms))))))))"
proof -
  have "test_queue_ready q (sv_store (reached calls ms))"
    using assms(1-3) store_ok_reached [OF assms(1)]
    by (auto simp: test_queue_ready_def ids_of_def list_all_iff filter_empty_conv)
  then obtain sv' where sub: "submit_all add_secs q 0 es (reached calls ms) = (Ok (map pe_uuid es), sv')"
    "test_queue_ready q (sv_store sv')" "queue_open q (sv_store sv')" "ids_of q (sv_store sv') = map pe_uuid es"
    using submit_all_ready [of q "reached calls ms" es add_secs 0] assms(2,4-7) by auto
  let ?start = "contest_start ws (sv_store sv')"
  let ?st = "fold (contest_step q) events ?start"
  note start = contest_start_ok [OF sub(2,3) assms(8), unfolded sub(4)]
  have run: "along (contest_allowed q) (contest_step q) events ?start" using assms(9) sub(1) by simp
  have ok: "contest_ok q (map pe_uuid es) ?st" by (rule ct.steps_inv [OF start(1) run])
  have "length events \<le> 3 * length es + length ws" using ct.runs_are_short [OF start(1) run] start(2) by simp
  moreover have "concurrent_workers_do_not_double_process add_secs q es ws events env (reached calls ms)"
    if stuck: "\<And>ev. \<not> contest_allowed q ev ?st"
  proof -
    have fin: "list_all (\<lambda>p. p = TaskReturned) (ct_phases ?st)" by (rule contest_stuck [OF ok stuck])
    obtain x where "queue_of q (ct_db ?st) = Some x"
      using contest_okD(2,3) [OF ok] by (auto simp: queue_open_iff split: option.splits)
    then obtain stats where stats: "queue_stats_of q (ct_db ?st) = Ok stats" "stat_field Completed stats = count_jobs q Completed (ct_db ?st)"
      using queue_stats_of_eq by metis
    have "filter (\<lambda>r. r_queue r = q \<and> has_status r Completed) (jobs (ct_db ?st)) = filter (\<lambda>r. r_queue r = q) (jobs (ct_db ?st))"
      by (rule filter_cong [OF refl]) (use contest_final(1) [OF ok fin] in blast)
    then have "count_jobs q Completed (ct_db ?st) = int (length es)"
      using arg_cong [OF contest_okD(4) [OF ok], of length] by (simp add: count_jobs_def ids_of_def)
    with stats have "st_completed stats = int (length es)" by simp
    then show ?thesis
      using sub(1) fin contest_final(2,3) [OF ok fin] stats(1)
      by (simp add: concurrent_workers_do_not_double_process_def contest_asserts_def svc_queue_stats_def call_store_def pg_store_def)
  qed
  ultimately show ?thesis using sub(1) by auto
qed

text \<open>Two workers and three jobs.\<close>

definition contest_events :: "(nat \<times> pg_env) list" where
  "contest_events = map (\<lambda>(k, t). (k, tick t))
    [(0, 10), (1, 11), (1, 12), (0, 13), (1, 14), (0, 15), (1, 16), (0, 17), (1, 18), (1, 19), (1, 20)]"

theorem concurrent_workers_lease_once_witness:
  "length contest_events \<le> 3 * length (map tick [0, 1, 2]) + length [7 :: uuid, 8] \<and>
   (concurrent_workers_do_not_double_process sample_add ''test_1'' (map tick [0, 1, 2]) [7, 8] contest_events (tick 30) (reached [] []) \<or>
    (\<exists>ev. contest_allowed ''test_1'' ev (fold (contest_step ''test_1'') contest_events
      (contest_start [7, 8] (sv_store (snd (submit_all sample_add ''test_1'' 0 (map tick [0, 1, 2]) (reached [] []))))))))"
proof (rule concurrent_workers_lease_once)
  show "ids_of ''test_1'' (run [] (empty_db :: json db)) = []" by code_simp
  show "list_all (\<lambda>x. q_name x = ''test_1'' \<longrightarrow> \<not> q_paused x) (queues (run [] (empty_db :: json db)))" by code_simp
  show "trim ''test_1'' \<noteq> []" "str_len ''test_1'' \<le> 128" by code_simp+
  show "distinct (map r_id (jobs (run [] (empty_db :: json db))) @ map pe_uuid (map tick [0, 1, 2]))" by code_simp
  show "along (contest_allowed ''test_1'') (contest_step ''test_1'') contest_events
      (contest_start [7, 8] (sv_store (snd (submit_all sample_add ''test_1'' 0 (map tick [0, 1, 2]) (reached [] [])))))"
    by code_simp
qed simp_all

section \<open>The runtime test of \<open>workers.rs\<close>\<close>

text \<open>
  The runtime on a queue of jobs: what it does until the poll of the test sees them completed, the cancellation of the token, and what it
  does until it returns.
\<close>

definition itest_config :: "string \<Rightarrow> worker_config" where
  "itest_config q =
    \<lparr>wc_id = 7, wc_hostname = ''itest'', wc_queues = [q], wc_concurrency = 4, wc_lease_secs = 30, wc_poll_interval = from_millis 50,
     wc_heartbeat_interval = from_secs 5, wc_shutdown_grace = from_secs 10\<rparr>"

abbreviation itest_run :: "string \<Rightarrow> json system_event list \<Rightarrow> json system \<Rightarrow> json system option" where
  "itest_run q \<equiv> system_run (with_examples sample_json registry_new) (itest_config q) (pe_now (tick 30))"

fun runtime_stopped :: "json system option \<Rightarrow> bool" where
  "runtime_stopped (Some (ws, sv)) \<longleftrightarrow>
    ws_phase ws = Stopped \<and>
    unwrap_call (call_store (so_list_active_workers pg_store (tick 90) 60) sv) (\<lambda>active sv.
      list_all (\<lambda>w. w_hostname w \<noteq> ''itest'') active)"
| "runtime_stopped None \<longleftrightarrow> False"

fun runtime_worked :: "string \<Rightarrow> nat \<Rightarrow> json system_event list \<Rightarrow> json system option \<Rightarrow> bool" where
  "runtime_worked q n leave (Some (ws, sv)) \<longleftrightarrow>
    unwrap_call (svc_queue_stats pg_store (tick 80) q sv) (\<lambda>stats sv. st_completed stats = int n) \<and>
    runtime_stopped (itest_run q (Own TokenCancelled # leave) (ws, sv))"
| "runtime_worked q n leave None \<longleftrightarrow> False"

fun runtime_started ::
  "string \<Rightarrow> nat \<Rightarrow> json system_event list \<Rightarrow> json system_event list \<Rightarrow>
   (json worker_state, queue_error) outcome \<times> json db queue_service \<Rightarrow> bool" where
  "runtime_started q n work leave (Ok ws, sv) \<longleftrightarrow> runtime_worked q n leave (itest_run q work (ws, sv))"
| "runtime_started q n work leave (_, sv) \<longleftrightarrow> False"

fun runtime_after_submissions ::
  "string \<Rightarrow> nat \<Rightarrow> json system_event list \<Rightarrow> json system_event list \<Rightarrow>
   (uuid list, queue_error) outcome \<times> json db queue_service \<Rightarrow> bool" where
  "runtime_after_submissions q n work leave (Ok ids, sv) \<longleftrightarrow>
    runtime_started q n work leave (worker_start pg_store 100 (itest_config q) (tick 30) (pe_now (tick 30)) sv)"
| "runtime_after_submissions q n work leave (_, sv) \<longleftrightarrow> False"

definition runtime_processes_jobs_and_shuts_down ::
  "string \<Rightarrow> pg_env list \<Rightarrow> json system_event list \<Rightarrow> json system_event list \<Rightarrow> json db queue_service \<Rightarrow> bool" where
  "runtime_processes_jobs_and_shuts_down q submissions work leave sv \<longleftrightarrow>
    runtime_after_submissions q (length submissions) work leave (submit_all sample_add q 0 submissions sv)"

text \<open>Four tasks at a time, from their leases to their reports.\<close>

definition wave :: "nat \<Rightarrow> json system_event list" where
  "wave k = concat (map (\<lambda>j. [Own Permit, Own (Leased (tick 40))]) [0..<4]) @ [Own (Beat (tick 41))] @
    map (\<lambda>j. Own (Renewed (k + j) (tick 42))) [0..<4] @
    map (\<lambda>j. Own (Handled (k + j) 5 0)) [3, 1, 0, 2] @
    map (\<lambda>j. Own (Reported (k + j) (tick 43))) [1, 3, 2, 0]"

definition leave_runtime :: "nat \<Rightarrow> json system_event list" where
  "leave_runtime k = [Own Break] @ map (\<lambda>j. Own (JoinNext (k + j))) [0..<4] @ [Own Drained, Own (Deregistered (tick 85))]"

section \<open>They pass\<close>

lemma runtime_test:
  "runtime_processes_jobs_and_shuts_down ''test_1'' (map tick [0, 1, 2, 3, 4, 5, 6, 7]) (wave 0 @ wave 4) (leave_runtime 4) fresh_service"
  by code_simp

lemma contention_test:
  "concurrent_workers_do_not_double_process sample_add ''test_1'' (map tick [0, 1, 2]) [7, 8] contest_events (tick 30) fresh_service"
  by code_simp

text \<open>The runtime test with eight jobs in place of twenty, and the contention test with three jobs and two workers, on a fresh database.\<close>

theorem concurrency_tests_pass:
  "runtime_processes_jobs_and_shuts_down ''test_1'' (map tick [0, 1, 2, 3, 4, 5, 6, 7]) (wave 0 @ wave 4) (leave_runtime 4) fresh_service \<and>
   concurrent_workers_do_not_double_process sample_add ''test_1'' (map tick [0, 1, 2]) [7, 8] contest_events (tick 30) fresh_service"
  using runtime_test contention_test by blast

end
