(* ===== verification/Store_Faults.thy ===== *)
theory Store_Faults
  imports Pg_Concurrent Store_Api
begin

text \<open>
  Lost connections.  Every statement of \<open>PgStore\<close> can fail, and every failure becomes \<open>QueueError::Storage\<close> (\<open>storage_err\<close> in
  \<^verbatim>\<open>crates/storage/src/lib.rs\<close>) and ends the method.  The statements before the failure stay committed, unless the method is a
  transaction, which then is rolled back; and a commit whose acknowledgement is lost has happened although the caller gets an error.
\<close>

section \<open>Interrupted methods\<close>

text \<open>The connection is lost after so many statements, with the text of the error.  A transaction counts as one statement.\<close>

type_synonym fault = "(nat \<times> string) option"
type_synonym faulty_env = "pg_env \<times> fault"

text \<open>A method that is one statement or one transaction, or whose first statement is the only one that writes.\<close>

fun interrupted ::
  "(pg_env \<Rightarrow> 's \<Rightarrow> ('a, queue_error) outcome \<times> 's) \<Rightarrow> faulty_env \<Rightarrow> 's \<Rightarrow> ('a, queue_error) outcome \<times> 's" where
  "interrupted f (env, None) s = f env s"
| "interrupted f (env, Some (n, msg)) s = (Err (Storage msg), if n = 0 then s else snd (f env s))"

text \<open>A method of several statements that are committed one by one.\<close>

definition after_statements :: "nat \<Rightarrow> pg_env \<Rightarrow> 'j store_method \<Rightarrow> 'j db \<Rightarrow> 'j db" where
  "after_statements n env m db = snd (shared_run (Begin m # replicate n (Statement 0 env)) ([], db))"

fun interrupted_method ::
  "(pg_env \<Rightarrow> 'j db \<Rightarrow> ('a, queue_error) outcome \<times> 'j db) \<Rightarrow> 'j store_method \<Rightarrow> faulty_env \<Rightarrow> 'j db \<Rightarrow>
   ('a, queue_error) outcome \<times> 'j db" where
  "interrupted_method f m (env, None) db = f env db"
| "interrupted_method f m (env, Some (n, msg)) db = (Err (Storage msg), after_statements n env m db)"

definition faulty_store :: "('j db, faulty_env, 'j) store_ops" where
  "faulty_store =
    \<lparr>so_ensure_queue = (\<lambda>e name. interrupted (\<lambda>env. so_ensure_queue pg_store env name) e),
     so_get_queue = (\<lambda>e name. interrupted (\<lambda>env. so_get_queue pg_store env name) e),
     so_list_queues = (\<lambda>e. interrupted (\<lambda>env. so_list_queues pg_store env) e),
     so_set_queue_paused = (\<lambda>e name p. interrupted (\<lambda>env. so_set_queue_paused pg_store env name p) e),
     so_queue_stats = (\<lambda>e name. interrupted (\<lambda>env. so_queue_stats pg_store env name) e),
     so_submit = (\<lambda>e z. interrupted_method (\<lambda>env. so_submit pg_store env z) (SubmitMethod z) e),
     so_get_job = (\<lambda>e i. interrupted (\<lambda>env. so_get_job pg_store env i) e),
     so_list_jobs = (\<lambda>e q s t limit offset. interrupted (\<lambda>env. so_list_jobs pg_store env q s t limit offset) e),
     so_list_attempts = (\<lambda>e i. interrupted (\<lambda>env. so_list_attempts pg_store env i) e),
     so_list_dead_letter = (\<lambda>e q limit. interrupted (\<lambda>env. so_list_dead_letter pg_store env q limit) e),
     so_cancel_job = (\<lambda>e i. interrupted_method (\<lambda>env. so_cancel_job pg_store env i) (CancelMethod i) e),
     so_retry_job = (\<lambda>e i. interrupted_method (\<lambda>env. so_retry_job pg_store env i) (RetryMethod i) e),
     so_purge_finished = (\<lambda>e t. interrupted (\<lambda>env. so_purge_finished pg_store env t) e),
     so_lease_next = (\<lambda>e w qs secs. interrupted (\<lambda>env. so_lease_next pg_store env w qs secs) e),
     so_complete_job = (\<lambda>e i w res. interrupted (\<lambda>env. so_complete_job pg_store env i w res) e),
     so_fail_job = (\<lambda>e i w err t. interrupted (\<lambda>env. so_fail_job pg_store env i w err t) e),
     so_renew_lease = (\<lambda>e i w secs. interrupted (\<lambda>env. so_renew_lease pg_store env i w secs) e),
     so_recover_expired_leases =
       (\<lambda>e limit. interrupted_method (\<lambda>env. so_recover_expired_leases pg_store env limit) (RecoverMethod limit) e),
     so_register_worker = (\<lambda>e wk. interrupted (\<lambda>env. so_register_worker pg_store env wk) e),
     so_heartbeat = (\<lambda>e w. interrupted (\<lambda>env. so_heartbeat pg_store env w) e),
     so_deregister_worker = (\<lambda>e w. interrupted (\<lambda>env. so_deregister_worker pg_store env w) e),
     so_list_active_workers = (\<lambda>e secs. interrupted (\<lambda>env. so_list_active_workers pg_store env secs) e),
     so_prune_dead_workers = (\<lambda>e secs. interrupted (\<lambda>env. so_prune_dead_workers pg_store env secs) e)\<rparr>"

text \<open>The database after a call, and after a sequence of calls, any of which may be interrupted.\<close>

fun faulty_exec :: "faulty_env \<Rightarrow> 'j store_op \<Rightarrow> 'j db \<Rightarrow> 'j db" where
  "faulty_exec e (EnsureQueue n) db = snd (so_ensure_queue faulty_store e n db)"
| "faulty_exec e (SetQueuePaused n p) db = snd (so_set_queue_paused faulty_store e n p db)"
| "faulty_exec e (Submit z) db = snd (so_submit faulty_store e z db)"
| "faulty_exec e (CancelJob i) db = snd (so_cancel_job faulty_store e i db)"
| "faulty_exec e (RetryJob i) db = snd (so_retry_job faulty_store e i db)"
| "faulty_exec e (PurgeFinished t) db = snd (so_purge_finished faulty_store e t db)"
| "faulty_exec e (LeaseNext w qs secs) db = snd (so_lease_next faulty_store e w qs secs db)"
| "faulty_exec e (CompleteJob i w res) db = snd (so_complete_job faulty_store e i w res db)"
| "faulty_exec e (FailJob i w err timed_out) db = snd (so_fail_job faulty_store e i w err timed_out db)"
| "faulty_exec e (RenewLease i w secs) db = snd (so_renew_lease faulty_store e i w secs db)"
| "faulty_exec e (RecoverExpired limit) db = snd (so_recover_expired_leases faulty_store e limit db)"
| "faulty_exec e (RegisterWorker wk) db = snd (so_register_worker faulty_store e wk db)"
| "faulty_exec e (Heartbeat w) db = snd (so_heartbeat faulty_store e w db)"
| "faulty_exec e (DeregisterWorker w) db = snd (so_deregister_worker faulty_store e w db)"
| "faulty_exec e (PruneWorkers secs) db = snd (so_prune_dead_workers faulty_store e secs db)"

type_synonym 'j faulty_call = "faulty_env \<times> 'j store_op"

fun faulty_run :: "'j faulty_call list \<Rightarrow> 'j db \<Rightarrow> 'j db" where
  "faulty_run [] db = db"
| "faulty_run ((e, op) # calls) db = faulty_run calls (faulty_exec e op db)"

text \<open>
  A fault inside a manual retry, between the update of the job and the deletion of its dead-letter entry, or inside a sweep of the reaper,
  between its four statements.
\<close>

fun torn :: "'j faulty_call \<Rightarrow> bool" where
  "torn ((env, Some (n, msg)), RetryJob i) \<longleftrightarrow> n = 1"
| "torn ((env, Some (n, msg)), RecoverExpired limit) \<longleftrightarrow> 0 < n \<and> n < 4"
| "torn _ \<longleftrightarrow> False"

section \<open>What an interrupted call leaves behind\<close>

lemma interrupted_none: "interrupted f (env, None) = f env" "interrupted_method g m (env, None) = g env"
  by (simp_all add: fun_eq_iff)

lemma interrupted_state: "snd (interrupted f (env, fault) s) = s \<or> snd (interrupted f (env, fault) s) = snd (f env s)"
  by (cases fault) auto

lemma returned_stays:
  "th_progress t = Returned a \<Longrightarrow> shared_run (replicate n (Statement 0 env)) ([t], db) = ([t], db)"
  by (induction n) (simp_all add: thread_step_def)

lemma after_retry: "after_statements (Suc (Suc n)) env (RetryMethod i) db = snd (retry_job env i db)"
  by (simp add: after_statements_def thread_step_def retry_statement_def retry_job_def Let_def returned_stays split: option.split)

lemma after_recover: "after_statements (n + 4) env (RecoverMethod limit) db = snd (recover_expired_leases env limit db)"
proof -
  obtain ids1 db1 where 1: "recover_retry env limit db = (ids1, db1)" by fastforce
  obtain ids2 db2 where 2: "recover_dead_letter env limit db1 = (ids2, db2)" by fastforce
  obtain ids3 db3 where 3: "recover_failed env limit db2 = (ids3, db3)" by fastforce
  show ?thesis
    by (simp add: after_statements_def eval_nat_numeral thread_step_def recover_statement_def recover_expired_leases_def Let_def 1 2 3
        close_attempts_def returned_stays)
qed

text \<open>Submissions and cancellations cut short are whole calls.\<close>

lemma after_statements_calls:
  assumes "db_ok db" and "event_ok (Begin m)"
  shows "\<exists>calls. calls_ok calls \<and> after_statements n env m db = run calls db"
proof -
  let ?es = "Begin m # replicate n (Statement 0 env)"
  have "simulated db [] ([], db)" by (simp add: simulated_def)
  moreover have "list_all event_ok ?es" using assms(2) by (simp add: list_all_iff)
  ultimately have "simulated db (shared_calls ?es ([], db)) (shared_run ?es ([], db))"
    using simulated_run [of db "[]" "([], db)" ?es] assms(1) by simp
  then show ?thesis unfolding simulated_def after_statements_def by blast
qed

lemma faulty_exec_calls:
  assumes "db_ok db" and "op_ok op" and "\<not> torn ((env, fault), op)"
  shows "\<exists>calls. calls_ok calls \<and> faulty_exec (env, fault) op db = run calls db"
proof -
  have whole: ?thesis if "faulty_exec (env, fault) op db = db \<or> faulty_exec (env, fault) op db = exec env op db"
    using that assms(2) calls_ok_simps run.simps by metis
  show ?thesis
  proof (cases fault)
    case None
    then show ?thesis by (intro whole disjI2) (cases op; simp add: faulty_store_def pg_store_def)
  next
    case (Some x)
    then obtain n msg where fault: "fault = Some (n, msg)" by (cases x) simp
    show ?thesis
    proof (cases op)
      case (Submit z)
      then show ?thesis
        using after_statements_calls [OF assms(1), of "SubmitMethod z" n env] assms(2) fault by (simp add: faulty_store_def)
    next
      case (CancelJob i)
      then show ?thesis
        using after_statements_calls [OF assms(1), of "CancelMethod i" n env] fault by (simp add: faulty_store_def)
    next
      case (RetryJob i)
      then have "n \<noteq> 1" using assms(3) fault by simp
      then have "n = 0 \<or> (\<exists>k. n = Suc (Suc k))" by presburger
      then show ?thesis
        using RetryJob fault by (intro whole) (auto simp: faulty_store_def after_retry, simp add: after_statements_def)
    next
      case (RecoverExpired limit)
      then have "n = 0 \<or> 4 \<le> n" using assms(3) fault by auto
      then have "n = 0 \<or> (\<exists>k. n = k + 4)" by presburger
      then show ?thesis
        using RecoverExpired fault by (intro whole) (auto simp: faulty_store_def after_recover, simp add: after_statements_def)
    qed (use fault in \<open>intro whole; simp add: faulty_store_def pg_store_def\<close>)+
  qed
qed

text \<open>The statements of a torn call still keep the rows well formed.\<close>

lemma retry_update_ok:
  assumes "db_ok db"
  shows "db_ok (db\<lparr>jobs := update_where (retry_matches i) (retry_set now) (jobs db)\<rparr>)"
proof (cases "row_of i db")
  case (Some r)
  then have "status_in r [Failed, DeadLettered] \<longleftrightarrow> status_of r \<in> {Failed, DeadLettered}"
    by (intro retry_status_in db_ok_row_of [OF assms])
  then show ?thesis
    using assms Some db_ok_retry_set [OF assms Some, of now]
    by (simp add: retry_matches_def [abs_def] update_row [OF assms] del: status_in_Cons)
qed (use assms in \<open>simp add: retry_matches_def [abs_def] update_row [OF assms]\<close>)

lemma statement_db_ok:
  assumes "db_ok db" and "m = RetryMethod i \<or> m = RecoverMethod limit"
  shows "db_ok (snd (statement env m p db))"
  using assms(2)
proof
  assume "m = RetryMethod i"
  then show ?thesis
    using assms(1) by (cases p) (simp_all add: retry_statement_def Let_def retry_update_ok db_ok_delete_dead_letter)
next
  assume "m = RecoverMethod limit"
  then show ?thesis
    using assms(1) db_ok_recover_retry [OF assms(1), of env limit] db_ok_recover_dead_letter [OF assms(1), of env limit]
      db_ok_recover_failed [OF assms(1), of env limit]
    by (cases p) (simp_all add: recover_statement_def Let_def split_beta db_ok_close_attempts)
qed

lemma after_statements_db_ok:
  assumes "db_ok db" and "m = RetryMethod i \<or> m = RecoverMethod limit"
  shows "db_ok (after_statements n env m db)"
proof -
  have "db_ok (snd (shared_run (replicate n (Statement 0 env)) ([t], d)))" if "db_ok d" "th_method t = m" for t d
    using that
  proof (induction n arbitrary: t d)
    case (Suc n)
    obtain t' d' where step: "thread_step env t d = (t', d')" by fastforce
    have "db_ok d' \<and> th_method t' = m"
    proof (cases "th_progress t")
      case (At p)
      then show ?thesis
        using step statement_db_ok [OF Suc.prems(1) assms(2), of env p] Suc.prems(2)
        by (cases "statement env m p d") (auto simp: thread_step_def)
    qed (use step Suc.prems in \<open>auto simp: thread_step_def\<close>)
    then show ?case using Suc.IH step by simp
  qed simp
  then show ?thesis using assms(1) by (simp add: after_statements_def)
qed

lemma db_ok_faulty_exec:
  assumes "db_ok db" and "op_ok op"
  shows "db_ok (faulty_exec e op db)"
proof -
  obtain env fault where e: "e = (env, fault)" by fastforce
  show ?thesis
  proof (cases "torn (e, op)")
    case True
    then show ?thesis
      using assms(1) after_statements_db_ok [OF assms(1)]
      by (auto simp: faulty_store_def elim!: torn.elims)
  next
    case False
    then obtain calls where "calls_ok calls" "faulty_exec e op db = run calls db"
      using faulty_exec_calls [OF assms, of env fault] unfolding e by blast
    then show ?thesis using db_ok_run [OF assms(1)] by simp
  qed
qed

definition faulty_calls_ok :: "'j faulty_call list \<Rightarrow> bool" where
  "faulty_calls_ok calls \<longleftrightarrow> list_all (\<lambda>c. op_ok (snd c)) calls"

lemma faulty_run_keeps:
  assumes "db_ok db" and "faulty_calls_ok calls"
  shows "db_ok (faulty_run calls db)"
    and "list_all (\<lambda>c. \<not> torn c) calls \<Longrightarrow> \<exists>whole. calls_ok whole \<and> faulty_run calls db = run whole db"
  using assms
proof (induction calls arbitrary: db)
  case (Cons c calls)
  obtain env fault op where c: "c = ((env, fault), op)" by (metis prod.exhaust)
  {
    case 1
    have "op_ok op" "faulty_calls_ok calls" using 1 c by (simp_all add: faulty_calls_ok_def)
    then show ?case using Cons.IH(1) [OF db_ok_faulty_exec [OF 1(1)]] c by simp
  next
    case 2
    let ?db = "faulty_exec (env, fault) op db"
    have op: "op_ok op" "\<not> torn ((env, fault), op)" using 2 c by (simp_all add: faulty_calls_ok_def)
    obtain one where one: "calls_ok one" "?db = run one db" using faulty_exec_calls [OF 2(2) op] by blast
    have "db_ok ?db" by (rule db_ok_faulty_exec [OF 2(2) op(1)])
    then obtain rest where "calls_ok rest" "faulty_run calls ?db = run rest ?db"
      using Cons.IH(2) [of ?db] 2 c by (auto simp: faulty_calls_ok_def)
    then show ?case using one c by (intro exI [of _ "one @ rest"]) (simp add: calls_ok_append run_append)
  }
qed (auto intro: exI [of _ "[]"])

text \<open>
  C12. Lost connections do not corrupt the store.  Over any sequence of calls, each of which may lose its connection after any number
  of its statements, the tables keep their keys and foreign keys and every row its limits and the agreement of lock and status.  And if no
  connection is lost between the statements of a manual retry or of a sweep, the database is one that whole calls reach: a call
  that failed has happened as a whole, or not at all, or has only created its queue, so that the invariant of the store and every guarantee over
  runs hold of it.
\<close>

theorem faults_leave_whole_calls:
  assumes "faulty_calls_ok calls"
  shows "db_ok (faulty_run calls empty_db) \<and>
    (list_all (\<lambda>c. \<not> torn c) calls \<longrightarrow>
      (\<exists>whole. calls_ok whole \<and> faulty_run calls empty_db = run whole empty_db) \<and> store_ok (faulty_run calls empty_db))"
  using faulty_run_keeps [OF db_ok_empty assms] store_ok_reached by metis

section \<open>Trying again\<close>

text \<open>The calls behind a submission that is cut short.\<close>

definition submission_calls :: "'j normalized_job \<Rightarrow> 'j call list \<Rightarrow> bool" where
  "submission_calls z calls \<longleftrightarrow> (\<forall>c \<in> set calls. snd c = EnsureQueue (z_queue z) \<or> snd c = Submit z)"

lemma thread_submission_calls:
  "th_method t = SubmitMethod z \<Longrightarrow> submission_calls z (thread_calls env t db)"
proof (cases "th_progress t")
  case (At p)
  assume "th_method t = SubmitMethod z"
  with At show ?thesis by (cases p) (simp_all add: submission_calls_def thread_calls_def)
qed (simp add: submission_calls_def thread_calls_def)

lemma statements_submission_calls:
  "th_method t = SubmitMethod z \<Longrightarrow>
    submission_calls z (map snd (shared_calls (replicate n (Statement 0 env)) ([t], db)))"
proof (induction n arbitrary: t db)
  case (Suc n)
  obtain t' db' where step: "thread_step env t db = (t', db')" by fastforce
  then have "th_method t' = SubmitMethod z"
    using Suc.prems by (auto simp: thread_step_def split: progress.splits prod.splits)
  then show ?case
    using Suc.IH [of t' db'] step thread_submission_calls [OF Suc.prems, of env db]
    by (auto simp: submission_calls_def comp_def)
qed (simp add: submission_calls_def)

lemma cut_submission:
  assumes "db_ok db" and "normalized_ok z"
  shows "\<exists>calls. calls_ok calls \<and> submission_calls z calls \<and> faulty_exec e (Submit z) db = run calls db"
proof -
  obtain env fault where e: "e = (env, fault)" by fastforce
  show ?thesis
  proof (cases fault)
    case None
    then show ?thesis
      using e assms(2) by (intro exI [of _ "[(env, Submit z)]"]) (simp add: faulty_store_def pg_store_def submission_calls_def)
  next
    case (Some x)
    then obtain n msg where fault: "fault = Some (n, msg)" by (cases x) simp
    let ?t = "\<lparr>th_method = SubmitMethod z, th_progress = At EnsureInsert\<rparr>"
    let ?es = "Begin (SubmitMethod z) # replicate n (Statement 0 env)"
    have "simulated db [] ([], db)" by (simp add: simulated_def)
    moreover have "list_all event_ok ?es" using assms(2) by (simp add: list_all_iff)
    ultimately have "simulated db (shared_calls ?es ([], db)) (shared_run ?es ([], db))"
      using simulated_run [of db "[]" "([], db)" ?es] assms(1) by simp
    then have "calls_ok (map snd (shared_calls ?es ([], db))) \<and>
        after_statements n env (SubmitMethod z) db = run (map snd (shared_calls ?es ([], db))) db"
      unfolding simulated_def after_statements_def by blast
    moreover have "submission_calls z (map snd (shared_calls ?es ([], db)))"
      using statements_submission_calls [of ?t z n env db] by simp
    ultimately show ?thesis using e fault by (intro exI [of _ "map snd (shared_calls ?es ([], db))"]) (simp add: faulty_store_def)
  qed
qed

text \<open>Submissions of one job with a key add it once.\<close>

definition keyed :: "'j normalized_job \<Rightarrow> 'j db \<Rightarrow> bool" where
  "keyed z db \<longleftrightarrow> (\<exists>r \<in> set (jobs db). has_key (z_queue z) (z_idempotency_key z) r)"

definition added_once :: "'j normalized_job \<Rightarrow> 'j db \<Rightarrow> 'j db \<Rightarrow> bool" where
  "added_once z db db' \<longleftrightarrow>
    jobs db' = jobs db \<or>
    \<not> keyed z db \<and> (\<exists>now i. jobs db' = jobs db @ [new_row now i z])"

lemma submit_adds_once:
  assumes "db_ok db" and "normalized_ok z"
  shows "added_once z db (snd (submit env z db))"
proof (cases "job_by_key (z_queue z) (z_idempotency_key z) db")
  case None
  then have "\<not> keyed z db" by (simp add: keyed_def Bex_def job_by_key_iff [OF assms(1), symmetric])
  with None show ?thesis by (auto simp: added_once_def submit_eq [OF assms] Let_def add_job_def)
qed (simp add: added_once_def submit_eq [OF assms] Let_def)

lemma submission_calls_add_once:
  assumes "db_ok db" and "normalized_ok z" and "z_idempotency_key z \<noteq> None" and "submission_calls z calls"
  shows "added_once z db (run calls db)"
  using assms(1,4)
proof (induction calls arbitrary: db)
  case (Cons c calls)
  obtain env op where c: "c = (env, op)" by fastforce
  let ?db = "exec env op db"
  have op: "op = EnsureQueue (z_queue z) \<or> op = Submit z" using Cons.prems(2) c by (auto simp: submission_calls_def)
  have once: "added_once z db ?db"
    using op
  proof
    assume "op = Submit z"
    then show ?thesis using submit_adds_once [OF Cons.prems(1) assms(2), of env] by simp
  qed (simp add: added_once_def ensure_queue_eq)
  have "db_ok ?db" using op assms(2) by (intro db_ok_exec [OF Cons.prems(1)]) auto
  then have rest: "added_once z ?db (run calls ?db)"
    using Cons.IH Cons.prems(2) by (simp add: submission_calls_def)
  from once consider "jobs ?db = jobs db" | now i where "\<not> keyed z db" "jobs ?db = jobs db @ [new_row now i z]"
    unfolding added_once_def by blast
  then show ?case
  proof cases
    case 1
    then have "keyed z ?db = keyed z db" by (simp add: keyed_def)
    with rest 1 c show ?thesis unfolding added_once_def by simp
  next
    case 2
    have "keyed z ?db" using 2(2) assms(3) by (auto simp: keyed_def has_key_def new_row_def)
    with rest 2 c show ?thesis unfolding added_once_def by auto
  qed
qed (simp add: added_once_def)

definition resubmissions :: "'j normalized_job \<Rightarrow> faulty_env list \<Rightarrow> 'j db \<Rightarrow> 'j db" where
  "resubmissions z es db = fold (\<lambda>e. faulty_exec e (Submit z)) es db"

lemma resubmissions_calls:
  assumes "db_ok db" and "normalized_ok z"
  shows "\<exists>calls. calls_ok calls \<and> submission_calls z calls \<and> resubmissions z es db = run calls db"
  using assms(1)
proof (induction es arbitrary: db)
  case (Cons e es)
  obtain calls where calls: "calls_ok calls" "submission_calls z calls" "faulty_exec e (Submit z) db = run calls db"
    using cut_submission [OF Cons.prems assms(2)] by blast
  have "db_ok (faulty_exec e (Submit z) db)" using assms(2) by (intro db_ok_faulty_exec [OF Cons.prems]) simp
  then obtain rest where "calls_ok rest" "submission_calls z rest"
    "resubmissions z es (faulty_exec e (Submit z) db) = run rest (faulty_exec e (Submit z) db)"
    using Cons.IH by blast
  with calls show ?case by (intro exI [of _ "calls @ rest"]) (auto simp: resubmissions_def submission_calls_def)
qed (auto simp: resubmissions_def submission_calls_def intro!: exI [of _ "[]"])

text \<open>
  C13. A client may submit again until it gets an answer.  Submit a job with an idempotency key to any reachable database, any number of
  times, each time losing the connection after any number of statements, and then once more without a fault and with a new id.  The
  last call succeeds, and the attempts together have added one job if there was none with the key, and nothing otherwise; the answer is the
  job with that key, and says it was created exactly if none of the failed attempts had created it.
\<close>

theorem resubmission_adds_one_job:
  assumes "faulty_calls_ok calls" and "normalized_ok z" and "z_idempotency_key z \<noteq> None"
    and "row_of (pe_uuid env) (resubmissions z es (faulty_run calls empty_db)) = None"
  shows "let db = faulty_run calls empty_db; db1 = resubmissions z es db
    in \<exists>sub db2 r. so_submit faulty_store (env, None) z db1 = (Ok sub, db2) \<and>
      r \<in> set (jobs db2) \<and> has_key (z_queue z) (z_idempotency_key z) r \<and> sub_job sub = job_of r \<and>
      jobs db2 = (if keyed z db then jobs db else jobs db @ [r]) \<and> (sub_created sub \<longleftrightarrow> \<not> keyed z db1)"
proof -
  let ?db = "faulty_run calls empty_db"
  let ?db1 = "resubmissions z es ?db"
  have ok: "db_ok ?db" by (rule faulty_run_keeps(1) [OF db_ok_empty assms(1)])
  obtain tries where tries: "calls_ok tries" "submission_calls z tries" "?db1 = run tries ?db"
    using resubmissions_calls [OF ok assms(2)] by blast
  have ok1: "db_ok ?db1" unfolding tries(3) by (rule db_ok_run [OF ok tries(1)])
  have keyed1: "keyed z ?db1 \<longleftrightarrow> job_by_key (z_queue z) (z_idempotency_key z) ?db1 \<noteq> None"
    by (auto simp: keyed_def Bex_def job_by_key_iff [OF ok1, symmetric])
  obtain sub db2 r where last_call: "submit env z ?db1 = (Ok sub, db2)" "r \<in> set (jobs db2)"
    "has_key (z_queue z) (z_idempotency_key z) r" "sub_job sub = job_of r" "sub_created sub \<longleftrightarrow> \<not> keyed z ?db1"
  proof (cases "job_by_key (z_queue z) (z_idempotency_key z) ?db1")
    case None
    let ?r = "new_row (pe_now env) (pe_uuid env) z"
    show thesis
      by (rule that [of "\<lparr>sub_job = job_of ?r, sub_created = True\<rparr>" "add_job ?r (insert_queue (pe_now env) (z_queue z) ?db1)" ?r])
        (use None assms(3,4) keyed1 in \<open>auto simp: submit_eq [OF ok1 assms(2)] Let_def add_job_def has_key_def new_row_def\<close>)
  next
    case (Some x)
    show thesis
      by (rule that [of "\<lparr>sub_job = job_of x, sub_created = False\<rparr>" "insert_queue (pe_now env) (z_queue z) ?db1" x])
        (use Some keyed1 job_by_key_iff [OF ok1, of "z_queue z" "z_idempotency_key z" x] in \<open>auto simp: submit_eq [OF ok1 assms(2)] Let_def\<close>)
  qed
  have "submission_calls z (tries @ [(env, Submit z)])" using tries(2) by (auto simp: submission_calls_def)
  then have once: "added_once z ?db db2"
    using submission_calls_add_once [OF ok assms(2,3), of "tries @ [(env, Submit z)]"] last_call(1) tries(3) by simp
  have "jobs db2 = (if keyed z ?db then jobs ?db else jobs ?db @ [r])"
  proof (cases "keyed z ?db")
    case False
    then obtain now i where jobs: "jobs db2 = jobs ?db @ [new_row now i z]"
      using once last_call(2,3) by (auto simp: added_once_def keyed_def)
    then have "r = new_row now i z" using last_call(2,3) False by (auto simp: keyed_def)
    with jobs False show ?thesis by simp
  qed (use once in \<open>simp add: added_once_def\<close>)
  moreover have "so_submit faulty_store (env, None) z ?db1 = (Ok sub, db2)"
    using last_call(1) by (simp add: faulty_store_def pg_store_def)
  ultimately show ?thesis using last_call(2-5) by (auto simp: Let_def)
qed

text \<open>
  Three failed attempts: one whose connection is lost before its first statement, one that created only the queue, and one whose answer is lost
  after the insert.
\<close>

definition failed_attempts :: "faulty_env list" where
  "failed_attempts = [(sample_env 1 1, Some (0, ''reset'')), (sample_env 2 2, Some (2, ''reset'')), (sample_env 3 3, Some (4, ''reset''))]"

theorem resubmission_adds_one_job_witness:
  "\<exists>sub db2 r. so_submit faulty_store (sample_env 4 4, None) keyed_job (resubmissions keyed_job failed_attempts (faulty_run [] empty_db)) = (Ok sub, db2) \<and>
    r \<in> set (jobs db2) \<and> sub_job sub = job_of r \<and> jobs db2 = [r] \<and> \<not> sub_created sub"
proof -
  have facts: "faulty_calls_ok ([] :: unit faulty_call list)" "normalized_ok keyed_job" "z_idempotency_key keyed_job \<noteq> None"
    "row_of (pe_uuid (sample_env 4 4)) (resubmissions keyed_job failed_attempts (faulty_run [] empty_db)) = None"
    "\<not> keyed keyed_job (faulty_run [] empty_db)" "keyed keyed_job (resubmissions keyed_job failed_attempts (faulty_run [] empty_db))"
    "jobs (faulty_run [] (empty_db :: unit db)) = []"
    by code_simp+
  from resubmission_adds_one_job [OF facts(1-4)] facts(5-7) show ?thesis by (auto simp: Let_def)
qed

theorem faults_leave_whole_calls_witness:
  "db_ok (faulty_run (map (\<lambda>e. (e, Submit keyed_job)) failed_attempts) empty_db) \<and>
   store_ok (faulty_run (map (\<lambda>e. (e, Submit keyed_job)) failed_attempts) empty_db)"
proof -
  have "faulty_calls_ok (map (\<lambda>e. (e, Submit keyed_job)) failed_attempts)"
    "list_all (\<lambda>c. \<not> torn c) (map (\<lambda>e. (e, Submit keyed_job)) failed_attempts)" by code_simp+
  with faults_leave_whole_calls show ?thesis by blast
qed

section \<open>Torn calls\<close>

text \<open>
  A manual retry of a dead-lettered job that loses its connection between its statements, and is tried again; and a sweep that loses its
  connection before it closes the attempts, followed by another one.
\<close>

definition torn_retry :: "unit faulty_call list" where
  "torn_retry =
    [((sample_env 0 1, None), Submit (sample_job 0 1 True)), ((sample_env 1 0, None), LeaseNext 7 [''q''] 30),
     ((sample_env 2 0, None), FailJob 1 7 ''error'' False), ((sample_env 3 0, Some (1, ''reset'')), RetryJob 1)]"

definition torn_sweep :: "unit faulty_call list" where
  "torn_sweep =
    [((sample_env 0 1, None), Submit (sample_job 0 3 True)), ((sample_env 1 0, None), LeaseNext 7 [''q''] 30),
     ((sample_env 31000000 0, Some (3, ''reset'')), RecoverExpired 100), ((sample_env 32000000 0, None), RecoverExpired 100)]"


end
