(* ===== verification/Fault_Tolerance.thy ===== *)
theory Fault_Tolerance
  imports Store_Faults Maintenance Worker_Shutdown Api_Properties
begin

text \<open>
  What the processes do when calls of the store fail.  A contract that asks only that a call keeps an invariant and does not panic, whatever
  its result, is enough for a worker and for the maintenance task to go on; \<open>PgStore\<close> with lost connections meets it.  A handler of the API
  whose call failed does not report success.
\<close>

section \<open>A store that may fail but not break\<close>

definition steady :: "('s \<Rightarrow> bool) \<Rightarrow> ('s \<Rightarrow> ('a, queue_error) outcome \<times> 's) \<Rightarrow> bool" where
  "steady keep f \<longleftrightarrow> (\<forall>s. keep s \<longrightarrow> keep (snd (f s)) \<and> fst (f s) \<noteq> Panic)"

lemma steadyD: "steady keep f \<Longrightarrow> keep s \<Longrightarrow> f s = (out, s') \<Longrightarrow> keep s' \<and> out \<noteq> Panic"
  by (metis fst_conv snd_conv steady_def)

lemma steady_call:
  "steady keep f \<Longrightarrow> keep (sv_store sv) \<Longrightarrow> call_store f sv = (out, sv') \<Longrightarrow> keep (sv_store sv') \<and> out \<noteq> Panic"
  using steadyD [of keep f "sv_store sv"] by (auto simp: call_store_def split: prod.splits)

locale steady_store =
  fixes ops :: "('s, 'e, 'j) store_ops"
    and inv :: "'s \<Rightarrow> bool"
  assumes steady_lease: "steady inv (so_lease_next ops env w qs secs)"
    and steady_renew: "steady inv (so_renew_lease ops env i w secs)"
    and steady_complete: "steady inv (so_complete_job ops env i w res)"
    and steady_fail: "steady inv (so_fail_job ops env i w err timed_out)"
    and steady_register: "steady inv (so_register_worker ops env wk)"
    and steady_heartbeat: "steady inv (so_heartbeat ops env w)"
    and steady_deregister: "steady inv (so_deregister_worker ops env w)"
    and steady_recover: "steady inv (so_recover_expired_leases ops env limit)"
    and steady_prune: "steady inv (so_prune_dead_workers ops env secs)"
    and steady_active: "steady inv (so_list_active_workers ops env secs)"
    and steady_queues: "steady inv (so_list_queues ops env)"
    and steady_stats: "steady inv (so_queue_stats ops env name)"
begin

lemma report_steady:
  assumes "inv (sv_store sv)" and "svc_report_outcome ops env job w outcome d sv = (out, sv')"
  shows "inv (sv_store sv')"
proof -
  have failure: "inv (sv_store (snd (svc_record_failure ops env job w err t x)))" if "inv (sv_store x)" for err t x
  proof -
    obtain o1 x1 where call: "call_store (so_fail_job ops env (j_id job) w err t) (emit (JobsFailed (j_queue job)) x) = (o1, x1)"
      by fastforce
    then have "inv (sv_store x1)" using steady_call [OF steady_fail _ call] that by simp
    then show ?thesis
      by (cases o1) (simp_all add: svc_record_failure_def call split: job_status.split)
  qed
  have success: "inv (sv_store (snd (then_call (call_store (so_complete_job ops env (j_id job) w res) x)
      (\<lambda>updated sv. (Ok updated, emit (JobsCompleted (j_queue job)) sv)))))" if "inv (sv_store x)" for res x
  proof -
    obtain o1 x1 where call: "call_store (so_complete_job ops env (j_id job) w res) x = (o1, x1)" by fastforce
    then have "inv (sv_store x1)" using steady_call [OF steady_complete that call] by simp
    then show ?thesis by (cases o1) (simp_all add: call)
  qed
  have "inv (sv_store (snd (svc_report_outcome ops env job w outcome d sv)))"
    using failure success assms(1) by (cases outcome) (simp_all add: svc_report_outcome_def)
  then show ?thesis using assms(2) by simp
qed

text \<open>Whatever its calls return, a worker goes on.\<close>

lemma worker_steady:
  assumes "inv (sv_store sv)" and "ws_phase ws \<noteq> Crashed" and "worker_step ops reg cfg now ev (ws, sv) = Some (ws', sv')"
  shows "inv (sv_store sv') \<and> ws_phase ws' \<noteq> Crashed"
proof (cases ev)
  case (Leased env)
  obtain out sv1 where call: "call_store (so_lease_next ops env (wc_id cfg) (wc_queues cfg) (wc_lease_secs cfg)) sv = (out, sv1)"
    by fastforce
  then have "inv (sv_store sv1)" "out \<noteq> Panic" using steady_call [OF steady_lease assms(1)] by blast+
  with Leased assms(3) call show ?thesis
    by (auto simp: on_lease_def svc_lease_next_def release_def reap_tasks_def spawn_def
        split: if_splits outcome.splits option.splits)
next
  case (Deregistered env)
  obtain out sv1 where call: "call_store (so_deregister_worker ops env (wc_id cfg)) sv = (out, sv1)" by fastforce
  then have "inv (sv_store sv1)" "out \<noteq> Panic" using steady_call [OF steady_deregister assms(1)] by blast+
  with Deregistered assms(3) call show ?thesis by (auto simp: on_deregister_def split: if_splits outcome.splits)
next
  case (Renewed k env)
  have "inv (sv_store x)" if "svc_renew_lease ops env i w n sv = (out, x)" for i w n out x
    using steady_call [OF steady_renew assms(1)] that unfolding svc_renew_lease_def by blast
  with Renewed assms(2,3) show ?thesis by (auto elim!: on_renewE)
next
  case (Handled k took d)
  with assms show ?thesis by (auto elim!: on_handledE)
next
  case (Reported k env)
  with assms(2,3) report_steady [OF assms(1)] show ?thesis by (auto elim!: on_reportE)
next
  case (Beat env)
  obtain out sv1 where call: "call_store (so_heartbeat ops env (wc_id cfg)) sv = (out, sv1)" by fastforce
  then have "inv (sv_store sv1)" using steady_call [OF steady_heartbeat assms(1)] by blast
  with Beat assms(2,3) call show ?thesis by (auto simp: on_beat_def split: if_splits outcome.splits bool.splits)
next
  case (Reregistered env)
  obtain out sv1 where call: "call_store (so_register_worker ops env (worker_of_config cfg now)) sv = (out, sv1)" by fastforce
  then have "inv (sv_store sv1)" using steady_call [OF steady_register assms(1)] by blast
  with Reregistered assms(2,3) call show ?thesis by (auto simp: on_reregister_def split: if_splits outcome.splits)
qed (use assms in \<open>auto simp: on_permit_def on_poll_elapsed_def on_break_def on_join_next_def on_drained_def on_grace_elapsed_def
    on_dropped_def on_beat_break_def abort_beat_def abort_all_def reap_tasks_def drop_task_def release_def
    split: if_splits option.splits\<close>)

text \<open>A sweep whose steps may fail still returns, and so does the loop.\<close>

lemma or_log_steady:
  assumes "steady inv f" and "inv (sv_store sv)" and "\<And>a x. inv (sv_store x) \<Longrightarrow> fst (g a x) = Ok () \<and> inv (sv_store (snd (g a x)))"
  shows "\<exists>sv'. or_log (call_store f sv) g = (Ok (), sv') \<and> inv (sv_store sv')"
proof -
  obtain out x where call: "call_store f sv = (out, x)" by fastforce
  with steady_call [OF assms(1,2)] have "inv (sv_store x)" "out \<noteq> Panic" by blast+
  then show ?thesis
    using assms(3) [of x] call by (cases out) (auto, metis prod.collapse)
qed

lemma refresh_steady:
  "inv (sv_store sv) \<Longrightarrow> \<exists>sv'. refresh_depths ops envs k qs sv = (Ok (), sv') \<and> inv (sv_store sv')"
proof (induction qs arbitrary: k sv)
  case (Cons q qs)
  let ?g = "\<lambda>stats sv. (Ok () :: (unit, queue_error) outcome,
    emit (QueueDepth (q_name q) (st_queued stats + st_scheduled stats + st_retrying stats)) sv)"
  obtain sv1 where "or_log (call_store (so_queue_stats ops (envs k) (q_name q)) sv) ?g = (Ok (), sv1)" "inv (sv_store sv1)"
    using or_log_steady [OF steady_stats Cons.prems, of ?g "envs k" "q_name q"] by auto
  then show ?case using Cons.IH [of sv1 "Suc k"] by (simp add: svc_queue_stats_def)
qed simp

lemma sweep_steady:
  assumes "inv (sv_store sv)"
  shows "\<exists>sv'. sweep ops envs cfg sv = (Ok (), sv') \<and> inv (sv_store sv')"
proof -
  let ?done = "\<lambda>a sv. (Ok () :: (unit, queue_error) outcome, sv)"
  obtain sv1 where 1: "or_log (call_store (so_recover_expired_leases ops (envs 0) (mc_recover_batch cfg)) sv) ?done = (Ok (), sv1)"
    "inv (sv_store sv1)" using or_log_steady [OF steady_recover assms, of ?done] by auto
  obtain sv2 where 2: "or_log (call_store (so_prune_dead_workers ops (envs 1) (mc_worker_ttl_secs cfg)) sv1) ?done = (Ok (), sv2)"
    "inv (sv_store sv2)" using or_log_steady [OF steady_prune 1(2), of ?done] by auto
  let ?gauge = "\<lambda>workers sv. (Ok () :: (unit, queue_error) outcome, emit (ActiveWorkers (int (length workers))) sv)"
  obtain sv3 where 3: "or_log (call_store (so_list_active_workers ops (envs 2) (mc_active_window_secs cfg)) sv2) ?gauge = (Ok (), sv3)"
    "inv (sv_store sv3)" using or_log_steady [OF steady_active 2(2), of ?gauge] by auto
  have "fst (refresh_depths ops envs 4 qs x) = Ok () \<and> inv (sv_store (snd (refresh_depths ops envs 4 qs x)))"
    if "inv (sv_store x)" for qs x using refresh_steady [OF that, of envs 4 qs] by auto
  then obtain sv4 where 4: "or_log (call_store (so_list_queues ops (envs 3)) sv3) (refresh_depths ops envs 4) = (Ok (), sv4)"
    "inv (sv_store sv4)" using or_log_steady [OF steady_queues 3(2)] by blast
  have "sweep ops envs cfg sv = (Ok (), sv4)"
    unfolding sweep_def svc_list_queues_def 1(1) then_call.simps 2(1) 3(1) 4(1) by (rule refl)
  with 4(2) show ?thesis by blast
qed

lemma maintenance_steady:
  "inv (sv_store sv) \<Longrightarrow> \<exists>sv'. maintenance_run ops cfg events sv = (Ok (), sv') \<and> inv (sv_store sv')"
proof (induction events arbitrary: sv)
  case (Cons e events)
  show ?case
  proof (cases e)
    case (Tick envs)
    obtain sv1 where "sweep ops envs cfg sv = (Ok (), sv1)" "inv (sv_store sv1)" using sweep_steady [OF Cons.prems] by blast
    with Tick Cons.IH show ?thesis by simp
  qed (simp add: Cons.prems)
qed simp

end

section \<open>\<open>PgStore\<close> with lost connections\<close>

lemma steady_exec:
  assumes "\<And>db. snd (f db) = exec env op db" and "op_ok op" and "\<And>db. db_ok db \<Longrightarrow> fst (f db) \<noteq> Panic"
  shows "steady db_ok f"
  unfolding steady_def using assms db_ok_exec by metis

lemma pg_steady:
  "steady db_ok (so_lease_next pg_store env w qs secs)" "steady db_ok (so_renew_lease pg_store env i w secs)"
  "steady db_ok (so_complete_job pg_store env i w res)" "steady db_ok (so_fail_job pg_store env i w err timed_out)"
  "steady db_ok (so_register_worker pg_store env wk)" "steady db_ok (so_heartbeat pg_store env w)"
  "steady db_ok (so_deregister_worker pg_store env w)" "steady db_ok (so_recover_expired_leases pg_store env limit)"
  "steady db_ok (so_prune_dead_workers pg_store env secs)"
proof -
  show "steady db_ok (so_lease_next pg_store env w qs secs)"
    by (rule steady_exec [of _ env "LeaseNext w qs secs"]) (simp_all add: pg_store_def lease_next_eq Let_def split: option.split)
  show "steady db_ok (so_renew_lease pg_store env i w secs)"
    by (rule steady_exec [of _ env "RenewLease i w secs"]) (simp_all add: pg_store_def renew_lease_eq split: option.split)
  show "steady db_ok (so_complete_job pg_store env i w res)"
    by (rule steady_exec [of _ env "CompleteJob i w res"]) (simp_all add: pg_store_def complete_job_eq split: option.split)
  show "steady db_ok (so_fail_job pg_store env i w err timed_out)"
    by (rule steady_exec [of _ env "FailJob i w err timed_out"]) (simp_all add: pg_store_def fail_job_eq split: option.split)
  show "steady db_ok (so_register_worker pg_store env wk)"
    by (rule steady_exec [of _ env "RegisterWorker wk"]) (simp_all add: pg_store_def register_worker_def)
  show "steady db_ok (so_heartbeat pg_store env w)"
    by (rule steady_exec [of _ env "Heartbeat w"]) (simp_all add: pg_store_def heartbeat_def Let_def)
  show "steady db_ok (so_deregister_worker pg_store env w)"
    by (rule steady_exec [of _ env "DeregisterWorker w"]) (simp_all add: pg_store_def deregister_worker_def)
  show "steady db_ok (so_recover_expired_leases pg_store env limit)"
    by (rule steady_exec [of _ env "RecoverExpired limit"])
      (simp_all add: pg_store_def recover_expired_leases_def Let_def split_beta)
  show "steady db_ok (so_prune_dead_workers pg_store env secs)"
    by (rule steady_exec [of _ env "PruneWorkers secs"]) (simp_all add: pg_store_def prune_dead_workers_def Let_def)
qed

lemma steady_read: "(\<And>db. snd (f db) = db \<and> fst (f db) \<noteq> Panic) \<Longrightarrow> steady keep f"
  by (simp add: steady_def)

lemma pg_steady_reads:
  "steady db_ok (so_list_active_workers pg_store env secs)" "steady db_ok (so_list_queues pg_store env)"
  "steady db_ok (so_queue_stats pg_store env name)"
  by (rule steady_read; simp add: pg_store_def list_active_workers_def list_queues_def queue_stats_of_def get_queue_def split: option.split)+

lemma steady_interrupted: "(\<And>env. steady keep (f env)) \<Longrightarrow> steady keep (interrupted f e)"
proof -
  assume f: "\<And>env. steady keep (f env)"
  obtain env fault where "e = (env, fault)" by fastforce
  then show ?thesis using f [of env] by (cases fault) (auto simp: steady_def)
qed

lemma steady_interrupted_recover: "steady db_ok (so_recover_expired_leases faulty_store e limit)"
proof -
  obtain env fault where e: "e = (env, fault)" by fastforce
  have "db_ok (snd (so_recover_expired_leases faulty_store e limit db))" if "db_ok db" for db :: "'a db"
    using db_ok_faulty_exec [OF that, of "RecoverExpired limit" e] by simp
  moreover have "fst (so_recover_expired_leases faulty_store e limit db) \<noteq> Panic" if "db_ok db" for db :: "'a db"
    using that pg_steady(8) [of env limit] e by (cases fault) (auto simp: faulty_store_def steady_def)
  ultimately show ?thesis by (simp add: steady_def)
qed

interpretation fs: steady_store faulty_store db_ok
  by unfold_locales
    (rule steady_interrupted_recover | simp only: faulty_store_def store_ops.simps, rule steady_interrupted, rule pg_steady pg_steady_reads)+

section \<open>A worker and the maintenance task\<close>

text \<open>A worker beside other processes, on one database; any call of either may lose its connection.\<close>

datatype 'j faulty_event = Mine "faulty_env worker_event" | Theirs "'j faulty_call"

fun faulty_system_step ::
  "'j handler_registry \<Rightarrow> worker_config \<Rightarrow> time \<Rightarrow> 'j faulty_event \<Rightarrow> 'j system \<Rightarrow> 'j system option" where
  "faulty_system_step reg cfg now (Mine ev) c = worker_step faulty_store reg cfg now ev c"
| "faulty_system_step reg cfg now (Theirs (e, op)) (ws, sv) =
    Some (ws, sv\<lparr>sv_store := faulty_exec e op (sv_store sv)\<rparr>)"

fun faulty_system_run ::
  "'j handler_registry \<Rightarrow> worker_config \<Rightarrow> time \<Rightarrow> 'j faulty_event list \<Rightarrow> 'j system \<Rightarrow> 'j system option" where
  "faulty_system_run reg cfg now [] c = Some c"
| "faulty_system_run reg cfg now (e # es) c =
    Option.bind (faulty_system_step reg cfg now e c) (faulty_system_run reg cfg now es)"

fun faulty_event_ok :: "'j faulty_event \<Rightarrow> bool" where
  "faulty_event_ok (Theirs (e, op)) \<longleftrightarrow> op_ok op"
| "faulty_event_ok (Mine ev) \<longleftrightarrow> True"

lemma faulty_system_keeps:
  assumes "faulty_system_run reg cfg now es (ws, sv) = Some (ws', sv')" and "list_all faulty_event_ok es"
    and "worker_ok n ws" and "ws_phase ws \<noteq> Crashed" and "db_ok (sv_store sv)"
  shows "worker_ok n ws' \<and> ws_phase ws' \<noteq> Crashed \<and> db_ok (sv_store sv')"
  using assms
proof (induction es arbitrary: ws sv)
  case (Cons ev es)
  obtain ws1 sv1 where step: "faulty_system_step reg cfg now ev (ws, sv) = Some (ws1, sv1)"
    "faulty_system_run reg cfg now es (ws1, sv1) = Some (ws', sv')"
    using Cons.prems(1) by (auto split: Option.bind_splits)
  have "worker_ok n ws1 \<and> ws_phase ws1 \<noteq> Crashed \<and> db_ok (sv_store sv1)"
  proof (cases ev)
    case (Mine e)
    with step(1) have "worker_step faulty_store reg cfg now e (ws, sv) = Some (ws1, sv1)" by simp
    then show ?thesis using worker_ok_step [OF Cons.prems(3)] fs.worker_steady [OF Cons.prems(5,4)] by blast
  next
    case (Theirs c)
    obtain e op where "c = (e, op)" by fastforce
    with Theirs step(1) Cons.prems show ?thesis by (auto simp: db_ok_faulty_exec)
  qed
  then show ?case using Cons.IH [OF step(2)] Cons.prems(2) by simp
qed simp

lemma faulty_worker_start:
  assumes "worker_start faulty_store m cfg e now sv = (Ok ws, sv')" and "db_ok (sv_store sv)" and "0 \<le> wc_concurrency cfg"
  shows "worker_ok (wc_concurrency cfg) ws" "ws_phase ws \<noteq> Crashed" "db_ok (sv_store sv')"
proof -
  show "worker_ok (wc_concurrency cfg) ws" by (rule worker_ok_start [OF assms(1,3)])
  obtain out sv1 where call: "call_store (so_register_worker faulty_store e (worker_of_config cfg now)) sv = (out, sv1)" by fastforce
  then have "db_ok (sv_store sv1)" using steady_call [OF fs.steady_register assms(2)] by blast
  then show "ws_phase ws \<noteq> Crashed" "db_ok (sv_store sv')"
    using assms(1) call by (cases out; auto simp: worker_start_def split: if_splits)+
qed

text \<open>
  C20. A worker survives lost connections.  Let a worker run beside any other calls, where every call of the worker and of the others may lose its
  connection after any number of statements.  The worker does not crash, its permits and the jobs in flight add up to the
  configured concurrency, and the rows of the database stay well formed; and a lease that fails gives its permit back and
  makes the worker wait for the next poll.
\<close>

theorem worker_survives_faults:
  assumes "faulty_calls_ok calls"
    and "worker_start faulty_store m cfg e now \<lparr>sv_store = faulty_run calls empty_db, sv_metrics = ms\<rparr> = (Ok ws, sv)"
    and "0 \<le> wc_concurrency cfg" and "list_all faulty_event_ok es"
    and "faulty_system_run reg cfg now es (ws, sv) = Some (ws', sv')"
  shows "ws_phase ws' \<noteq> Crashed \<and> db_ok (sv_store sv') \<and>
    ws_permits ws' + active (ws_tasks ws') + (if ws_phase ws' = Leasing then 1 else 0) = wc_concurrency cfg \<and>
    (ws_phase ws' = Leasing \<longrightarrow>
      map_option fst (worker_step faulty_store reg cfg now (Leased (env, Some (n, msg))) (ws', sv')) =
        Some (ws'\<lparr>ws_phase := Polling, ws_permits := ws_permits ws' + 1\<rparr>))"
proof -
  have "db_ok (faulty_run calls empty_db)" by (rule faulty_run_keeps(1) [OF db_ok_empty assms(1)])
  then have "worker_ok (wc_concurrency cfg) ws" "ws_phase ws \<noteq> Crashed" "db_ok (sv_store sv)"
    using faulty_worker_start [OF assms(2) _ assms(3)] by simp_all
  then have keeps: "worker_ok (wc_concurrency cfg) ws' \<and> ws_phase ws' \<noteq> Crashed \<and> db_ok (sv_store sv')"
    by (rule faulty_system_keeps [OF assms(5,4)])
  moreover have "ws_permits ws' + held_permits ws' = wc_concurrency cfg" using worker_okD(3) keeps by blast
  ultimately show ?thesis
    by (simp add: held_permits_def on_lease_def svc_lease_next_def call_store_def faulty_store_def release_def)
qed

text \<open>A worker whose first lease is committed and not answered, and which leases the next job after a poll.\<close>

definition faulty_calls :: "unit faulty_call list" where
  "faulty_calls = map (\<lambda>(env, op). ((env, None), op)) sample_queue"

definition faulty_worker :: "unit system" where
  "faulty_worker = cell_of (worker_start faulty_store 100 sample_cfg (sample_env 1 0, None) 0
    \<lparr>sv_store = faulty_run faulty_calls empty_db, sv_metrics = []\<rparr>)"

definition faulty_events :: "unit faulty_event list" where
  "faulty_events =
    [Mine Permit, Mine (Leased (sample_env 2 0, Some (1, ''reset''))), Theirs ((sample_env 3 0, Some (2, ''reset'')), RecoverExpired 100),
     Mine PollElapsed, Mine Permit, Mine (Leased (sample_env 4 0, None)), Mine Permit]"

theorem worker_survives_faults_witness:
  "\<exists>ws' sv'. faulty_system_run sample_registry sample_cfg 0 faulty_events faulty_worker = Some (ws', sv') \<and>
    ws_phase ws' = Leasing \<and> ws_permits ws' + active (ws_tasks ws') + 1 = 2 \<and> db_ok (sv_store sv') \<and>
    map_option fst (worker_step faulty_store sample_registry sample_cfg 0 (Leased (sample_env 5 0, Some (0, ''reset''))) (ws', sv')) =
      Some (ws'\<lparr>ws_phase := Polling, ws_permits := ws_permits ws' + 1\<rparr>)"
proof -
  have facts: "faulty_calls_ok faulty_calls"
    "worker_start faulty_store 100 sample_cfg (sample_env 1 0, None) 0 \<lparr>sv_store = faulty_run faulty_calls empty_db, sv_metrics = []\<rparr> =
      (Ok (fst faulty_worker), snd faulty_worker)"
    "0 \<le> wc_concurrency sample_cfg" "list_all faulty_event_ok faulty_events" "wc_concurrency sample_cfg = 2"
    "map_option (ws_phase \<circ> fst) (faulty_system_run sample_registry sample_cfg 0 faulty_events faulty_worker) = Some Leasing"
    by code_simp+
  then obtain ws' sv' where run: "faulty_system_run sample_registry sample_cfg 0 faulty_events (fst faulty_worker, snd faulty_worker) = Some (ws', sv')"
    "ws_phase ws' = Leasing" by auto
  from worker_survives_faults [OF facts(1-4) run(1), of "sample_env 5 0" 0 "''reset''"] run facts(5) show ?thesis
    by (intro exI [of _ ws'] exI [of _ sv']) simp
qed

text \<open>
  The maintenance task survives lost connections: whatever calls of its sweeps fail, and wherever, it does not fail, it returns at the
  shutdown, and the rows of the database stay well formed.
\<close>

theorem maintenance_survives_faults:
  assumes "faulty_calls_ok calls"
  shows "\<exists>sv'. maintenance_run faulty_store cfg (map Tick ticks @ Shutdown # rest)
      \<lparr>sv_store = faulty_run calls empty_db, sv_metrics = ms\<rparr> = (Ok (), sv') \<and> db_ok (sv_store sv')"
  by (rule fs.maintenance_steady) (simp add: faulty_run_keeps(1) [OF db_ok_empty assms])

theorem maintenance_survives_faults_witness:
  "\<exists>sv'. maintenance_run faulty_store default_maintenance
      (map Tick [\<lambda>k. (sample_env 40000000 0, Some (k, ''reset'')), \<lambda>k. (sample_env 45000000 0, None)] @ Shutdown # [])
      \<lparr>sv_store = faulty_run faulty_calls empty_db, sv_metrics = []\<rparr> = (Ok (), sv') \<and> db_ok (sv_store sv')"
proof -
  have "faulty_calls_ok faulty_calls" by code_simp
  then show ?thesis by (rule maintenance_survives_faults)
qed

section \<open>The API\<close>

definition needs_store :: "endpoint \<Rightarrow> bool" where
  "needs_store e \<longleftrightarrow> e \<notin> {Healthz, MetricsRoute, JobEvents}"

text \<open>The answer of a handler whose call failed, and of one that refused the request before.\<close>

definition lost_answer :: "'j response \<Rightarrow> bool" where
  "lost_answer r \<longleftrightarrow>
    rejected r \<or> (\<exists>text. r = respond 500 (ErrorBody text ''internal'')) \<or> (\<exists>text. r = respond 400 (ErrorBody text ''bad_request''))"

lemma lost_call:
  "as_response (api_call ax (Err (Storage msg), sv1) f) = (Ok r, sv') \<Longrightarrow> lost_answer r"
  by (auto simp: api_call_def api_error_from_def into_response_def lost_answer_def)

lemma api_call_panic: "api_call ax (Panic, sv) f = (Panic, sv)"
  by (simp add: api_call_def)

lemma lost_list_jobs:
  assumes "ax_env ax = (env, Some (n, msg))" and "as_response (route_list_jobs faulty_store ax f sv) = (Ok r, sv')"
  shows "lost_answer r"
proof (cases "bounded f")
  case (Pair limit offset)
  with assms show ?thesis
    by (auto simp: route_list_jobs_def svc_list_jobs_def call_store_def faulty_store_def intro: lost_call)
qed

lemma normalized_error: "normalized add n now = Err e \<Longrightarrow> category e = BadRequest"
  by (auto simp: normalized_def resolve_run_at_def Let_def split: if_splits option.splits)

lemma lost_submit:
  assumes "ax_env ax = (env, Some (n, msg))" and "as_response (route_submit_job faulty_store ax hs new sv) = (Ok r, sv')"
  shows "lost_answer r"
proof (cases "normalized (ax_add_secs ax) (with_header_key ax hs new) (ax_now ax)")
  case (Err e)
  then have "category e = BadRequest" by (rule normalized_error)
  with Err assms show ?thesis
    by (auto simp: route_submit_job_def svc_submit_def api_call_def api_error_from_def into_response_def lost_answer_def)
qed (use assms in \<open>auto simp: route_submit_job_def svc_submit_def call_store_def faulty_store_def api_call_def api_error_from_def
    into_response_def lost_answer_def\<close>)


definition lost_ax :: "(faulty_env, unit) api_env" where
  "lost_ax =
    \<lparr>ax_show_uuid = ax_show_uuid sample_ax, ax_to_str = Some, ax_add_secs = sample_add, ax_sub_secs = ax_sub_secs sample_ax,
     ax_render = (\<lambda>ms. []), ax_env = (sample_env 5 9, Some (4, ''reset'')), ax_env' = (sample_env 5 9, None), ax_now = 5\<rparr>"


end
