(* ===== verification/Spec2Isabelle.thy ===== *)
theory Spec2Isabelle
  imports Pg_Concurrent Maintenance Telemetry Worker_Shutdown Worker_Fencing Worker_Startup Worker_Execution
    Worker_Liveness Worker_Process Api_Config Api_Sse Api_Properties Api_Process Unit_Tests
    Concurrency_Tests Fault_Tolerance
begin

text \<open>
  A verification of the distributed job queue.

  \<^bold>\<open>The program.\<close>  Clients submit jobs to named queues over HTTP (\<^verbatim>\<open>crates/api\<close>); worker processes lease jobs,
  run them and report the outcome (\<^verbatim>\<open>crates/worker\<close>); a maintenance task recovers jobs whose worker died.  All
  of them go through \<open>QueueService\<close> (\<^verbatim>\<open>crates/queue\<close>), which calls the trait \<open>Store\<close> (\<^verbatim>\<open>crates/core\<close>), whose one
  implementation \<open>PgStore\<close> (\<^verbatim>\<open>crates/storage\<close>) keeps everything in five Postgres tables.  The job's row is the
  only shared state: a lease is the row's lock columns, and every hand-over is a conditional \<open>UPDATE\<close>.

  \<^bold>\<open>The theories.\<close>
  \<^item> \<open>Djq_Prelude\<close>: identifiers, timestamps (microseconds), the outcome of a Rust call (\<open>Ok\<close>, \<open>Err\<close>, \<open>Panic\<close>), integer
    casts, and SQL's \<open>UPDATE\<close>, \<open>DELETE\<close>, \<open>SELECT\<close>, \<open>ORDER BY\<close>, \<open>LIMIT\<close> on tables kept as lists of rows.
  \<^item> \<open>Job_Status\<close> (\<^verbatim>\<open>core/src/status.rs\<close>), \<open>Queue_Error\<close> (\<^verbatim>\<open>core/src/error.rs\<close>), \<open>Rust_String\<close> and \<open>Job_Model\<close>
    (\<^verbatim>\<open>core/src/model.rs\<close>): the domain types and \<open>NewJob::normalized\<close>.  \<open>Float64\<close>, \<open>Backoff\<close> and \<open>Backoff_Jitter\<close>
    (\<^verbatim>\<open>core/src/backoff.rs\<close>): binary64 arithmetic with its rounding, the retry delays, and how far jitter moves them.
  \<^item> \<open>Store_Row\<close> (\<^verbatim>\<open>storage/src/row.rs\<close> and the schema) and \<open>Pg_Store\<close> (\<^verbatim>\<open>storage/src/lib.rs\<close>): the database as a record
    of tables and every \<open>PgStore\<close> method as a function from the server's environment, the arguments and the
    database to a result and the new database.
  \<^item> \<open>Pg_Invariant\<close>, \<open>Pg_Ops\<close>, \<open>Pg_Submission\<close>, \<open>Pg_Reaper\<close>: the well-formedness of rows and tables, and for each method
    an equation that says what it does on a well-formed database, on every branch.
  \<^item> \<open>Job_Machine\<close>: the life of one job as the step relation \<open>row_step\<close>, calls and runs of the store, and that every call
    acts on every job as one step.  \<open>Lease_Protocol\<close>, \<open>Lease_Order\<close>, \<open>Attempt_Log\<close>, \<open>Store_Reports\<close>, \<open>Store_Queries\<close>: the
    guarantees over runs: status discipline, exclusive leases, bounded attempts, durability, the order of
    leasing, the attempt log and the dead-letter table, reports, the reaper, submission with idempotency
    keys, operator actions, counts and pages, worker liveness.
  \<^item> \<open>Pg_Statements\<close>: \<open>submit\<close>, \<open>cancel_job\<close>, \<open>retry_job\<close> and \<open>recover_expired_leases\<close> one statement at a time, with many calls in progress on
    one database.  \<open>Pg_Concurrent\<close>: uninterrupted they are the methods of \<open>Pg_Store\<close>; interleaved submissions and cancellations
    are linearizable, and one idempotency key makes one job; interleaved retries and sweeps are not safe.  \<open>Store_Faults\<close>: \<open>PgStore\<close> with
    connections lost after any number of statements (\<open>faulty_store\<close>); a lost call has happened as a whole, or not at all, or has only created its queue,
    except for retries and sweeps, and a submission with an idempotency key can be tried again.
  \<^item> \<open>Store_Api\<close> (\<^verbatim>\<open>core/src/store.rs\<close>): the trait \<open>Store\<close> as a record of methods and its contract as the locale
    \<open>job_store\<close>, interpreted on \<open>PgStore\<close> as \<open>pg\<close>.  \<open>Queue_Service\<close> (\<^verbatim>\<open>queue/src/lib.rs\<close>): the operations of
    \<open>QueueService\<close> over any store, with the metric updates as a log, and their behaviour proved from the
    contract.  \<open>Service_Properties\<close> states it for \<open>PgStore\<close>.  \<open>Maintenance\<close> (\<^verbatim>\<open>queue/src/maintenance.rs\<close>): the sweep
    and the loop, proved from the extended contract \<open>maintained_store\<close>, interpreted as \<open>pgm\<close>.  \<open>Telemetry\<close>
    (\<^verbatim>\<open>telemetry/src/lib.rs\<close>): the collectors, that building and registering them does not panic, and rendering.
  \<^item> \<open>Rust_Parse\<close>: numbers from and to text, \<open>split\<close>.  \<open>Worker_Config\<close> (\<^verbatim>\<open>worker/src/config.rs\<close>), \<open>Worker_Handlers\<close>
    (\<^verbatim>\<open>worker/src/lib.rs\<close>, \<^verbatim>\<open>worker/src/handlers.rs\<close>): the configuration, the handler registry and the example handlers.
    \<open>Worker_Runtime\<close> (\<^verbatim>\<open>worker/src/runtime.rs\<close>): a worker process as a state machine, one definition \<open>on_...\<close> per
    completion of an awaited operation, composed by \<open>worker_step\<close>; \<open>execute_job\<close> as a whole.
  \<^item> \<open>Worker_Invariant\<close>: permits, tasks and phases fit together.  \<open>Worker_System\<close>: a worker beside other processes, whose
    calls interleave with its own.  \<open>Lease_Api\<close>: the contract \<open>leasing_store\<close>, which extends \<open>job_store\<close> by leases,
    interpreted as \<open>pgl\<close>.  \<open>Worker_Tasks\<close>: what a task keeps while others run.  \<open>Worker_Properties\<close>, \<open>Worker_Shutdown\<close>,
    \<open>Worker_Fencing\<close>, \<open>Worker_Startup\<close>, \<open>Worker_Execution\<close>: bounded concurrency, reports that are applied because the lease outlives
    the execution, the end of a shutdown, re-registration, the lack of fencing between attempts, the configuration,
    and that the stages of a task compose to \<open>execute_job\<close>.  \<open>Worker_Liveness\<close>: rounds of a worker finish the waiting jobs, proved
    once in the locale \<open>bounded_work\<close>, interpreted as \<open>wk\<close>.  \<open>Contention\<close>: many workers on one queue, with every interleaving of their calls finite
    and every job leased once; the locale \<open>finite_work\<close> extends \<open>bounded_work\<close> and is interpreted as \<open>ct\<close>.
  \<^item> \<open>Api_Config\<close>, \<open>Api_Routes\<close>, \<open>Api_Router\<close>, \<open>Api_Sse\<close> (\<^verbatim>\<open>api/src\<close>): the configuration, the handlers with the error mapping, the
    table of routes with the middleware (\<open>serve\<close> is a request from the wire to the response), and the status stream.
    \<open>Api_Properties\<close>: the shape of responses, refused requests, submission and lookup over HTTP, queue names.
  \<^item> \<open>Process_Boot\<close>: how both binaries start (\<open>PgStore::connect\<close> and \<open>migrate\<close>, \<open>init_tracing\<close>, the \<open>main\<close> functions up to the point where the
    process serves) and what can come of it.  \<open>Worker_Process\<close> (\<^verbatim>\<open>worker/src/main.rs\<close>): the runtime beside the health server, up to the return of
    \<open>main\<close>.  \<open>Api_Process\<close> (\<^verbatim>\<open>api/src/main.rs\<close>): listener, connections, status streams and maintenance task as a state machine with the
    runs as the inductive relation \<open>serves\<close>, and that it shuts down.
  \<^item> \<open>Fault_Tolerance\<close>: the processes over a store whose calls may fail.  The contract \<open>steady_store\<close> asks only that a call keeps an invariant and does
    not panic; it is interpreted on \<open>faulty_store\<close> as \<open>fs\<close>, and is enough for workers and the maintenance task to go on; the API does not report
    success for a call that was lost.
  \<^item> \<open>Unit_Tests\<close>, \<open>Integration_Tests\<close> and \<open>Concurrency_Tests\<close>: the tests of \<^verbatim>\<open>crates/core\<close> and of \<^verbatim>\<open>crates/integration-tests\<close> as statements about the model,
    which hold: a check of the model against what the authors expect of the program.

  \<^bold>\<open>State and operations.\<close>  A run is a list of calls, each with the environment the server gives it (clock,
  generated id, rows locked by concurrent transactions, error texts, collation).  Nothing is assumed about
  the environments: clocks need not advance and ids may collide.  The theorems quantify over all runs from
  the empty database in which submitted jobs come from \<open>NewJob::normalized\<close>.  The JSON values of payloads,
  results and metadata are an arbitrary type.  A worker's run is a list of events, its own and the calls of other
  processes; the order is arbitrary, and an event that cannot happen in a state has no successor.  A status
  stream sees an arbitrary sequence of reachable databases.

  \<^bold>\<open>Bounds.\<close>  Columns are integers; the invariant keeps attempts, timeouts and backoff within their limits, so the
  32-bit columns do not overflow and the \<open>f64\<close> backoff is exact.  No definition uses fuel; the loops of the
  source recurse on their data, on the polls that are left (\<open>sse_loop\<close>), or are runs of the state machines of the worker and of the API
  process, whose shutdowns end after a number of steps bounded by the tasks and the connections in flight.

  \<^bold>\<open>Parameters.\<close>  Adding seconds to a \<open>DateTime\<close> is \<^verbatim>\<open>chrono\<close>'s: the parameter \<open>add_secs\<close> with its documented panic, and
  where a theorem needs it the hypothesis \<open>chrono_exact\<close>.  The accessors of \<^verbatim>\<open>serde_json\<close> are the record \<open>json_api\<close>; what
  axum and serde decode from a request is the record \<open>extractors\<close>, with \<open>decodes_typed\<close> that integers are in the
  range of their types; tokio's limit of permits, the display of a \<open>Uuid\<close>, header values, socket addresses and
  the \<^verbatim>\<open>prometheus\<close> crate are arguments of the definitions that use them.

  What the binaries call of \<^verbatim>\<open>sqlx\<close>, \<^verbatim>\<open>tracing\<close> and the standard library's parsers is the record \<open>crates\<close>, with
  \<open>crates_documented\<close> for what is relied on: a connection is a handle to the database or an error, migrating a migrated database
  leaves it alone, collectors with valid and new names are accepted.

  \<^bold>\<open>Not modelled.\<close>  The theorems over runs take the methods of the store as atomic; \<open>Pg_Concurrent\<close> says for which of the methods that
  are not transactions this is justified.  \<open>fail_job\<close>, \<open>complete_job\<close> and \<open>lease_next\<close> are transactions in the source and are never split;
  neither are \<open>ensure_queue\<close> as an operation of its own, \<open>list_attempts\<close> behind its existence check, and the statements of a handler
  that calls the service twice.  Left out are interval arithmetic outside Postgres'
  range, what is logged and traced, the keep-alive comments of the event stream, the failure to install a signal handler, and the wrapping
  and unwrapping of the pool.  A lost connection is an error of a statement; that the server or the pool is slow is not modelled, and the
  theorems over fault-free runs are not restated for runs in which a retry or a sweep is cut between its statements.
\<close>

end
